(* ===== verification/Prelude.thy ===== *)
theory Prelude
  imports Main "HOL-Library.Multiset" "HOL-Library.Word" "HOL-Library.Sublist"
begin

text \<open>
  What the components share: machine integer types, errors as values, hash maps as
  association lists, the decimal printer, FIFO queues, the interface of a FIFO
  pool of identifiers, and what a step relation owes its invariant and its specification.

  A \<^verbatim>\<open>HashMap\<close> of the daemon is an association list with distinct keys
  (\<open>hm_wf\<close>). Rust leaves the iteration order of a \<^verbatim>\<open>HashMap\<close> unspecified; the
  model iterates in list order, and a new key goes to the front. A fact that would
  depend on the order is never stated: lookups by predicate are characterised by the
  set of values only.

  An error keeps its kind and its message. A message is a short key together with
  the arguments that the \<^verbatim>\<open>format!\<close> of the source interpolates (\<open>Msg key args\<close>); the
  English text around them is not modelled.
\<close>

section \<open>Machine integers\<close>

type_synonym u8 = "8 word"
type_synonym u16 = "16 word"
type_synonym u32 = "32 word"
type_synonym u64 = "64 word"

definition saturating_sub :: "'a::len word \<Rightarrow> 'a word \<Rightarrow> 'a word" where
  "saturating_sub a b = (if a < b then 0 else a - b)"

lemma unat_saturating_sub: "unat (saturating_sub a b) = unat a - unat b"
  by (auto simp: saturating_sub_def unat_sub word_le_nat_alt word_less_nat_alt)

section \<open>Errors as values\<close>

datatype message = Msg string "string list"

datatype io_kind =
    NotFound | AlreadyExists | InvalidInput | InvalidData | UnexpectedEof
  | WriteZero | ConnectionRefused | TimedOut | CrossesDevices | OtherKind

datatype io_error = IoError (io_err_kind: io_kind) (io_err_msg: message)

definition io_other :: "string \<Rightarrow> string list \<Rightarrow> io_error" where
  "io_other k args = IoError OtherKind (Msg k args)"

type_synonym ('e, 'a) result = "'e + 'a"

definition is_ok :: "('e, 'a) result \<Rightarrow> bool" where
  "is_ok r = (case r of Inl _ \<Rightarrow> False | Inr _ \<Rightarrow> True)"

lemma is_ok_simps [simp]: "is_ok (Inl e) = False" "is_ok (Inr x) = True"
  by (simp_all add: is_ok_def)

definition ok_or :: "'e \<Rightarrow> 'a option \<Rightarrow> ('e, 'a) result" where
  "ok_or e x = (case x of None \<Rightarrow> Inl e | Some y \<Rightarrow> Inr y)"

lemma ok_or_simps [simp]: "ok_or e None = Inl e" "ok_or e (Some y) = Inr y"
  by (simp_all add: ok_or_def)

text \<open>\<^verbatim>\<open>Result::and_then\<close>, the \<^verbatim>\<open>?\<close> of a function that has no state.\<close>

definition and_then :: "('e, 'a) result \<Rightarrow> ('a \<Rightarrow> ('e, 'b) result) \<Rightarrow> ('e, 'b) result" where
  "and_then r f = (case r of Inl e \<Rightarrow> Inl e | Inr x \<Rightarrow> f x)"

lemma and_then_simps [simp]: "and_then (Inl e) f = Inl e" "and_then (Inr x) f = f x"
  by (simp_all add: and_then_def)

lemma and_then_ok: "and_then r f = Inr y \<longleftrightarrow> (\<exists>x. r = Inr x \<and> f x = Inr y)"
  by (cases r) simp_all

text \<open>Durations are nanoseconds.\<close>

abbreviation (input) secs :: "nat \<Rightarrow> nat" where
  "secs n \<equiv> n * 1000000000"

section \<open>ASCII case\<close>

definition ascii_lower :: "char \<Rightarrow> char" where
  "ascii_lower c = (if 65 \<le> (of_char c :: nat) \<and> (of_char c :: nat) \<le> 90 then char_of (of_char c + 32 :: nat) else c)"

definition eq_ignore_ascii_case :: "string \<Rightarrow> string \<Rightarrow> bool" where
  "eq_ignore_ascii_case a b = (map ascii_lower a = map ascii_lower b)"

section \<open>Decimal digits\<close>

definition digit_char :: "nat \<Rightarrow> char" where
  "digit_char n = char_of (48 + n mod 10)"

fun show_nat :: "nat \<Rightarrow> string" where
  "show_nat n = (if n < 10 then [digit_char n] else show_nat (n div 10) @ [digit_char n])"

declare show_nat.simps [simp del]

definition is_digit :: "char \<Rightarrow> bool" where
  "is_digit c = (48 \<le> (of_char c :: nat) \<and> (of_char c :: nat) \<le> 57)"

definition digit_val :: "char \<Rightarrow> nat" where
  "digit_val c = of_char c - 48"

fun parse_digits :: "nat \<Rightarrow> string \<Rightarrow> nat option" where
  "parse_digits acc [] = Some acc"
| "parse_digits acc (c # cs) = (if is_digit c then parse_digits (acc * 10 + digit_val c) cs else None)"

text \<open>
  \<^verbatim>\<open>str::parse::<uN>()\<close>: an optional leading \<^verbatim>\<open>+\<close>, then at least one ASCII digit, and a
  value of at most the type's maximum.
\<close>

definition parse_unsigned :: "nat \<Rightarrow> string \<Rightarrow> nat option" where
  "parse_unsigned maximum s =
     (let ds = (case s of [] \<Rightarrow> [] | c # cs \<Rightarrow> if c = CHR ''+'' then cs else s)
      in if ds = [] then None
         else case parse_digits 0 ds of
                None \<Rightarrow> None
              | Some n \<Rightarrow> if n \<le> maximum then Some n else None)"

lemma of_char_digit_char [simp]: "(of_char (digit_char n) :: nat) = 48 + n mod 10"
proof -
  have "n mod 10 < 10" by simp
  then have "48 + n mod 10 < (256::nat)" by linarith
  then show ?thesis by (simp add: digit_char_def)
qed

lemma is_digit_digit_char [simp]: "is_digit (digit_char n)"
proof -
  have "n mod 10 < 10" by simp
  then show ?thesis unfolding is_digit_def of_char_digit_char by linarith
qed

lemma digit_val_digit_char [simp]: "digit_val (digit_char n) = n mod 10"
  by (simp add: digit_val_def)

lemma parse_digits_append:
  "parse_digits acc (xs @ ys) = (case parse_digits acc xs of None \<Rightarrow> None | Some a \<Rightarrow> parse_digits a ys)"
  by (induction acc xs rule: parse_digits.induct) auto

lemma show_nat_nonempty [simp]: "show_nat n \<noteq> []"
  by (subst show_nat.simps) simp

lemma show_nat_digits: "list_all is_digit (show_nat n)"
proof (induction n rule: show_nat.induct)
  case (1 n)
  then show ?case by (subst show_nat.simps) auto
qed

lemma parse_show_nat: "parse_digits 0 (show_nat n) = Some n"
proof (induction n rule: show_nat.induct)
  case (1 n)
  then show ?case
    by (subst show_nat.simps) (auto simp: parse_digits_append)
qed

lemma show_nat_inject: "show_nat m = show_nat n \<Longrightarrow> m = n"
  by (metis option.inject parse_show_nat)

section \<open>Strings\<close>

text \<open>\<^verbatim>\<open>str::split_once(c)\<close>, \<^verbatim>\<open>starts_with\<close>, \<^verbatim>\<open>strip_prefix\<close> and \<^verbatim>\<open>split(c)\<close>.\<close>

fun split_once :: "'a \<Rightarrow> 'a list \<Rightarrow> ('a list \<times> 'a list) option" where
  "split_once c [] = None"
| "split_once c (x # xs) =
     (if x = c then Some ([], xs)
      else case split_once c xs of None \<Rightarrow> None | Some (a, b) \<Rightarrow> Some (x # a, b))"

fun split_on :: "'a \<Rightarrow> 'a list \<Rightarrow> 'a list list" where
  "split_on c [] = [[]]"
| "split_on c (x # xs) =
     (if x = c then [] # split_on c xs
      else case split_on c xs of [] \<Rightarrow> [[x]] | y # ys \<Rightarrow> (x # y) # ys)"

fun join_with :: "'a \<Rightarrow> 'a list list \<Rightarrow> 'a list" where
  "join_with c [] = []"
| "join_with c [x] = x"
| "join_with c (x # y # ys) = x @ c # join_with c (y # ys)"

fun strip_prefix :: "'a list \<Rightarrow> 'a list \<Rightarrow> 'a list option" where
  "strip_prefix [] ys = Some ys"
| "strip_prefix (x # xs) [] = None"
| "strip_prefix (x # xs) (y # ys) = (if x = y then strip_prefix xs ys else None)"

lemma strip_prefix_some: "strip_prefix p s = Some r \<longleftrightarrow> s = p @ r"
  by (induction p s rule: strip_prefix.induct) auto

lemma split_once_append: "c \<notin> set a \<Longrightarrow> split_once c (a @ c # b) = Some (a, b)"
  by (induction a) auto

lemma split_once_someD: "split_once c s = Some (a, b) \<Longrightarrow> s = a @ c # b \<and> c \<notin> set a"
  by (induction c s arbitrary: a rule: split_once.induct) (auto split: if_splits option.splits prod.splits)

lemma split_once_none: "split_once c s = None \<longleftrightarrow> c \<notin> set s"
  by (induction s) (auto split: option.splits)

lemma split_on_nonempty [simp]: "split_on c s \<noteq> []"
  by (induction s) (auto split: list.splits)

lemma join_with_split_on: "join_with c (split_on c s) = s"
proof (induction s)
  case Nil
  then show ?case by simp
next
  case (Cons x s)
  obtain y ys where y: "split_on c s = y # ys" by (cases "split_on c s") auto
  show ?case using Cons y by (cases ys) auto
qed

lemma split_on_parts: "p \<in> set (split_on c s) \<Longrightarrow> c \<notin> set p"
  by (induction s arbitrary: p) (fastforce split: list.splits if_splits)+

lemma split_on_no_sep: "c \<notin> set s \<Longrightarrow> split_on c s = [s]"
  by (induction s) auto

lemma split_on_append_sep: "c \<notin> set a \<Longrightarrow> split_on c (a @ c # b) = a # split_on c b"
  by (induction a) auto

lemma split_on_join_with:
  assumes "ps \<noteq> []" "\<And>p. p \<in> set ps \<Longrightarrow> c \<notin> set p"
  shows "split_on c (join_with c ps) = ps"
  using assms
proof (induction c ps rule: join_with.induct)
  case (2 c x)
  then show ?case by (simp add: split_on_no_sep)
next
  case (3 c x y ys)
  then show ?case by (simp add: split_on_append_sep)
qed simp

section \<open>Hash maps\<close>

type_synonym 'v hash_map = "(string \<times> 'v) list"

named_theorems hm_simps

definition hm_get :: "'k \<Rightarrow> ('k \<times> 'v) list \<Rightarrow> 'v option" where
  "hm_get k m = map_of m k"

definition hm_remove :: "'k \<Rightarrow> ('k \<times> 'v) list \<Rightarrow> ('k \<times> 'v) list" where
  "hm_remove k m = filter (\<lambda>p. fst p \<noteq> k) m"

definition hm_insert :: "'k \<Rightarrow> 'v \<Rightarrow> ('k \<times> 'v) list \<Rightarrow> ('k \<times> 'v) list" where
  "hm_insert k v m = (k, v) # hm_remove k m"

definition hm_contains :: "'k \<Rightarrow> ('k \<times> 'v) list \<Rightarrow> bool" where
  "hm_contains k m = (hm_get k m \<noteq> None)"

definition hm_values :: "('k \<times> 'v) list \<Rightarrow> 'v list" where
  "hm_values m = map snd m"

definition hm_keys :: "('k \<times> 'v) list \<Rightarrow> 'k list" where
  "hm_keys m = map fst m"

definition hm_wf :: "('k \<times> 'v) list \<Rightarrow> bool" where
  "hm_wf m = distinct (map fst m)"

text \<open>\<open>hm_modify\<close> is \<^verbatim>\<open>if let Some(v) = map.get_mut(k) { ... }\<close>.\<close>

definition hm_modify :: "'k \<Rightarrow> ('v \<Rightarrow> 'v) \<Rightarrow> ('k \<times> 'v) list \<Rightarrow> ('k \<times> 'v) list" where
  "hm_modify k f m = map (\<lambda>p. if fst p = k then (k, f (snd p)) else p) m"

lemma hm_get_empty [simp]: "hm_get k [] = None"
  by (simp add: hm_get_def)

lemma hm_get_remove [simp]: "hm_get k (hm_remove k' m) = (if k = k' then None else hm_get k m)"
  by (induction m) (auto simp: hm_get_def hm_remove_def)

lemma hm_get_insert [simp]: "hm_get k (hm_insert k' v m) = (if k = k' then Some v else hm_get k m)"
  using hm_get_remove [of k k' m] by (auto simp: hm_insert_def hm_get_def)

lemma hm_get_modify [simp]: "hm_get k (hm_modify k' f m) = (if k = k' then map_option f (hm_get k m) else hm_get k m)"
  by (induction m) (auto simp: hm_get_def hm_modify_def)

lemma hm_contains_iff: "hm_contains k m \<longleftrightarrow> (\<exists>v. hm_get k m = Some v)"
  by (auto simp: hm_contains_def)

lemma hm_wf_empty [simp]: "hm_wf []"
  by (simp add: hm_wf_def)

lemma hm_wf_remove [simp]: "hm_wf m \<Longrightarrow> hm_wf (hm_remove k m)"
  by (auto simp: hm_wf_def hm_remove_def distinct_map intro: inj_on_subset)

lemma hm_remove_notin [simp]: "k \<notin> fst ` set (hm_remove k m)"
  by (auto simp: hm_remove_def)

lemma hm_wf_insert [simp]: "hm_wf m \<Longrightarrow> hm_wf (hm_insert k v m)"
  using hm_wf_remove [of m k] by (simp add: hm_wf_def hm_insert_def)

lemma hm_wf_modify [simp]: "hm_wf (hm_modify k f m) = hm_wf m"
proof -
  have "map fst (hm_modify k f m) = map fst m" by (auto simp: hm_modify_def)
  then show ?thesis by (simp add: hm_wf_def)
qed

lemma hm_keys_remove: "set (hm_keys (hm_remove k m)) = set (hm_keys m) - {k}"
  by (auto simp: hm_keys_def hm_remove_def)

lemma hm_keys_get: "k \<in> set (hm_keys m) \<longleftrightarrow> hm_contains k m"
  by (auto simp: hm_keys_def hm_contains_def hm_get_def map_of_eq_None_iff image_iff)

lemma hm_get_in: "hm_get k m = Some v \<Longrightarrow> (k, v) \<in> set m"
  by (simp add: hm_get_def map_of_SomeD)

lemma hm_in_get: "hm_wf m \<Longrightarrow> (k, v) \<in> set m \<longleftrightarrow> hm_get k m = Some v"
  by (simp add: hm_get_def hm_wf_def)

lemma hm_values_get: "hm_wf m \<Longrightarrow> v \<in> set (hm_values m) \<longleftrightarrow> (\<exists>k. hm_get k m = Some v)"
  by (auto simp: hm_values_def hm_in_get [symmetric] image_iff Bex_def)

lemma hm_get_values: "hm_get k m = Some v \<Longrightarrow> v \<in> set (hm_values m)"
  by (auto simp: hm_values_def image_iff Bex_def dest!: hm_get_in)

lemma hm_remove_absent: "hm_get k m = None \<Longrightarrow> hm_remove k m = m"
  by (auto simp: hm_remove_def hm_get_def map_of_eq_None_iff intro!: filter_True)

text \<open>The multiset of a map's entries splits along any key: what the conservation invariants use.\<close>

lemma hm_mset_split:
  assumes "hm_wf m" "hm_get k m = Some v"
  shows "mset m = add_mset (k, v) (mset (hm_remove k m))"
  using assms
proof (induction m)
  case Nil
  then show ?case by simp
next
  case (Cons p m)
  obtain k' v' where p: "p = (k', v')" by (cases p)
  show ?case
  proof (cases "k' = k")
    case True
    with Cons.prems p have "v' = v" and "k \<notin> fst ` set m"
      by (auto simp: hm_get_def hm_wf_def)
    then have "filter (\<lambda>q. fst q \<noteq> k) m = m" by (auto intro!: filter_True)
    with True p \<open>v' = v\<close> show ?thesis by (simp add: hm_remove_def)
  next
    case False
    with Cons p show ?thesis by (auto simp: hm_get_def hm_wf_def hm_remove_def)
  qed
qed

lemma hm_mset_insert: "mset (hm_insert k v m) = add_mset (k, v) (mset (hm_remove k m))"
  by (simp add: hm_insert_def)

lemmas hm_mset = hm_mset_split hm_mset_insert

section \<open>Step relations\<close>

text \<open>
  What every step relation of the development is used for: an invariant of the steps is one of the runs. And a
  simulation: where a step is, seen through \<open>abs\<close>, a run of an abstract relation, so is a run, and the
  invariants of the abstract relation are invariants of the steps.
\<close>

lemmas run_refl = rtranclp.rtrancl_refl
lemmas run_step = rtranclp.rtrancl_into_rtrancl
lemmas run_one = r_into_rtranclp

locale step_invariant =
  fixes step :: "'s \<Rightarrow> 's \<Rightarrow> bool"
    and inv :: "'s \<Rightarrow> bool"
  assumes step_inv: "step s t \<Longrightarrow> inv s \<Longrightarrow> inv t"
begin

lemma steps_inv: "step\<^sup>*\<^sup>* s t \<Longrightarrow> inv s \<Longrightarrow> inv t"
  by (induction rule: rtranclp_induct) (auto intro: step_inv)

lemma fold_inv:
  assumes "\<And>x s. step s (f x s)"
  shows "inv s \<Longrightarrow> inv (fold f xs s)"
  by (induction xs arbitrary: s) (auto intro: step_inv [OF assms])

end

locale simulation =
  spec: step_invariant astep ainv for astep :: "'a \<Rightarrow> 'a \<Rightarrow> bool" and ainv :: "'a \<Rightarrow> bool" +
  fixes step :: "'s \<Rightarrow> 's \<Rightarrow> bool"
    and abs :: "'s \<Rightarrow> 'a"
  assumes simulates: "step s t \<Longrightarrow> ainv (abs s) \<Longrightarrow> astep\<^sup>*\<^sup>* (abs s) (abs t)"
begin

lemma abs_inv: "step s t \<Longrightarrow> ainv (abs s) \<Longrightarrow> ainv (abs t)"
  using simulates spec.steps_inv by blast

end

sublocale simulation \<subseteq> impl: step_invariant step "\<lambda>s. ainv (abs s)"
  by unfold_locales (rule abs_inv)

context simulation
begin

lemma steps_simulate: "step\<^sup>*\<^sup>* s t \<Longrightarrow> ainv (abs s) \<Longrightarrow> astep\<^sup>*\<^sup>* (abs s) (abs t)"
proof (induction rule: rtranclp_induct)
  case (step t u)
  then show ?case using simulates [OF step(2)] impl.steps_inv by (metis rtranclp_trans)
qed simp

lemma fold_simulates:
  assumes "\<And>x s. step s (f x s)"
  shows "ainv (abs s) \<Longrightarrow> astep\<^sup>*\<^sup>* (abs s) (abs (fold f xs s))"
proof (induction xs arbitrary: s)
  case (Cons x xs)
  then show ?case using simulates [OF assms] abs_inv [OF assms] by (metis fold_simps(2) rtranclp_trans)
qed simp

end

end
