(* ===== verification/Host.thy ===== *)
theory Host
  imports Prelude
begin

text \<open>
  The programs the daemon spawns (\<^verbatim>\<open>ip\<close>, \<^verbatim>\<open>iptables\<close>, \<^verbatim>\<open>cp\<close>, \<^verbatim>\<open>mkfs.ext4\<close> and so on) are not
  under src/: their answer is a parameter. A \<open>sys\<close> carries the answer function
  (\<open>answer\<close>), which may depend on everything that was run before, and the log of the
  runs so far, so a theorem that quantifies over \<open>sys\<close> holds for every behaviour of
  those programs. Also here: \<^verbatim>\<open>Ipv4Addr\<close> with its printer and parser, and the
  interface of a FIFO pool of identifiers.
\<close>

section \<open>Spawned programs\<close>

record cmd_out =
  out_success :: bool
  out_stdout :: string
  out_stderr :: string

datatype command = Command (cmd_program: string) (cmd_args: "string list") (cmd_stdin: string)

record sys =
  answer :: "command list \<Rightarrow> command \<Rightarrow> (io_error, cmd_out) result"
  runs :: "command list"

text \<open>\<^verbatim>\<open>Command::new(program).args(args).output()\<close>.\<close>

definition command_output :: "command \<Rightarrow> sys \<Rightarrow> (io_error, cmd_out) result \<times> sys" where
  "command_output c s = (answer s (runs s) c, s\<lparr>runs := runs s @ [c]\<rparr>)"

definition run :: "string \<Rightarrow> string list \<Rightarrow> sys \<Rightarrow> (io_error, unit) result \<times> sys" where
  "run program args s =
     (case command_output (Command program args []) s of
        (Inl e, s') \<Rightarrow> (Inl e, s')
      | (Inr o1, s') \<Rightarrow>
          if out_success o1 then (Inr (), s')
          else (Inl (io_other ''{program} {args} failed: {stderr}''
                       (program # args @ [out_stderr o1])), s'))"

text \<open>Runs a list of programs, stopping at the first failure: a chain of \<^verbatim>\<open>run(..)?\<close>.\<close>

fun run_all :: "(string \<times> string list) list \<Rightarrow> sys \<Rightarrow> (io_error, unit) result \<times> sys" where
  "run_all [] s = (Inr (), s)"
| "run_all ((p, args) # cs) s =
     (case run p args s of (Inl e, s') \<Rightarrow> (Inl e, s') | (Inr _, s') \<Rightarrow> run_all cs s')"

lemma answer_command_output [simp]: "answer (snd (command_output c s)) = answer s"
  by (simp add: command_output_def)

lemma runs_command_output [simp]: "runs (snd (command_output c s)) = runs s @ [c]"
  by (simp add: command_output_def)

lemma run_snd: "snd (run p args s) = s\<lparr>runs := runs s @ [Command p args []]\<rparr>"
  by (auto simp: run_def command_output_def split: sum.splits)

lemma answer_run [simp]: "answer (snd (run p args s)) = answer s"
  by (simp add: run_snd)

lemma runs_run [simp]: "runs (snd (run p args s)) = runs s @ [Command p args []]"
  by (simp add: run_snd)

text \<open>Whatever happens, \<open>run_all\<close> has run a non-empty prefix of its programs, all of them on success.\<close>

lemma run_all_log:
  assumes "run_all cs s = (r, s')"
  shows "\<exists>done. prefix done (map (\<lambda>(p, a). Command p a []) cs) \<and> runs s' = runs s @ done
            \<and> (is_ok r \<longrightarrow> done = map (\<lambda>(p, a). Command p a []) cs)"
  using assms
proof (induction cs s rule: run_all.induct)
  case (1 s)
  then show ?case by auto
next
  case (2 p args cs s)
  obtain r1 s1 where run1: "run p args s = (r1, s1)" by (cases "run p args s")
  have log1: "runs s1 = runs s @ [Command p args []]" using runs_run [of p args s] run1 by simp
  show ?case
  proof (cases r1)
    case (Inl e)
    with 2 run1 log1 show ?thesis by (intro exI [of _ "[Command p args []]"]) auto
  next
    case (Inr u)
    with 2 run1 obtain d where "prefix d (map (\<lambda>(p, a). Command p a []) cs)"
      "runs s' = runs s1 @ d" "is_ok r \<longrightarrow> d = map (\<lambda>(p, a). Command p a []) cs" by auto
    with log1 show ?thesis by (intro exI [of _ "Command p args [] # d"]) auto
  qed
qed

section \<open>IPv4 addresses\<close>

datatype ipv4 = Ipv4 u8 u8 u8 u8

text \<open>\<^verbatim>\<open>Ipv4Addr::to_string\<close>.\<close>

fun show_ipv4 :: "ipv4 \<Rightarrow> string" where
  "show_ipv4 (Ipv4 a b c d) =
     join_with (CHR ''.'') [show_nat (unat a), show_nat (unat b), show_nat (unat c), show_nat (unat d)]"

text \<open>
  \<^verbatim>\<open>Ipv4Addr::from_str\<close>: four decimal octets of one to three digits, no leading zero,
  at most 255 each.
\<close>

definition parse_octet :: "string \<Rightarrow> u8 option" where
  "parse_octet s =
     (if s = [] \<or> 3 < length s \<or> (1 < length s \<and> hd s = CHR ''0'') then None
      else case parse_digits 0 s of
             None \<Rightarrow> None
           | Some n \<Rightarrow> if n \<le> 255 then Some (of_nat n) else None)"

definition parse_ipv4 :: "string \<Rightarrow> ipv4 option" where
  "parse_ipv4 s =
     (case map parse_octet (split_on (CHR ''.'') s) of
        [Some a, Some b, Some c, Some d] \<Rightarrow> Some (Ipv4 a b c d)
      | _ \<Rightarrow> None)"

lemma show_nat_chars: "c \<in> set (show_nat n) \<Longrightarrow> is_digit c"
  using show_nat_digits [of n] by (auto simp: list_all_iff)

lemma is_digit_not [simp]:
  "\<not> is_digit (CHR ''.'')" "\<not> is_digit (CHR ''/'')" "\<not> is_digit (CHR ''+'')"
  "\<not> is_digit (CHR '':'')" "\<not> is_digit (CHR 0x0A)" "\<not> is_digit (CHR ''-'')"
  by (simp_all add: is_digit_def)

lemma parse_unsigned_show_nat: "parse_unsigned mx (show_nat n) = (if n \<le> mx then Some n else None)"
proof -
  have "hd (show_nat n) \<noteq> CHR ''+''"
    using show_nat_chars [of "hd (show_nat n)" n] by (metis hd_in_set is_digit_not(3) show_nat_nonempty)
  then have "(case show_nat n of [] \<Rightarrow> [] | c # cs \<Rightarrow> if c = CHR ''+'' then cs else show_nat n) = show_nat n"
    by (cases "show_nat n") auto
  then show ?thesis by (simp add: parse_unsigned_def parse_show_nat)
qed

lemma show_nat_no_dot [simp]: "CHR ''.'' \<notin> set (show_nat n)"
  using show_nat_chars by fastforce

lemma show_nat_small:
  assumes "n < 256"
  shows "length (show_nat n) \<le> 3"
proof -
  have "n div 10 div 10 < 10" using assms by linarith
  then show ?thesis
    by (subst show_nat.simps, cases "n < 10") (simp, subst show_nat.simps, cases "n div 10 < 10",
        simp, subst show_nat.simps, simp)
qed

lemma digit_char_zero: "digit_char n = CHR ''0'' \<Longrightarrow> n mod 10 = 0"
  by (drule arg_cong [where f = "of_char :: char \<Rightarrow> nat"]) simp

lemma show_nat_hd: "0 < n \<Longrightarrow> hd (show_nat n) \<noteq> CHR ''0''"
proof (induction n rule: show_nat.induct)
  case (1 n)
  show ?case
  proof (cases "n < 10")
    case True
    with 1 show ?thesis using digit_char_zero [of n] by (subst show_nat.simps) auto
  next
    case False
    then have "0 < n div 10" by (simp add: div_greater_zero_iff)
    with False 1 show ?thesis by (subst show_nat.simps) simp
  qed
qed

lemma parse_octet_show [simp]: "parse_octet (show_nat (unat (a::u8))) = Some a"
proof -
  have "unat a < 2 ^ LENGTH(8)" by (rule unsigned_less)
  then have small: "unat a < 256" by simp
  have "\<not> (1 < length (show_nat (unat a)) \<and> hd (show_nat (unat a)) = CHR ''0'')"
  proof (cases "unat a")
    case 0
    then show ?thesis by (simp add: show_nat.simps)
  next
    case (Suc n)
    then show ?thesis using show_nat_hd [of "unat a"] by simp
  qed
  then show ?thesis
    using show_nat_small [OF small] small by (simp add: parse_octet_def parse_show_nat)
qed

lemma parse_show_ipv4: "parse_ipv4 (show_ipv4 a) = Some a"
proof (cases a)
  case (Ipv4 a b c d)
  let ?ps = "[show_nat (unat a), show_nat (unat b), show_nat (unat c), show_nat (unat d)]"
  have split: "split_on (CHR ''.'') (join_with (CHR ''.'') ?ps) = ?ps"
    by (rule split_on_join_with) auto
  show ?thesis
    unfolding Ipv4 show_ipv4.simps parse_ipv4_def split by simp
qed

lemma parse_octet_digits: "parse_octet s = Some o' \<Longrightarrow> list_all is_digit s"
proof -
  have "parse_digits acc s = Some n \<Longrightarrow> list_all is_digit s" for acc n
    by (induction acc s rule: parse_digits.induct) (auto split: if_splits)
  then show "parse_octet s = Some o' \<Longrightarrow> list_all is_digit s"
    by (auto simp: parse_octet_def split: if_splits option.splits)
qed

lemma join_with_chars: "c \<in> set (join_with d ps) \<Longrightarrow> c = d \<or> (\<exists>p \<in> set ps. c \<in> set p)"
  by (induction d ps rule: join_with.induct) auto

text \<open>An address that parses is made of digits and dots only.\<close>

lemma parse_ipv4_chars:
  assumes "parse_ipv4 s = Some a" "c \<in> set s"
  shows "is_digit c \<or> c = CHR ''.''"
proof -
  from assms(1) have "\<forall>p \<in> set (split_on (CHR ''.'') s). \<exists>x. parse_octet p = Some x"
    unfolding parse_ipv4_def
    by (auto split: list.splits option.splits)
  then have "\<forall>p \<in> set (split_on (CHR ''.'') s). list_all is_digit p"
    using parse_octet_digits by blast
  then have "d \<in> set p \<Longrightarrow> p \<in> set (split_on (CHR ''.'') s) \<Longrightarrow> is_digit d" for d p
    by (simp add: list_all_iff)
  then show ?thesis
    using join_with_chars [of c "CHR ''.''" "split_on (CHR ''.'') s"] assms(2)
    by (auto simp: join_with_split_on)
qed

section \<open>The interface of a FIFO pool of identifiers\<close>

text \<open>
  What the tap devices, the host octets, the jailer slots and the warm snapshots of a
  pool share: \<open>acquire\<close> takes the front, \<open>release\<close> puts an identifier at the back.
\<close>

locale id_pool =
  fixes free :: "'s \<Rightarrow> 'i list"
    and acquire :: "'s \<Rightarrow> ('i \<times> 's) option"
    and release :: "'i \<Rightarrow> 's \<Rightarrow> 's"
  assumes acquire_none: "acquire s = None \<longleftrightarrow> free s = []"
    and acquire_some: "acquire s = Some (i, s') \<Longrightarrow> free s = i # free s'"
    and free_release: "free (release i s) = free s @ [i]"
begin

text \<open>\<open>owned\<close>: the free identifiers and the held ones together, without repetition.\<close>

definition owned :: "'s \<Rightarrow> 'i list \<Rightarrow> bool" where
  "owned s held \<longleftrightarrow> distinct (free s @ held)"

lemma acquire_owned:
  assumes "owned s held" "acquire s = Some (i, s')"
  shows "owned s' (i # held)" "i \<notin> set held" "i \<notin> set (free s')"
  using assms acquire_some [OF assms(2)] by (auto simp: owned_def)

lemma release_owned: "owned s (held1 @ i # held2) \<Longrightarrow> owned (release i s) (held1 @ held2)"
  by (auto simp: owned_def free_release)

lemma acquire_conserves:
  "acquire s = Some (i, s') \<Longrightarrow> mset (free s) = add_mset i (mset (free s'))"
  using acquire_some by fastforce

lemma release_conserves: "mset (free (release i s)) = add_mset i (mset (free s))"
  by (simp add: free_release)

text \<open>Identifiers are reused in the order of their release: the longest free one first.\<close>

lemma acquire_is_oldest: "acquire s = Some (i, s') \<Longrightarrow> acquire (release j s) = Some (k, s'') \<Longrightarrow> k = i"
  using acquire_some [of s i s'] acquire_some [of "release j s" k s''] by (simp add: free_release)

lemma acquire_release_only: "free s = [] \<Longrightarrow> acquire (release i s) = Some (j, s') \<Longrightarrow> j = i \<and> free s' = []"
  using acquire_some [of "release i s" j s'] by (simp add: free_release)

lemma acquire_total: "free s \<noteq> [] \<Longrightarrow> \<exists>i s'. acquire s = Some (i, s')"
  using acquire_none [of s] by (cases "acquire s") auto

end

end
