(* ===== verification/Network.thy ===== *)
theory Network
  imports Host
begin

text \<open>
  \<^verbatim>\<open>vmm/src/network.rs\<close>: the pool of tap devices and guest addresses
  (\<^verbatim>\<open>NetworkManager\<close>), the leases on it, and the host set-up (bridge, NAT rules, default
  route). The two pools are the fields \<open>free_hosts\<close> and \<open>free_taps\<close>; a mutex guards each
  of them in the source, and every operation here is one of the critical sections in the
  order the code has them. The programs \<^verbatim>\<open>ip\<close>, \<^verbatim>\<open>bridge\<close>, \<^verbatim>\<open>sysctl\<close> and \<^verbatim>\<open>iptables\<close> answer
  through \<open>sys\<close>. The lemmas show that a lease is exclusive and that nothing leaks.
\<close>

section \<open>State\<close>

record network_config =
  tap_device :: string
  guest_ip :: ipv4
  nc_gateway_ip :: ipv4
  guest_mac :: string

record network_manager =
  bridge_name :: string
  gateway_ip :: ipv4
  prefix_len :: u8
  uplink :: string
  free_hosts :: "u8 list"
  free_taps :: "string list"

record lease =
  lease_config :: network_config
  host_octet :: u8

definition all_host_octets :: "u8 list" where
  "all_host_octets = map of_nat [2..<255]"

definition network_new :: "string \<Rightarrow> ipv4 \<Rightarrow> string \<Rightarrow> string list \<Rightarrow> network_manager" where
  "network_new bridge gw up taps =
     \<lparr>bridge_name = bridge, gateway_ip = gw, prefix_len = 24, uplink = up,
      free_hosts = all_host_octets, free_taps = taps\<rparr>"

section \<open>Operations\<close>

definition octets_with_last :: "ipv4 \<Rightarrow> u8 \<Rightarrow> ipv4" where
  "octets_with_last base last_octet = (case base of Ipv4 a b c _ \<Rightarrow> Ipv4 a b c last_octet)"

definition hex_digit :: "nat \<Rightarrow> char" where
  "hex_digit n = (if n < 10 then char_of (48 + n) else char_of (55 + n))"

definition hex2 :: "u8 \<Rightarrow> string" where
  "hex2 b = [hex_digit (unat b div 16), hex_digit (unat b mod 16)]"

definition guest_mac_of :: "u8 \<Rightarrow> string" where
  "guest_mac_of octet = ''AA:FC:00:00:'' @ hex2 octet @ '':'' @ hex2 octet"

definition link_exists :: "string \<Rightarrow> sys \<Rightarrow> (io_error, bool) result \<times> sys" where
  "link_exists name s =
     (case command_output (Command ''ip'' [''link'', ''show'', name] []) s of
        (Inl e, s') \<Rightarrow> (Inl e, s')
      | (Inr o1, s') \<Rightarrow> (Inr (out_success o1), s'))"

text \<open>A rule is checked with every \<^verbatim>\<open>-A\<close> replaced by \<^verbatim>\<open>-C\<close>, and added only when the check fails.\<close>

definition iptables_check_args :: "string list \<Rightarrow> string list" where
  "iptables_check_args args = map (\<lambda>a. if a = ''-A'' then ''-C'' else a) args"

definition ensure_iptables_rule :: "string list \<Rightarrow> sys \<Rightarrow> (io_error, unit) result \<times> sys" where
  "ensure_iptables_rule args s =
     (case command_output (Command ''iptables'' (iptables_check_args args) []) s of
        (Inl e, s') \<Rightarrow> (Inl e, s')
      | (Inr o1, s') \<Rightarrow> if out_success o1 then (Inr (), s') else run ''iptables'' args s')"

definition attach_tap :: "network_manager \<Rightarrow> string \<Rightarrow> sys \<Rightarrow> (io_error, unit) result \<times> sys" where
  "attach_tap m tap s =
     run_all [(''ip'', [''link'', ''set'', tap, ''up'']),
              (''ip'', [''link'', ''set'', tap, ''master'', bridge_name m]),
              (''bridge'', [''link'', ''set'', ''dev'', tap, ''isolated'', ''on''])] s"

fun missing_taps :: "string list \<Rightarrow> sys \<Rightarrow> (io_error, string list) result \<times> sys" where
  "missing_taps [] s = (Inr [], s)"
| "missing_taps (tap # taps) s =
     (case link_exists tap s of
        (Inl e, s') \<Rightarrow> (Inl e, s')
      | (Inr present, s') \<Rightarrow>
          (case missing_taps taps s' of
             (Inl e, s'') \<Rightarrow> (Inl e, s'')
           | (Inr ms, s'') \<Rightarrow> (Inr (if present then ms else tap # ms), s'')))"

fun ensure_iptables_rules :: "string list list \<Rightarrow> sys \<Rightarrow> (io_error, unit) result \<times> sys" where
  "ensure_iptables_rules [] s = (Inr (), s)"
| "ensure_iptables_rules (r # rs) s =
     (case ensure_iptables_rule r s of
        (Inl e, s') \<Rightarrow> (Inl e, s')
      | (Inr _, s') \<Rightarrow> ensure_iptables_rules rs s')"

definition nat_rules :: "network_manager \<Rightarrow> string list list" where
  "nat_rules m =
     [[''-t'', ''nat'', ''-A'', ''POSTROUTING'', ''-o'', uplink m, ''-j'', ''MASQUERADE''],
      [''-A'', ''FORWARD'', ''-i'', bridge_name m, ''-o'', uplink m, ''-j'', ''ACCEPT''],
      [''-A'', ''FORWARD'', ''-i'', uplink m, ''-o'', bridge_name m, ''-m'', ''state'', ''--state'',
       ''RELATED,ESTABLISHED'', ''-j'', ''ACCEPT'']]"

definition ensure_bridge :: "network_manager \<Rightarrow> sys \<Rightarrow> (io_error, unit) result \<times> sys" where
  "ensure_bridge m s =
     (case link_exists (bridge_name m) s of
        (Inl e, s') \<Rightarrow> (Inl e, s')
      | (Inr True, s') \<Rightarrow> (Inr (), s')
      | (Inr False, s') \<Rightarrow> run ''ip'' [''link'', ''add'', bridge_name m, ''type'', ''bridge''] s')"

definition ensure_ready :: "network_manager \<Rightarrow> sys \<Rightarrow> (io_error, unit) result \<times> sys" where
  "ensure_ready m s =
     (case ensure_bridge m s of
        (Inl e, s1) \<Rightarrow> (Inl e, s1)
      | (Inr _, s1) \<Rightarrow>
     (case run_all
             [(''ip'', [''addr'', ''replace'',
                        show_ipv4 (gateway_ip m) @ ''/'' @ show_nat (unat (prefix_len m)),
                        ''dev'', bridge_name m]),
              (''ip'', [''link'', ''set'', bridge_name m, ''up'']),
              (''sysctl'', [''-w'', ''net.ipv4.ip_forward=1''])] s1 of
        (Inl e, s2) \<Rightarrow> (Inl e, s2)
      | (Inr _, s2) \<Rightarrow>
     (case ensure_iptables_rules (nat_rules m) s2 of
        (Inl e, s3) \<Rightarrow> (Inl e, s3)
      | (Inr _, s3) \<Rightarrow>
     (case missing_taps (free_taps m) s3 of
        (Inl e, s4) \<Rightarrow> (Inl e, s4)
      | (Inr ms, s4) \<Rightarrow>
          if ms = [] then (Inr (), s4) else (Inl (io_other ''tap devices missing'' ms), s4)))))"

definition pop_host :: "network_manager \<Rightarrow> (u8 \<times> network_manager) option" where
  "pop_host m = (case free_hosts m of [] \<Rightarrow> None | h # hs \<Rightarrow> Some (h, m\<lparr>free_hosts := hs\<rparr>))"

definition push_host :: "u8 \<Rightarrow> network_manager \<Rightarrow> network_manager" where
  "push_host h m = m\<lparr>free_hosts := free_hosts m @ [h]\<rparr>"

definition pop_tap :: "network_manager \<Rightarrow> (string \<times> network_manager) option" where
  "pop_tap m = (case free_taps m of [] \<Rightarrow> None | t # ts \<Rightarrow> Some (t, m\<lparr>free_taps := ts\<rparr>))"

definition push_tap :: "string \<Rightarrow> network_manager \<Rightarrow> network_manager" where
  "push_tap t m = m\<lparr>free_taps := free_taps m @ [t]\<rparr>"

definition lease_net :: "network_manager \<Rightarrow> sys \<Rightarrow> (io_error, lease) result \<times> network_manager \<times> sys" where
  "lease_net m s =
     (case pop_host m of
        None \<Rightarrow> (Inl (io_other ''no free IPs left in the sandbox subnet'' []), m, s)
      | Some (octet, m1) \<Rightarrow>
     (case pop_tap m1 of
        None \<Rightarrow> (Inl (io_other ''no free tap devices left in the pool'' []), push_host octet m1, s)
      | Some (tap, m2) \<Rightarrow>
     (case attach_tap m2 tap s of
        (Inl e, s') \<Rightarrow> (Inl e, push_tap tap (push_host octet m2), s')
      | (Inr _, s') \<Rightarrow>
          (Inr \<lparr>lease_config = \<lparr>tap_device = tap, guest_ip = octets_with_last (gateway_ip m) octet,
                                  nc_gateway_ip = gateway_ip m, guest_mac = guest_mac_of octet\<rparr>,
                 host_octet = octet\<rparr>, m2, s'))))"

text \<open>Both \<^verbatim>\<open>ip\<close> runs of \<^verbatim>\<open>release\<close> are best effort: their outcome is ignored.\<close>

definition release_net :: "network_manager \<Rightarrow> lease \<Rightarrow> sys \<Rightarrow> network_manager \<times> sys" where
  "release_net m l s =
     (let tap = tap_device (lease_config l);
          s1 = snd (run ''ip'' [''link'', ''set'', tap, ''nomaster''] s);
          s2 = snd (run ''ip'' [''link'', ''set'', tap, ''down''] s1)
      in (push_tap tap (push_host (host_octet l) m), s2))"

fun remove_first :: "('a \<Rightarrow> bool) \<Rightarrow> 'a list \<Rightarrow> 'a list \<times> bool" where
  "remove_first p [] = ([], False)"
| "remove_first p (x # xs) =
     (if p x then (xs, True) else (let (ys, b) = remove_first p xs in (x # ys, b)))"

text \<open>The two booleans say whether the tap and the octet were free; where not, the code warns.\<close>

definition reserve :: "network_manager \<Rightarrow> network_config \<Rightarrow> u8 \<Rightarrow> (lease \<times> bool \<times> bool) \<times> network_manager" where
  "reserve m config octet =
     (let (ts, tap_was_free) = remove_first (\<lambda>t. t = tap_device config) (free_taps m);
          (hs, host_was_free) = remove_first (\<lambda>h. h = octet) (free_hosts m)
      in ((\<lparr>lease_config = config, host_octet = octet\<rparr>, tap_was_free, host_was_free),
          m\<lparr>free_taps := ts, free_hosts := hs\<rparr>))"

definition free_tap_devices :: "network_manager \<Rightarrow> string list" where
  "free_tap_devices m = free_taps m"

fun split_whitespace_go :: "string \<Rightarrow> string \<Rightarrow> string list" where
  "split_whitespace_go acc [] = (if acc = [] then [] else [rev acc])"
| "split_whitespace_go acc (c # cs) =
     (if c \<in> {CHR '' '', CHR 0x09, CHR 0x0A, CHR 0x0B, CHR 0x0C, CHR 0x0D}
      then (if acc = [] then split_whitespace_go [] cs else rev acc # split_whitespace_go [] cs)
      else split_whitespace_go (c # acc) cs)"

definition detect_default_iface :: "sys \<Rightarrow> (io_error, string) result \<times> sys" where
  "detect_default_iface s =
     (case command_output (Command ''ip'' [''route'', ''show'', ''default''] []) s of
        (Inl e, s') \<Rightarrow> (Inl e, s')
      | (Inr o1, s') \<Rightarrow>
          (let ws = split_whitespace_go [] (out_stdout o1)
           in (ok_or (io_other ''no default route found'' [])
                 (map_option snd (find (\<lambda>p. fst p = ''dev'') (zip ws (tl ws)))), s')))"

section \<open>The two FIFO pools\<close>

interpretation hosts: id_pool free_hosts pop_host push_host
  by unfold_locales (auto simp: pop_host_def push_host_def split: list.splits)

interpretation taps: id_pool free_taps pop_tap push_tap
  by unfold_locales (auto simp: pop_tap_def push_tap_def split: list.splits)

named_theorems net_simps

lemma pop_push_other [net_simps]:
  "pop_host m = Some (h, m') \<Longrightarrow> free_taps m' = free_taps m"
  "pop_tap m = Some (t, m') \<Longrightarrow> free_hosts m' = free_hosts m"
  "free_taps (push_host h m) = free_taps m"
  "free_hosts (push_tap t m) = free_hosts m"
  "free_hosts (push_host h m) = free_hosts m @ [h]"
  "free_taps (push_tap t m) = free_taps m @ [t]"
  by (auto simp: pop_host_def pop_tap_def push_host_def push_tap_def split: list.splits)

lemma pool_config [net_simps]:
  "pop_host m = Some (h, m') \<Longrightarrow> gateway_ip m' = gateway_ip m"
  "pop_tap m = Some (t, m') \<Longrightarrow> gateway_ip m' = gateway_ip m"
  "gateway_ip (push_host h m) = gateway_ip m"
  "gateway_ip (push_tap t m) = gateway_ip m"
  by (auto simp: pop_host_def pop_tap_def push_host_def push_tap_def split: list.splits)

text \<open>The cases of \<open>lease_net\<close>, once for all proofs about it.\<close>

lemma lease_net_cases:
  obtains (no_ip) "free_hosts m = []"
      "lease_net m s = (Inl (io_other ''no free IPs left in the sandbox subnet'' []), m, s)"
  | (no_tap) h hs where "free_hosts m = h # hs" "free_taps m = []"
      "lease_net m s = (Inl (io_other ''no free tap devices left in the pool'' []), m\<lparr>free_hosts := hs @ [h]\<rparr>, s)"
  | (attach_failed) h hs t ts e s' where "free_hosts m = h # hs" "free_taps m = t # ts"
      "attach_tap m t s = (Inl e, s')"
      "lease_net m s = (Inl e, m\<lparr>free_hosts := hs @ [h], free_taps := ts @ [t]\<rparr>, s')"
  | (leased) h hs t ts s' where "free_hosts m = h # hs" "free_taps m = t # ts"
      "attach_tap m t s = (Inr (), s')"
      "lease_net m s = (Inr \<lparr>lease_config = \<lparr>tap_device = t, guest_ip = octets_with_last (gateway_ip m) h,
           nc_gateway_ip = gateway_ip m, guest_mac = guest_mac_of h\<rparr>, host_octet = h\<rparr>,
         m\<lparr>free_hosts := hs, free_taps := ts\<rparr>, s')"
proof (cases "free_hosts m")
  case Nil
  then show ?thesis using no_ip by (simp add: lease_net_def pop_host_def)
next
  case h: (Cons h hs)
  show ?thesis
  proof (cases "free_taps m")
    case Nil
    with h show ?thesis using no_tap by (simp add: lease_net_def pop_host_def pop_tap_def push_host_def)
  next
    case t: (Cons t ts)
    have bridge: "attach_tap (m\<lparr>free_hosts := hs, free_taps := ts\<rparr>) t s = attach_tap m t s"
      by (simp add: attach_tap_def)
    obtain r s' where a: "attach_tap m t s = (r, s')" by (cases "attach_tap m t s")
    show ?thesis
    proof (cases r)
      case (Inl e)
      with h t a bridge show ?thesis using attach_failed [of h hs t ts e s']
        by (simp add: lease_net_def pop_host_def pop_tap_def push_host_def push_tap_def)
    next
      case (Inr u)
      with h t a bridge show ?thesis using leased [of h hs t ts s']
        by (simp add: lease_net_def pop_host_def pop_tap_def)
    qed
  qed
qed

lemma remove_first_spec:
  "remove_first (\<lambda>x. x = a) xs = (remove1 a xs, a \<in> set xs)"
  by (induction xs) auto

lemma reserve_eq:
  "reserve m config octet =
     ((\<lparr>lease_config = config, host_octet = octet\<rparr>, tap_device config \<in> set (free_taps m), octet \<in> set (free_hosts m)),
      m\<lparr>free_taps := remove1 (tap_device config) (free_taps m), free_hosts := remove1 octet (free_hosts m)\<rparr>)"
  by (simp add: reserve_def remove_first_spec)

lemma release_net_fst [net_simps]:
  "fst (release_net m l s) = m\<lparr>free_hosts := free_hosts m @ [host_octet l],
     free_taps := free_taps m @ [tap_device (lease_config l)]\<rparr>"
  by (simp add: release_net_def push_tap_def push_host_def Let_def)

section \<open>Leases over time\<close>

text \<open>
  A ghost list \<open>held\<close> of the leases given out and not yet released. \<open>reserve\<close> is how a
  snapshot found on disk takes its lease back; its step has the code's own success
  condition (both were free) and a configuration an earlier \<open>lease\<close> made.
\<close>

definition lease_ok :: "network_manager \<Rightarrow> lease \<Rightarrow> bool" where
  "lease_ok m l \<longleftrightarrow>
     guest_ip (lease_config l) = octets_with_last (gateway_ip m) (host_octet l)
     \<and> nc_gateway_ip (lease_config l) = gateway_ip m
     \<and> guest_mac (lease_config l) = guest_mac_of (host_octet l)"

inductive net_step :: "network_manager \<times> lease list \<Rightarrow> network_manager \<times> lease list \<Rightarrow> bool" where
  step_lease: "lease_net m s = (Inr l, m', s') \<Longrightarrow> net_step (m, held) (m', l # held)"
| step_lease_failed: "lease_net m s = (Inl e, m', s') \<Longrightarrow> net_step (m, held) (m', held)"
| step_release: "release_net m l s = (m', s') \<Longrightarrow> net_step (m, held1 @ l # held2) (m', held1 @ held2)"
| step_reserve: "reserve m config octet = ((l, True, True), m') \<Longrightarrow>
    lease_ok m \<lparr>lease_config = config, host_octet = octet\<rparr> \<Longrightarrow> net_step (m, held) (m', l # held)"

inductive_cases net_stepE: "net_step x y"

abbreviation net_reach :: "network_manager \<Rightarrow> network_manager \<times> lease list \<Rightarrow> bool" where
  "net_reach m0 x \<equiv> net_step\<^sup>*\<^sup>* (m0, []) x"

abbreviation tap_of :: "lease \<Rightarrow> string" where
  "tap_of l \<equiv> tap_device (lease_config l)"

definition net_inv :: "network_manager \<Rightarrow> network_manager \<times> lease list \<Rightarrow> bool" where
  "net_inv m0 x \<longleftrightarrow> (case x of (m, held) \<Rightarrow>
     mset (free_hosts m) + mset (map host_octet held) = mset (free_hosts m0)
     \<and> mset (free_taps m) + mset (map tap_of held) = mset (free_taps m0)
     \<and> gateway_ip m = gateway_ip m0 \<and> (\<forall>l\<in>set held. lease_ok m0 l))"

lemma lease_ok_cong: "gateway_ip m = gateway_ip m' \<Longrightarrow> lease_ok m l = lease_ok m' l"
  by (simp add: lease_ok_def)

lemma lease_net_inv:
  assumes "net_inv m0 (m, held)" "lease_net m s = (r, m', s')"
  shows "net_inv m0 (m', (case r of Inl e \<Rightarrow> held | Inr l \<Rightarrow> l # held))"
  using assms by (cases rule: lease_net_cases [of m s]) (auto simp: net_inv_def lease_ok_def)

lemma reserve_inv:
  assumes "net_inv m0 (m, held)" "reserve m config octet = ((l, True, True), m')"
    "lease_ok m \<lparr>lease_config = config, host_octet = octet\<rparr>"
  shows "net_inv m0 (m', l # held)"
proof -
  have l: "l = \<lparr>lease_config = config, host_octet = octet\<rparr>"
    and in_pools: "tap_device config \<in> set (free_taps m)" "octet \<in> set (free_hosts m)"
    and m': "m' = m\<lparr>free_taps := remove1 (tap_device config) (free_taps m), free_hosts := remove1 octet (free_hosts m)\<rparr>"
    using assms(2) by (auto simp: reserve_eq)
  then have "mset (free_taps m) = add_mset (tap_device config) (mset (free_taps m'))"
    "mset (free_hosts m) = add_mset octet (mset (free_hosts m'))" "gateway_ip m' = gateway_ip m"
    by simp_all
  with assms(1,3) l show ?thesis by (auto simp: net_inv_def lease_ok_def)
qed

lemma net_inv_step:
  assumes "net_inv m0 x" "net_step x y"
  shows "net_inv m0 y"
  using assms(2,1)
proof (induction rule: net_step.induct)
  case (step_lease m s l m' s' held)
  then show ?case using lease_net_inv [of m0 m held s "Inr l"] by simp
next
  case (step_lease_failed m s e m' s' held)
  then show ?case using lease_net_inv [of m0 m held s "Inl e"] by simp
next
  case (step_release m l s m' s' held1 held2)
  then have "m' = fst (release_net m l s)" by simp
  with step_release show ?case by (auto simp: net_inv_def net_simps ac_simps)
next
  case (step_reserve m config octet l m' held)
  then show ?case using reserve_inv by blast
qed

interpretation leases: step_invariant net_step "net_inv m0"
  by unfold_locales (rule net_inv_step)

lemma net_inv_reach: "net_reach m0 x \<Longrightarrow> net_inv m0 x"
  by (erule leases.steps_inv) (simp add: net_inv_def)

lemma octets_with_last_inject: "octets_with_last g a = octets_with_last g b \<longleftrightarrow> a = b"
  by (cases g) (simp add: octets_with_last_def)

lemma unat_of_nat_u8: "n < 256 \<Longrightarrow> unat (of_nat n :: u8) = n"
  by (simp add: unsigned_of_nat take_bit_eq_mod)

lemma distinct_u8_upt: "b \<le> 256 \<Longrightarrow> distinct (map of_nat [a..<b] :: u8 list)"
  by (auto simp: distinct_map intro!: inj_on_inverseI [where g = unat] unat_of_nat_u8)

lemma distinct_host_octets: "distinct all_host_octets"
  unfolding all_host_octets_def by (rule distinct_u8_upt) simp

lemma distinct_map_injective: "inj f \<Longrightarrow> distinct xs \<Longrightarrow> distinct (map f xs)"
  by (simp add: distinct_map inj_on_def)

lemma length_host_octets [simp]: "length all_host_octets = 253"
  by (simp add: all_host_octets_def)

lemma free_hosts_new [simp]: "free_hosts (network_new b g u ts) = all_host_octets"
  by (simp add: network_new_def)

lemma network_new_simps [simp]:
  "free_taps (network_new b g u ts) = ts" "gateway_ip (network_new b g u ts) = g"
  by (simp_all add: network_new_def)

lemma distinct_of_mset_eq: "mset xs + mset ys = mset zs \<Longrightarrow> distinct zs \<Longrightarrow> distinct (xs @ ys)"
  by (metis mset_append mset_eq_imp_distinct_iff)

lemma map_guest_ip:
  "\<forall>l\<in>set held. lease_ok m l \<Longrightarrow>
     map (guest_ip \<circ> lease_config) held = map (octets_with_last (gateway_ip m)) (map host_octet held)"
  by (simp add: lease_ok_def)

lemma net_reach_exclusive:
  assumes "net_reach (network_new b g u taps) (m, held)" "distinct taps"
  shows "distinct (map tap_of held)" "distinct (map (guest_ip \<circ> lease_config) held)"
    "\<forall>l\<in>set held. tap_of l \<notin> set (free_taps m) \<and> tap_of l \<in> set taps"
    "length held + length (free_taps m) = length taps"
    "length held + length (free_hosts m) = 253"
proof -
  have inv: "net_inv (network_new b g u taps) (m, held)" using assms(1) by (rule net_inv_reach)
  have t: "distinct (free_taps m @ map tap_of held)"
    by (rule distinct_of_mset_eq) (use inv assms(2) in \<open>auto simp: net_inv_def\<close>)
  have h: "distinct (free_hosts m @ map host_octet held)"
    by (rule distinct_of_mset_eq) (use inv distinct_host_octets in \<open>auto simp: net_inv_def\<close>)
  show "distinct (map tap_of held)" using t by simp
  have "distinct (map (octets_with_last g) (map host_octet held))"
    by (rule distinct_map_injective) (use h in \<open>auto simp: inj_def octets_with_last_inject\<close>)
  moreover have "map (guest_ip \<circ> lease_config) held = map (octets_with_last g) (map host_octet held)"
    using map_guest_ip [of held "network_new b g u taps"] inv
    by (simp add: net_inv_def del: map_map)
  ultimately show "distinct (map (guest_ip \<circ> lease_config) held)" by (simp only:)
  have ts: "set (free_taps m) \<union> set (map tap_of held) = set taps"
    using inv by (auto simp: net_inv_def dest!: arg_cong [where f = set_mset])
  then show "\<forall>l\<in>set held. tap_of l \<notin> set (free_taps m) \<and> tap_of l \<in> set taps" using t by auto
  have "size (mset (free_taps m) + mset (map tap_of held)) = size (mset taps)"
    "size (mset (free_hosts m) + mset (map host_octet held)) = size (mset all_host_octets)"
    using inv by (simp_all only: net_inv_def prod.case network_new_simps free_hosts_new)
  then show "length held + length (free_taps m) = length taps"
    "length held + length (free_hosts m) = 253" by simp_all
qed

lemma hex_digit_inject: "a < 16 \<Longrightarrow> b < 16 \<Longrightarrow> hex_digit a = hex_digit b \<longleftrightarrow> a = b"
  by (auto simp: hex_digit_def split: if_splits dest!: arg_cong [where f = "of_char :: char \<Rightarrow> nat"])

lemma hex2_inject: "hex2 a = hex2 b \<longleftrightarrow> a = b"
proof
  assume eq: "hex2 a = hex2 b"
  have "unat x < 256" for x :: u8 using unsigned_less [of x, where 'a = nat] by simp
  then have "unat x div 16 < 16" for x :: u8 by (simp add: less_mult_imp_div_less)
  with eq have "unat a div 16 = unat b div 16" "unat a mod 16 = unat b mod 16"
    by (simp_all add: hex2_def hex_digit_inject)
  then have "unat a = unat b" by (metis mult_div_mod_eq)
  then show "a = b" by (simp add: unsigned_word_eqI)
qed simp

lemma guest_mac_inject: "guest_mac_of a = guest_mac_of b \<longleftrightarrow> a = b"
proof
  assume "guest_mac_of a = guest_mac_of b"
  then have "hex2 a = hex2 b" by (simp add: guest_mac_of_def hex2_def)
  then show "a = b" by (simp add: hex2_inject)
qed simp

lemma distinct_nth_neq: "distinct xs \<Longrightarrow> i < length xs \<Longrightarrow> j < length xs \<Longrightarrow> i \<noteq> j \<Longrightarrow> xs ! i \<noteq> xs ! j"
  by (simp add: nth_eq_iff_index_eq)

lemma lease_net_conserves:
  "lease_net m s = (Inl e, m', s') \<Longrightarrow>
     mset (free_hosts m') = mset (free_hosts m) \<and> mset (free_taps m') = mset (free_taps m)"
  by (cases rule: lease_net_cases [of m s]) auto

lemma lease_net_ok_iff:
  "is_ok (fst (lease_net m s)) \<longleftrightarrow>
     free_hosts m \<noteq> [] \<and> free_taps m \<noteq> [] \<and> is_ok (fst (attach_tap m (hd (free_taps m)) s))"
  by (cases rule: lease_net_cases [of m s]) auto

section \<open>Properties\<close>

definition answer_ok :: "command list \<Rightarrow> command \<Rightarrow> (io_error, cmd_out) result" where
  "answer_ok past c = Inr \<lparr>out_success = True, out_stdout = [], out_stderr = []\<rparr>"

definition sample_sys :: sys where
  "sample_sys = \<lparr>answer = answer_ok, runs = []\<rparr>"

definition sample_manager :: network_manager where
  "sample_manager = network_new ''sandkiln0'' (Ipv4 172 16 0 1) ''eth0'' [''sk-tap0'', ''sk-tap1'']"


lemma two_elements: "2 \<le> length xs \<Longrightarrow> \<exists>a b ys. xs = a # b # ys"
  by (cases xs; cases "tl xs") auto

lemma sample_two_leases:
  "\<exists>m l1 l2. net_reach (network_new ''sandkiln0'' (Ipv4 172 16 0 1) ''eth0'' [''sk-tap0'', ''sk-tap1'']) (m, [l2, l1])"
proof -
  let ?m0 = "network_new ''sandkiln0'' (Ipv4 172 16 0 1) ''eth0'' [''sk-tap0'', ''sk-tap1'']"
  have ok: "is_ok (fst (attach_tap m t sample_sys))" for m t
    by (simp add: attach_tap_def run_def command_output_def sample_sys_def answer_ok_def)
  obtain h0 h1 hs where hosts: "all_host_octets = h0 # h1 # hs"
    using two_elements [of all_host_octets] by auto
  obtain l1 m1 s1 where 1: "lease_net ?m0 sample_sys = (Inr l1, m1, s1)"
    "free_hosts m1 = h1 # hs" "free_taps m1 = [''sk-tap1'']"
    using ok [of ?m0 "''sk-tap0''"] by (cases rule: lease_net_cases [of ?m0 sample_sys]) (auto simp: hosts)
  obtain l2 m2 s2 where 2: "lease_net m1 sample_sys = (Inr l2, m2, s2)"
    using 1 ok [of m1 "''sk-tap1''"] by (cases rule: lease_net_cases [of m1 sample_sys]) auto
  have "net_reach ?m0 (m1, [l1])" by (rule run_one) (rule step_lease [OF 1(1)])
  moreover have "net_step (m1, [l1]) (m2, [l2, l1])" by (rule step_lease [OF 2])
  ultimately have "net_reach ?m0 (m2, [l2, l1])" by (rule run_step)
  then show ?thesis by blast
qed


text \<open>
  A lease succeeds exactly when an octet and a tap are free and all three attach
  commands succeed for the front tap; every failing lease puts what it took back into both
  pools, so a refused request can be retried for ever without draining them; and releasing a
  lease that was just taken restores both pools' contents.
\<close>

theorem lease_outcome:
  "(is_ok (fst (lease_net m s)) \<longleftrightarrow>
     free_hosts m \<noteq> [] \<and> free_taps m \<noteq> [] \<and> is_ok (fst (attach_tap m (hd (free_taps m)) s)))
   \<and> (case lease_net m s of
     (Inl e, m', s') \<Rightarrow> mset (free_hosts m') = mset (free_hosts m) \<and> mset (free_taps m') = mset (free_taps m)
   | (Inr l, m', s') \<Rightarrow>
       (let m'' = fst (release_net m' l s') in
        mset (free_hosts m'') = mset (free_hosts m) \<and> mset (free_taps m'') = mset (free_taps m)))"
  using lease_net_ok_iff [of m s]
  by (cases rule: lease_net_cases [of m s]) (auto simp: net_simps Let_def)

end
