(* ===== verification/Egress.thy ===== *)
theory Egress
  imports Network
begin

text \<open>
  \<^verbatim>\<open>vmm/src/egress.rs\<close>: one iptables chain per sandbox. \<open>apply_egress\<close> builds the text for
  \<^verbatim>\<open>iptables-restore\<close> by appending lines in the code's order and installs the jump from
  \<^verbatim>\<open>FORWARD\<close> only when \<^verbatim>\<open>iptables -C\<close> does not find it. What a chain does to a packet is
  iptables' business: a property about verdicts takes the verdict function as a parameter,
  with first-match as its named hypothesis. A validated CIDR cannot smuggle a line into the
  restore text.
\<close>

section \<open>Data\<close>

datatype egress_mode = AllowAll | DenyAll

record egress_policy =
  eg_mode :: egress_mode
  allow_cidrs :: "string list"
  deny_cidrs :: "string list"

section \<open>Operations\<close>

definition validate_cidr :: "string \<Rightarrow> (message, unit) result" where
  "validate_cidr s =
     (case split_once (CHR ''/'') s of
        None \<Rightarrow> Inl (Msg ''not a CIDR'' [s])
      | Some (addr, pre) \<Rightarrow>
          (case parse_ipv4 addr of
             None \<Rightarrow> Inl (Msg ''invalid IPv4 address'' [s])
           | Some _ \<Rightarrow>
               (case parse_unsigned 255 pre of
                  None \<Rightarrow> Inl (Msg ''non-numeric prefix length'' [s])
                | Some p \<Rightarrow>
                    if 32 < p then Inl (Msg ''prefix length above 32'' [s]) else Inr ())))"

definition chain_name :: "string \<Rightarrow> string" where
  "chain_name tap = ''SK-EG-'' @ tap"

abbreviation newline :: string where
  "newline \<equiv> [CHR 0x0A]"

definition default_verdict :: "egress_mode \<Rightarrow> string" where
  "default_verdict m = (case m of AllowAll \<Rightarrow> ''ACCEPT'' | DenyAll \<Rightarrow> ''DROP'')"

definition restore_input :: "string \<Rightarrow> egress_policy \<Rightarrow> string" where
  "restore_input tap policy =
     (let chain = chain_name tap;
          t0 = ''*filter'' @ newline @ '':'' @ chain @ '' - [0:0]'' @ newline;
          t1 = fold (\<lambda>cidr t. t @ ''-A '' @ chain @ '' -d '' @ cidr @ '' -j DROP'' @ newline) (deny_cidrs policy) t0;
          t2 = fold (\<lambda>cidr t. t @ ''-A '' @ chain @ '' -d '' @ cidr @ '' -j ACCEPT'' @ newline) (allow_cidrs policy) t1
      in t2 @ ''-A '' @ chain @ '' -j '' @ default_verdict (eg_mode policy) @ newline @ ''COMMIT'' @ newline)"

definition run_restore :: "string \<Rightarrow> sys \<Rightarrow> (io_error, unit) result \<times> sys" where
  "run_restore input s =
     (case command_output (Command ''iptables-restore'' [''--noflush''] input) s of
        (Inl e, s') \<Rightarrow> (Inl e, s')
      | (Inr o1, s') \<Rightarrow>
          if out_success o1 then (Inr (), s')
          else (Inl (io_other ''iptables-restore failed'' [out_stderr o1, input]), s'))"

definition jump_args :: "ipv4 \<Rightarrow> string \<Rightarrow> string \<Rightarrow> string list" where
  "jump_args ip tap up = [''-s'', show_ipv4 ip, ''-o'', up, ''-j'', chain_name tap]"

definition apply_egress :: "ipv4 \<Rightarrow> string \<Rightarrow> string \<Rightarrow> egress_policy \<Rightarrow> sys \<Rightarrow> (io_error, unit) result \<times> sys" where
  "apply_egress ip tap up policy s =
     (case run_restore (restore_input tap policy) s of
        (Inl e, s1) \<Rightarrow> (Inl e, s1)
      | (Inr _, s1) \<Rightarrow>
     (case command_output (Command ''iptables'' ([''-C'', ''FORWARD''] @ jump_args ip tap up) []) s1 of
        (Inl e, s2) \<Rightarrow> (Inl e, s2)
      | (Inr o1, s2) \<Rightarrow>
          if out_success o1 then (Inr (), s2)
          else run ''iptables'' ([''-I'', ''FORWARD'', ''1''] @ jump_args ip tap up) s2))"

text \<open>\<^verbatim>\<open>egress::remove\<close>: three runs, every outcome ignored.\<close>

definition remove_egress :: "ipv4 \<Rightarrow> string \<Rightarrow> string \<Rightarrow> sys \<Rightarrow> sys" where
  "remove_egress ip tap up s =
     (let chain = chain_name tap;
          s1 = snd (command_output (Command ''iptables'' ([''-D'', ''FORWARD''] @ jump_args ip tap up) []) s);
          s2 = snd (command_output (Command ''iptables'' [''-F'', chain] []) s1)
      in snd (command_output (Command ''iptables'' [''-X'', chain] []) s2))"

section \<open>The chain as a list of rules\<close>

datatype verdict = Accept | Drop

text \<open>What the chain is meant to hold: a rule has a destination (\<open>None\<close>: any) and a verdict.\<close>

type_synonym rule = "string option \<times> verdict"

definition policy_rules :: "egress_policy \<Rightarrow> rule list" where
  "policy_rules policy =
     map (\<lambda>c. (Some c, Drop)) (deny_cidrs policy) @ map (\<lambda>c. (Some c, Accept)) (allow_cidrs policy)
     @ [(None, case eg_mode policy of AllowAll \<Rightarrow> Accept | DenyAll \<Rightarrow> Drop)]"

definition show_verdict :: "verdict \<Rightarrow> string" where
  "show_verdict v = (case v of Accept \<Rightarrow> ''ACCEPT'' | Drop \<Rightarrow> ''DROP'')"

definition show_rule :: "string \<Rightarrow> rule \<Rightarrow> string" where
  "show_rule chain r =
     ''-A '' @ chain @ (case fst r of None \<Rightarrow> [] | Some c \<Rightarrow> '' -d '' @ c) @ '' -j '' @ show_verdict (snd r)"

definition restore_lines :: "string \<Rightarrow> rule list \<Rightarrow> string list" where
  "restore_lines chain rs =
     [''*filter'', '':'' @ chain @ '' - [0:0]''] @ map (show_rule chain) rs @ [''COMMIT'', []]"

definition rules_valid :: "rule list \<Rightarrow> bool" where
  "rules_valid rs = (\<forall>r \<in> set rs. case fst r of None \<Rightarrow> True | Some c \<Rightarrow> validate_cidr c = Inr ())"

text \<open>First match wins, an unmatched packet falls through.\<close>

fun first_match :: "(string \<Rightarrow> ipv4 \<Rightarrow> bool) \<Rightarrow> rule list \<Rightarrow> ipv4 \<Rightarrow> verdict option" where
  "first_match covers [] dst = None"
| "first_match covers ((c, v) # rs) dst =
     (if (case c of None \<Rightarrow> True | Some cidr \<Rightarrow> covers cidr dst) then Some v else first_match covers rs dst)"

text \<open>The specification: deny beats allow, the mode decides the rest.\<close>

definition policy_verdict :: "(string \<Rightarrow> ipv4 \<Rightarrow> bool) \<Rightarrow> egress_policy \<Rightarrow> ipv4 \<Rightarrow> verdict" where
  "policy_verdict covers policy dst =
     (if \<exists>c \<in> set (deny_cidrs policy). covers c dst then Drop
      else if \<exists>c \<in> set (allow_cidrs policy). covers c dst then Accept
      else if eg_mode policy = DenyAll then Drop else Accept)"

section \<open>Lemmas\<close>

lemma join_with_snoc_empty: "ls \<noteq> [] \<Longrightarrow> join_with c (ls @ [[]]) = concat (map (\<lambda>l. l @ [c]) ls)"
  by (induction ls rule: induct_list012) simp_all

lemma join_with_newline: "ls \<noteq> [] \<Longrightarrow> join_with (CHR 0x0A) (ls @ [[]]) = concat (map (\<lambda>l. l @ newline) ls)"
  by (rule join_with_snoc_empty)

lemma show_rule_policy [simp]:
  "show_rule chain (Some c, Drop) = ''-A '' @ chain @ '' -d '' @ c @ '' -j DROP''"
  "show_rule chain (Some c, Accept) = ''-A '' @ chain @ '' -d '' @ c @ '' -j ACCEPT''"
  "show_rule chain (None, v) = ''-A '' @ chain @ '' -j '' @ show_verdict v"
  by (simp_all add: show_rule_def show_verdict_def)

lemma fold_rules:
  "fold (\<lambda>cidr t. t @ ''-A '' @ chain @ '' -d '' @ cidr @ '' -j DROP'' @ newline) cs t =
     t @ concat (map (\<lambda>c. show_rule chain (Some c, Drop) @ newline) cs)"
  "fold (\<lambda>cidr t. t @ ''-A '' @ chain @ '' -d '' @ cidr @ '' -j ACCEPT'' @ newline) cs t =
     t @ concat (map (\<lambda>c. show_rule chain (Some c, Accept) @ newline) cs)"
  by (induction cs arbitrary: t) simp_all

lemma restore_input_eq:
  "restore_input tap policy = join_with (CHR 0x0A) (restore_lines (chain_name tap) (policy_rules policy))"
proof -
  let ?ls = "[''*filter'', '':'' @ chain_name tap @ '' - [0:0]''] @
             map (show_rule (chain_name tap)) (policy_rules policy) @ [''COMMIT'']"
  have ls: "restore_lines (chain_name tap) (policy_rules policy) = ?ls @ [[]]"
    by (simp add: restore_lines_def)
  show ?thesis
    unfolding ls join_with_newline [of ?ls, simplified] restore_input_def Let_def fold_rules
    by (subst join_with_newline)
       (simp_all add: policy_rules_def default_verdict_def show_verdict_def comp_def split: egress_mode.splits)
qed

lemma first_match_append:
  "first_match covers (rs @ rs') dst =
     (case first_match covers rs dst of None \<Rightarrow> first_match covers rs' dst | Some v \<Rightarrow> Some v)"
  by (induction rs) auto

lemma first_match_same:
  "first_match covers (map (\<lambda>c. (Some c, v)) cs) dst = (if \<exists>c \<in> set cs. covers c dst then Some v else None)"
  by (induction cs) auto

lemma first_match_policy: "first_match covers (policy_rules policy) dst = Some (policy_verdict covers policy dst)"
  by (auto simp: policy_rules_def first_match_append first_match_same policy_verdict_def
      split: egress_mode.splits)

lemma parse_digits_chars: "parse_digits acc s = Some n \<Longrightarrow> c \<in> set s \<Longrightarrow> is_digit c"
  by (induction acc s rule: parse_digits.induct) (auto split: if_splits)

lemma parse_unsigned_chars: "parse_unsigned mx s = Some n \<Longrightarrow> c \<in> set s \<Longrightarrow> is_digit c \<or> c = CHR ''+''"
  by (auto simp: parse_unsigned_def Let_def split: list.splits if_splits option.splits
      dest: parse_digits_chars)

lemma validate_cidr_chars:
  assumes "validate_cidr s = Inr ()" "c \<in> set s"
  shows "is_digit c \<or> c \<in> {CHR ''.'', CHR ''/'', CHR ''+''}"
proof -
  obtain a p where sp: "split_once (CHR ''/'') s = Some (a, p)"
    and a: "parse_ipv4 a \<noteq> None" and p: "parse_unsigned 255 p \<noteq> None"
    using assms(1) by (auto simp: validate_cidr_def split: option.splits prod.splits)
  have "s = a @ CHR ''/'' # p" using split_once_someD [OF sp] by simp
  with assms(2) have "c \<in> set a \<or> c = CHR ''/'' \<or> c \<in> set p" by auto
  then show ?thesis using a p parse_ipv4_chars [of a _ c] parse_unsigned_chars [of 255 p _ c] by blast
qed

lemma validate_cidr_round:
  assumes "p \<le> 255"
  shows "validate_cidr (show_ipv4 ip @ ''/'' @ show_nat p) = Inr () \<longleftrightarrow> p \<le> 32"
proof -
  have "CHR ''/'' \<notin> set (show_ipv4 ip)"
    using parse_ipv4_chars [OF parse_show_ipv4 [of ip], of "CHR ''/''"] by auto
  then have sp: "split_once (CHR ''/'') (show_ipv4 ip @ CHR ''/'' # show_nat p) = Some (show_ipv4 ip, show_nat p)"
    by (rule split_once_append)
  have "parse_unsigned 255 (show_nat p) = Some p"
    using assms by (simp add: parse_unsigned_show_nat)
  with sp show ?thesis by (simp add: validate_cidr_def parse_show_ipv4)
qed

section \<open>Properties\<close>

text \<open>
  C33. The text given to \<^verbatim>\<open>iptables-restore\<close> splits at its newlines into exactly the header,
  one line per rule of the policy in the order deny, allow, default, and the commit: no
  validated CIDR (and no tap name without a newline) can add, drop or merge a line.
\<close>

theorem restore_input_no_injection:
  assumes "\<forall>c \<in> set (allow_cidrs policy @ deny_cidrs policy). validate_cidr c = Inr ()"
    "CHR 0x0A \<notin> set tap"
  shows "split_on (CHR 0x0A) (restore_input tap policy) = restore_lines (chain_name tap) (policy_rules policy)"
proof -
  have cidr: "CHR 0x0A \<notin> set c" if "c \<in> set (allow_cidrs policy) \<union> set (deny_cidrs policy)" for c
    using validate_cidr_chars [of c "CHR 0x0A"] that assms(1) by auto
  have chain: "CHR 0x0A \<notin> set (chain_name tap)" using assms(2) by (simp add: chain_name_def)
  have "CHR 0x0A \<notin> set l" if "l \<in> set (restore_lines (chain_name tap) (policy_rules policy))" for l
    using that chain cidr
    by (auto simp: restore_lines_def policy_rules_def show_verdict_def split: egress_mode.splits verdict.splits)
  then show ?thesis
    unfolding restore_input_eq by (intro split_on_join_with) (auto simp: restore_lines_def)
qed

definition sample_policy :: egress_policy where
  "sample_policy = \<lparr>eg_mode = DenyAll, allow_cidrs = [''10.0.0.0/8''], deny_cidrs = [''10.1.0.0/16'']\<rparr>"

theorem restore_input_no_injection_witness:
  "split_on (CHR 0x0A) (restore_input ''sk-tap0'' sample_policy)
     = restore_lines (chain_name ''sk-tap0'') (policy_rules sample_policy)"
  by (rule restore_input_no_injection) code_simp+

text \<open>
  C15. Where iptables, given the restore text of a chain of rules with validated CIDRs, gives a
  packet the verdict of the first rule that covers its destination, the chain that \<^verbatim>\<open>apply\<close>
  loads for a validated policy gives every destination the policy's verdict: a denied CIDR
  is dropped even if an allowed one covers it too, an allowed one is accepted, and the mode
  decides the rest.
\<close>

theorem egress_policy_enforced:
  assumes first_match_semantics:
    "\<And>rs dst. rules_valid rs \<Longrightarrow>
       verdict_of (join_with (CHR 0x0A) (restore_lines (chain_name tap) rs)) dst = first_match covers rs dst"
    and "\<forall>c \<in> set (allow_cidrs policy @ deny_cidrs policy). validate_cidr c = Inr ()"
  shows "verdict_of (restore_input tap policy) dst = Some (policy_verdict covers policy dst)"
proof -
  have "rules_valid (policy_rules policy)"
    using assms(2) by (auto simp: rules_valid_def policy_rules_def)
  then show ?thesis by (simp add: restore_input_eq first_match_semantics first_match_policy)
qed

text \<open>A reader of the restore text, for the witness: it takes each rule line apart again.\<close>

definition read_verdict :: "string \<Rightarrow> verdict" where
  "read_verdict v = (if v = ''DROP'' then Drop else Accept)"

definition read_rule :: "string \<Rightarrow> rule list" where
  "read_rule l =
     (case split_on (CHR '' '') l of
        [_, _, _, c, _, v] \<Rightarrow> [(Some c, read_verdict v)]
      | [_, _, _, v] \<Rightarrow> [(None, read_verdict v)]
      | _ \<Rightarrow> [])"

definition read_verdict_of :: "(string \<Rightarrow> ipv4 \<Rightarrow> bool) \<Rightarrow> string \<Rightarrow> ipv4 \<Rightarrow> verdict option" where
  "read_verdict_of covers input dst =
     first_match covers (concat (map read_rule (drop 2 (split_on (CHR 0x0A) input)))) dst"

lemma no_space_cidr: "validate_cidr c = Inr () \<Longrightarrow> CHR '' '' \<notin> set c \<and> CHR 0x0A \<notin> set c"
  using validate_cidr_chars [of c "CHR '' ''"] validate_cidr_chars [of c "CHR 0x0A"]
  by (auto simp: is_digit_def)

lemma show_rule_words:
  "show_rule chain (c, v) = join_with (CHR '' '')
     ([''-A'', chain] @ (case c of None \<Rightarrow> [] | Some d \<Rightarrow> [''-d'', d]) @ [''-j'', show_verdict v])"
  by (simp add: show_rule_def split: option.splits)

lemma read_show_rule:
  assumes "CHR '' '' \<notin> set chain" "case c of None \<Rightarrow> True | Some d \<Rightarrow> CHR '' '' \<notin> set d"
  shows "read_rule (show_rule chain (c, v)) = [(c, v)]"
proof -
  let ?ws = "[''-A'', chain] @ (case c of None \<Rightarrow> [] | Some d \<Rightarrow> [''-d'', d]) @ [''-j'', show_verdict v]"
  have "split_on (CHR '' '') (show_rule chain (c, v)) = ?ws"
    unfolding show_rule_words
    by (rule split_on_join_with)
       (use assms in \<open>auto simp: show_verdict_def split: option.splits verdict.splits\<close>)
  then show ?thesis
    by (auto simp: read_rule_def read_verdict_def show_verdict_def split: option.splits verdict.splits)
qed

lemma read_verdict_of_first_match:
  assumes "rules_valid rs" "CHR '' '' \<notin> set chain" "CHR 0x0A \<notin> set chain"
  shows "read_verdict_of covers (join_with (CHR 0x0A) (restore_lines chain rs)) dst = first_match covers rs dst"
proof -
  have valid: "case c of None \<Rightarrow> True | Some d \<Rightarrow> CHR '' '' \<notin> set d \<and> CHR 0x0A \<notin> set d"
    if "(c, v) \<in> set rs" for c v
    using that assms(1) no_space_cidr by (fastforce simp: rules_valid_def split: option.splits)
  have "split_on (CHR 0x0A) (join_with (CHR 0x0A) (restore_lines chain rs)) = restore_lines chain rs"
  proof (rule split_on_join_with)
    fix l assume "l \<in> set (restore_lines chain rs)"
    then show "CHR 0x0A \<notin> set l"
      using valid assms(3)
      by (fastforce simp: restore_lines_def show_rule_def show_verdict_def split: option.splits verdict.splits)
  qed (simp add: restore_lines_def)
  moreover have "concat (map read_rule (map (show_rule chain) rs)) = rs"
    using valid assms(2)
  proof (induction rs)
    case (Cons r rs)
    then show ?case using read_show_rule [OF assms(2), of "fst r" "snd r"]
      by (cases r) (fastforce split: option.splits)
  qed simp
  moreover have "read_rule ''COMMIT'' = []" "read_rule [] = []" by code_simp+
  ultimately show ?thesis by (simp add: read_verdict_of_def restore_lines_def)
qed

theorem egress_policy_enforced_witness:
  "read_verdict_of (\<lambda>c _. c = ''10.1.0.0/16'' \<or> c = ''10.0.0.0/8'') (restore_input ''sk-tap0'' sample_policy)
     (Ipv4 10 1 2 3) = Some Drop"
proof -
  have "read_verdict_of (\<lambda>c _. c = ''10.1.0.0/16'' \<or> c = ''10.0.0.0/8'') (restore_input ''sk-tap0'' sample_policy)
     (Ipv4 10 1 2 3) = Some (policy_verdict (\<lambda>c _. c = ''10.1.0.0/16'' \<or> c = ''10.0.0.0/8'') sample_policy (Ipv4 10 1 2 3))"
  proof (rule egress_policy_enforced)
    show "\<forall>c\<in>set (allow_cidrs sample_policy @ deny_cidrs sample_policy). validate_cidr c = Inr ()"
      by code_simp
  qed (rule read_verdict_of_first_match, simp_all add: chain_name_def)
  then show ?thesis by (simp add: policy_verdict_def sample_policy_def)
qed

end
