(* ===== verification/Filesystem.thy ===== *)
theory Filesystem
  imports Host
begin

text \<open>
  The part of \<^verbatim>\<open>std::fs\<close> and \<^verbatim>\<open>std::path\<close> that the stores and the snapshot code use. A path
  is a string as the code builds it; the file system is keyed by its resolved components
  (\<open>resolve\<close> drops empty components and \<^verbatim>\<open>.\<close>, and \<^verbatim>\<open>..\<close> goes up; there are no symbolic
  links). Every operation may fail at any time: \<open>fs_faults\<close> answers from the operations
  done so far, and a faulty write or copy may leave a torn file of the given length, a faulty
  \<^verbatim>\<open>remove_dir_all\<close> may leave any part of the tree. \<open>cmd_effect\<close> is what a spawned program
  (\<^verbatim>\<open>cp\<close>, \<^verbatim>\<open>mkfs.ext4\<close>) does to the files. \<^verbatim>\<open>exists\<close>, \<^verbatim>\<open>is_file\<close> and \<^verbatim>\<open>is_dir\<close> do not fail.
\<close>

section \<open>Paths\<close>

fun resolve_go :: "string list \<Rightarrow> string list \<Rightarrow> string list" where
  "resolve_go acc [] = rev acc"
| "resolve_go acc (c # cs) =
     (if c = [] \<or> c = ''.'' then resolve_go acc cs
      else if c = ''..'' then resolve_go (tl acc) cs
      else resolve_go (c # acc) cs)"

definition resolve :: "string \<Rightarrow> string list" where
  "resolve p = resolve_go [] (split_on (CHR ''/'') p)"

text \<open>\<^verbatim>\<open>Path::join\<close>: an absolute right side replaces the left one.\<close>

definition path_join :: "string \<Rightarrow> string \<Rightarrow> string" where
  "path_join a b =
     (if b \<noteq> [] \<and> hd b = CHR ''/'' then b
      else if a = [] then b
      else if last a = CHR ''/'' then a @ b
      else a @ ''/'' @ b)"

text \<open>\<^verbatim>\<open>Path::file_name\<close>, \<^verbatim>\<open>file_stem\<close> and \<^verbatim>\<open>extension\<close>, of a plain component and of a path.\<close>

definition rsplit_dot :: "string \<Rightarrow> string option \<times> string option" where
  "rsplit_dot name =
     (case split_once (CHR ''.'') (rev name) of
        None \<Rightarrow> (Some name, None)
      | Some (ext, stem) \<Rightarrow> if stem = [] then (Some name, None) else (Some (rev stem), Some (rev ext)))"

definition file_name :: "string \<Rightarrow> string option" where
  "file_name p =
     (let cs = filter (\<lambda>c. c \<noteq> [] \<and> c \<noteq> ''.'') (split_on (CHR ''/'') p)
      in if cs = [] \<or> last cs = ''..'' then None else Some (last cs))"

definition file_stem :: "string \<Rightarrow> string option" where
  "file_stem p = Option.bind (file_name p) (\<lambda>n. fst (rsplit_dot n))"

definition extension :: "string \<Rightarrow> string option" where
  "extension p = Option.bind (file_name p) (\<lambda>n. snd (rsplit_dot n))"

section \<open>State\<close>

text \<open>A file is its written bytes, padded with zeros to its length: a sparse file.\<close>

datatype node = FileNode (node_data: "u8 list") (node_len: nat) | DirNode

datatype fs_op =
    OpCreateDir string | OpCreate string | OpWrite string | OpSetLen string | OpRename string string
  | OpCopy string string | OpRemoveFile string | OpRemoveDir string | OpRead string
  | OpReadDir string | OpLink string string | OpSetMode string | OpReadEntry string | OpMetadata string | OpSync string

record fault =
  fault_err :: io_error
  fault_written :: "nat option"
  fault_kept :: "string list \<Rightarrow> bool"

type_synonym nodes = "(string list \<times> node) list"

record fs =
  fs_nodes :: nodes
  fs_faults :: "fs_op list \<Rightarrow> fs_op \<Rightarrow> fault option"
  fs_ops :: "fs_op list"
  cmd_effect :: "command \<Rightarrow> nodes \<Rightarrow> nodes"

abbreviation no_entry :: io_error where
  "no_entry \<equiv> IoError NotFound (Msg ''No such file or directory'' [])"

definition node_at :: "string \<Rightarrow> fs \<Rightarrow> node option" where
  "node_at p f = (if resolve p = [] then Some DirNode else hm_get (resolve p) (fs_nodes f))"

definition is_file :: "string \<Rightarrow> fs \<Rightarrow> bool" where
  "is_file p f = (case node_at p f of Some (FileNode _ _) \<Rightarrow> True | _ \<Rightarrow> False)"

definition is_dir :: "string \<Rightarrow> fs \<Rightarrow> bool" where
  "is_dir p f = (node_at p f = Some DirNode)"

definition path_exists :: "string \<Rightarrow> fs \<Rightarrow> bool" where
  "path_exists p f = (node_at p f \<noteq> None)"

definition parent_is_dir :: "string list \<Rightarrow> fs \<Rightarrow> bool" where
  "parent_is_dir q f = (butlast q = [] \<or> hm_get (butlast q) (fs_nodes f) = Some DirNode)"

text \<open>A file can be created or overwritten at a path whose parent is a directory and that is none itself.\<close>

definition can_create :: "string \<Rightarrow> fs \<Rightarrow> bool" where
  "can_create p f = (\<not> is_dir p f \<and> parent_is_dir (resolve p) f)"

definition put_node :: "string \<Rightarrow> node \<Rightarrow> fs \<Rightarrow> fs" where
  "put_node p n f = f\<lparr>fs_nodes := hm_insert (resolve p) n (fs_nodes f)\<rparr>"

definition del_node :: "string \<Rightarrow> fs \<Rightarrow> fs" where
  "del_node p f = f\<lparr>fs_nodes := hm_remove (resolve p) (fs_nodes f)\<rparr>"

definition fs_try :: "fs_op \<Rightarrow> fs \<Rightarrow> fault option \<times> fs" where
  "fs_try op f = (fs_faults f (fs_ops f) op, f\<lparr>fs_ops := fs_ops f @ [op]\<rparr>)"

section \<open>Operations\<close>

definition create_dir_all :: "string \<Rightarrow> fs \<Rightarrow> (io_error, unit) result \<times> fs" where
  "create_dir_all p f =
     (case fs_try (OpCreateDir p) f of
        (Some e, f') \<Rightarrow> (Inl (fault_err e), f')
      | (None, f') \<Rightarrow>
          (let qs = filter (\<lambda>q. q \<noteq> []) (prefixes (resolve p)) in
           if list_ex (\<lambda>q. case hm_get q (fs_nodes f) of Some (FileNode _ _) \<Rightarrow> True | _ \<Rightarrow> False) qs
           then (Inl (IoError AlreadyExists (Msg ''File exists'' [])), f')
           else (Inr (), f'\<lparr>fs_nodes := fold (\<lambda>q ns. hm_insert q DirNode ns) qs (fs_nodes f')\<rparr>)))"

text \<open>\<^verbatim>\<open>File::create\<close> (create or truncate), then \<^verbatim>\<open>write_all\<close> on the open file.\<close>

definition create_file :: "string \<Rightarrow> fs \<Rightarrow> (io_error, unit) result \<times> fs" where
  "create_file p f =
     (case fs_try (OpCreate p) f of
        (Some e, f') \<Rightarrow> (Inl (fault_err e), f')
      | (None, f') \<Rightarrow> if can_create p f' then (Inr (), put_node p (FileNode [] 0) f') else (Inl no_entry, f'))"

definition write_all :: "string \<Rightarrow> u8 list \<Rightarrow> fs \<Rightarrow> (io_error, unit) result \<times> fs" where
  "write_all p bs f =
     (case fs_try (OpWrite p) f of
        (Some e, f') \<Rightarrow>
          (Inl (fault_err e),
           case fault_written e of None \<Rightarrow> f'
           | Some n \<Rightarrow> put_node p (FileNode (take n bs) (length (take n bs))) f')
      | (None, f') \<Rightarrow> (Inr (), put_node p (FileNode bs (length bs)) f'))"

definition sync_all :: "string \<Rightarrow> fs \<Rightarrow> (io_error, unit) result \<times> fs" where
  "sync_all p f =
     (case fs_try (OpSync p) f of (Some e, f') \<Rightarrow> (Inl (fault_err e), f') | (None, f') \<Rightarrow> (Inr (), f'))"

definition set_len :: "string \<Rightarrow> nat \<Rightarrow> fs \<Rightarrow> (io_error, unit) result \<times> fs" where
  "set_len p n f =
     (case fs_try (OpSetLen p) f of
        (Some e, f') \<Rightarrow> (Inl (fault_err e), f')
      | (None, f') \<Rightarrow>
          (Inr (), case node_at p f' of
                     Some (FileNode d _) \<Rightarrow> put_node p (FileNode (take n d) n) f' | _ \<Rightarrow> f'))"

definition remove_file :: "string \<Rightarrow> fs \<Rightarrow> (io_error, unit) result \<times> fs" where
  "remove_file p f =
     (case fs_try (OpRemoveFile p) f of
        (Some e, f') \<Rightarrow> (Inl (fault_err e), f')
      | (None, f') \<Rightarrow> if is_file p f' then (Inr (), del_node p f') else (Inl no_entry, f'))"

definition remove_dir_all :: "string \<Rightarrow> fs \<Rightarrow> (io_error, unit) result \<times> fs" where
  "remove_dir_all p f =
     (case fs_try (OpRemoveDir p) f of
        (Some e, f') \<Rightarrow>
          (Inl (fault_err e),
           f'\<lparr>fs_nodes := filter (\<lambda>(q, _). prefix (resolve p) q \<longrightarrow> fault_kept e q) (fs_nodes f')\<rparr>)
      | (None, f') \<Rightarrow>
          if is_dir p f' then (Inr (), f'\<lparr>fs_nodes := filter (\<lambda>(q, _). \<not> prefix (resolve p) q) (fs_nodes f')\<rparr>)
          else (Inl no_entry, f'))"

definition move_nodes :: "string list \<Rightarrow> string list \<Rightarrow> nodes \<Rightarrow> nodes" where
  "move_nodes a b ns =
     map (\<lambda>(q, n). (case strip_prefix a q of Some r \<Rightarrow> b @ r | None \<Rightarrow> q, n))
       (filter (\<lambda>(q, _). \<not> prefix b q \<or> prefix a q) ns)"

text \<open>A rename of a file replaces an existing file; a rename of a directory needs a free name.\<close>

definition rename :: "string \<Rightarrow> string \<Rightarrow> fs \<Rightarrow> (io_error, unit) result \<times> fs" where
  "rename a b f =
     (case fs_try (OpRename a b) f of
        (Some e, f') \<Rightarrow> (Inl (fault_err e), f')
      | (None, f') \<Rightarrow>
          (case node_at a f' of
             None \<Rightarrow> (Inl no_entry, f')
           | Some (FileNode d n) \<Rightarrow>
               if can_create b f' then (Inr (), put_node b (FileNode d n) (if resolve a = resolve b then f' else del_node a f'))
               else (Inl no_entry, f')
           | Some DirNode \<Rightarrow>
               if can_create b f' \<and> \<not> path_exists b f' \<and> \<not> prefix (resolve a) (resolve b)
               then (Inr (), f'\<lparr>fs_nodes := move_nodes (resolve a) (resolve b) (fs_nodes f')\<rparr>)
               else (Inl (io_other ''rename'' []), f')))"

definition copy_file :: "string \<Rightarrow> string \<Rightarrow> fs \<Rightarrow> (io_error, unit) result \<times> fs" where
  "copy_file a b f =
     (case fs_try (OpCopy a b) f of
        (Some e, f') \<Rightarrow>
          (Inl (fault_err e),
           case (fault_written e, node_at a f') of
             (Some n, Some (FileNode d l)) \<Rightarrow> if can_create b f' \<and> resolve a \<noteq> resolve b then put_node b (FileNode (take n d) (min n l)) f' else f'
           | _ \<Rightarrow> f')
      | (None, f') \<Rightarrow>
          (case node_at a f' of
             Some (FileNode d l) \<Rightarrow> if can_create b f' then (Inr (), put_node b (FileNode d l) f') else (Inl no_entry, f')
           | Some DirNode \<Rightarrow> (Inl (IoError InvalidInput (Msg ''the source path is not a regular file'' [])), f')
           | None \<Rightarrow> (Inl no_entry, f')))"

definition read_file :: "string \<Rightarrow> fs \<Rightarrow> (io_error, u8 list) result \<times> fs" where
  "read_file p f =
     (case fs_try (OpRead p) f of
        (Some e, f') \<Rightarrow> (Inl (fault_err e), f')
      | (None, f') \<Rightarrow>
          (case node_at p f' of
             Some (FileNode d l) \<Rightarrow> (Inr (take l (d @ replicate (l - length d) 0)), f')
           | Some DirNode \<Rightarrow> (Inl (io_other ''Is a directory'' []), f')
           | None \<Rightarrow> (Inl no_entry, f')))"

text \<open>\<^verbatim>\<open>fs::metadata\<close>: whether it is a regular file, and its length.\<close>

definition metadata :: "string \<Rightarrow> fs \<Rightarrow> (io_error, bool \<times> nat) result \<times> fs" where
  "metadata p f =
     (case fs_try (OpMetadata p) f of
        (Some e, f') \<Rightarrow> (Inl (fault_err e), f')
      | (None, f') \<Rightarrow>
          (case node_at p f' of
             Some (FileNode _ l) \<Rightarrow> (Inr (True, l), f')
           | Some DirNode \<Rightarrow> (Inr (False, 4096), f')
           | None \<Rightarrow> (Inl no_entry, f')))"

text \<open>\<^verbatim>\<open>read_dir\<close>: the names of the entries; reading one entry may fail on its own.\<close>

definition child_names :: "string \<Rightarrow> fs \<Rightarrow> string list" where
  "child_names p f = map last (filter (\<lambda>q. q \<noteq> [] \<and> butlast q = resolve p) (map fst (fs_nodes f)))"

definition read_dir :: "string \<Rightarrow> fs \<Rightarrow> (io_error, (io_error, string) result list) result \<times> fs" where
  "read_dir p f =
     (case fs_try (OpReadDir p) f of
        (Some e, f') \<Rightarrow> (Inl (fault_err e), f')
      | (None, f') \<Rightarrow>
          if is_dir p f'
          then (Inr (map (\<lambda>n. case fs_faults f' (fs_ops f') (OpReadEntry (path_join p n)) of
                               Some e \<Rightarrow> Inl (fault_err e) | None \<Rightarrow> Inr n) (child_names p f')), f')
          else if path_exists p f' then (Inl (io_other ''Not a directory'' []), f')
          else (Inl no_entry, f'))"

text \<open>A program run for its exit status, and its effect on the files.\<close>

definition run_on_disk :: "command \<Rightarrow> sys \<times> fs \<Rightarrow> (io_error, cmd_out) result \<times> sys \<times> fs" where
  "run_on_disk c w =
     (case command_output c (fst w) of
        (Inl e, s') \<Rightarrow> (Inl e, s', snd w)
      | (Inr o1, s') \<Rightarrow> (Inr o1, s', (snd w)\<lparr>fs_nodes := cmd_effect (snd w) c (fs_nodes (snd w))\<rparr>))"

section \<open>Lemmas\<close>

named_theorems fs_simps

lemma fs_try_snd [simp]:
  "fs_nodes (snd (fs_try op f)) = fs_nodes f" "node_at p (snd (fs_try op f)) = node_at p f"
  by (simp_all add: fs_try_def node_at_def)

lemma fs_try_eq:
  "fs_try op f = (r, f') \<Longrightarrow> fs_nodes f' = fs_nodes f \<and> fs_faults f' = fs_faults f \<and> cmd_effect f' = cmd_effect f
     \<and> fs_ops f' = fs_ops f @ [op]"
  by (auto simp: fs_try_def)

lemma node_at_cong: "fs_nodes f' = fs_nodes f \<Longrightarrow> node_at p f' = node_at p f"
  by (simp add: node_at_def)

lemma is_file_node: "is_file p f \<longleftrightarrow> (\<exists>d n. node_at p f = Some (FileNode d n))"
  by (auto simp: is_file_def split: option.splits node.splits)

lemma node_at_put [fs_simps]:
  "resolve p \<noteq> [] \<Longrightarrow> node_at q (put_node p n f) = (if resolve q = resolve p then Some n else node_at q f)"
  by (simp add: node_at_def put_node_def)

lemma node_at_del [fs_simps]:
  "resolve p \<noteq> [] \<Longrightarrow> node_at q (del_node p f) = (if resolve q = resolve p then None else node_at q f)"
  by (simp add: node_at_def del_node_def)

lemma can_create_resolve: "can_create p f \<Longrightarrow> resolve p \<noteq> []"
  by (auto simp: can_create_def is_dir_def node_at_def)

lemma is_file_resolve: "is_file p f \<Longrightarrow> resolve p \<noteq> []"
  by (auto simp: is_file_def node_at_def split: option.splits node.splits)

lemma can_create_cong: "fs_nodes f' = fs_nodes f \<Longrightarrow> can_create p f' = can_create p f"
  by (simp add: can_create_def is_dir_def node_at_def parent_is_dir_def)

lemma is_file_cong: "fs_nodes f' = fs_nodes f \<Longrightarrow> is_file p f' = is_file p f"
  by (simp add: is_file_def node_at_def)

lemma put_node_keeps [simp]:
  "fs_faults (put_node p n f) = fs_faults f" "fs_ops (put_node p n f) = fs_ops f"
  "cmd_effect (put_node p n f) = cmd_effect f" "cmd_effect (del_node p f) = cmd_effect f"
  "fs_faults (del_node p f) = fs_faults f" "fs_ops (del_node p f) = fs_ops f"
  by (simp_all add: put_node_def del_node_def)

lemma split_on_snoc: "c \<notin> set b \<Longrightarrow> split_on c (a @ c # b) = split_on c a @ [b]"
  by (induction a) (auto simp: split_on_no_sep split: list.splits)

lemma resolve_go_append: "resolve_go acc (xs @ ys) = resolve_go (rev (resolve_go acc xs)) ys"
  by (induction acc xs rule: resolve_go.induct) auto

text \<open>A plain component: what \<open>validate_id\<close> and a UUID guarantee of a file name.\<close>

definition plain_component :: "string \<Rightarrow> bool" where
  "plain_component c \<longleftrightarrow> c \<noteq> [] \<and> c \<noteq> ''.'' \<and> c \<noteq> ''..'' \<and> CHR ''/'' \<notin> set c"

lemma resolve_join:
  assumes "plain_component c"
  shows "resolve (path_join d c) = resolve d @ [c]"
proof -
  have c: "c \<noteq> []" "hd c \<noteq> CHR ''/''" "CHR ''/'' \<notin> set c" and go: "resolve_go acc [c] = rev acc @ [c]" for acc
    using assms by (cases c; auto simp: plain_component_def)+
  consider "d = []" | (slash) d' where "d = d' @ ''/''" | (plain) "d \<noteq> []" "last d \<noteq> CHR ''/''"
    by (cases d rule: rev_cases) auto
  then show ?thesis
  proof cases
    case 1
    with c go show ?thesis by (simp add: path_join_def resolve_def split_on_no_sep)
  next
    case slash
    have d: "split_on (CHR ''/'') d = split_on (CHR ''/'') d' @ [[]]"
      unfolding slash using split_on_snoc [of "CHR ''/''" "[]" d'] by simp
    have "path_join d c = d' @ CHR ''/'' # c" using c slash by (simp add: path_join_def)
    with d go show ?thesis using split_on_snoc [OF c(3), of d'] by (simp add: resolve_def resolve_go_append)
  next
    case plain
    then have "path_join d c = d @ CHR ''/'' # c" using c by (simp add: path_join_def)
    with go show ?thesis using split_on_snoc [OF c(3), of d] by (simp add: resolve_def resolve_go_append)
  qed
qed

lemma resolve_join_inject:
  "plain_component c \<Longrightarrow> plain_component c' \<Longrightarrow> resolve (path_join d c) = resolve (path_join d c') \<longleftrightarrow> c = c'"
  by (simp add: resolve_join)

end
