(* ===== verification/Stores.thy ===== *)
theory Stores
  imports Filesystem
begin

text \<open>
  \<^verbatim>\<open>vmm/src/drive.rs\<close> and \<^verbatim>\<open>vmm/src/image.rs\<close>: the directories of drive and image files, one
  \<^verbatim>\<open><id>.ext4\<close> each. Both keep the file system as the only index. What they share (ids,
  paths, deletion) is the locale \<open>file_store\<close>, interpreted on both. Sizes are \<^verbatim>\<open>u64\<close>, and the
  byte count of a new drive is computed with the wrap-around of a release build.
\<close>

section \<open>Drives\<close>

record drive_store =
  drive_dir :: string

record drive_info =
  di_id :: string
  di_path :: string
  di_size_bytes :: nat
  di_created_at :: int

definition MIN_DRIVE_SIZE_MIB :: u64 where
  "MIN_DRIVE_SIZE_MIB = 16"

definition is_ascii_alphanumeric :: "char \<Rightarrow> bool" where
  "is_ascii_alphanumeric c =
     (let n = (of_char c :: nat) in (48 \<le> n \<and> n \<le> 57) \<or> (65 \<le> n \<and> n \<le> 90) \<or> (97 \<le> n \<and> n \<le> 122))"

definition id_chars_ok :: "string \<Rightarrow> bool" where
  "id_chars_ok i =
     (i \<noteq> [] \<and> length i \<le> 64
      \<and> list_all (\<lambda>c. is_ascii_alphanumeric c \<or> c = CHR ''-'' \<or> c = CHR ''_'') i)"

definition drive_validate_id :: "string \<Rightarrow> (io_error, unit) result" where
  "drive_validate_id i =
     (if id_chars_ok i then Inr () else Inl (IoError InvalidInput (Msg ''invalid drive id'' [i])))"

definition drive_store_new :: "string \<Rightarrow> fs \<Rightarrow> (io_error, drive_store) result \<times> fs" where
  "drive_store_new dir f =
     (case create_dir_all dir f of
        (Inl e, f') \<Rightarrow> (Inl e, f') | (Inr _, f') \<Rightarrow> (Inr \<lparr>drive_dir = dir\<rparr>, f'))"

definition drive_path_for :: "drive_store \<Rightarrow> string \<Rightarrow> string" where
  "drive_path_for st i = path_join (drive_dir st) (i @ ''.ext4'')"

definition drive_exists :: "drive_store \<Rightarrow> string \<Rightarrow> fs \<Rightarrow> bool" where
  "drive_exists st i f = is_file (drive_path_for st i) f"

definition drive_size_bytes :: "u64 \<Rightarrow> u64" where
  "drive_size_bytes size_mib = size_mib * 1024 * 1024"

definition drive_create :: "drive_store \<Rightarrow> string \<Rightarrow> u64 \<Rightarrow> sys \<times> fs \<Rightarrow> (io_error, string) result \<times> sys \<times> fs" where
  "drive_create st i size_mib w =
     (case drive_validate_id i of
        Inl e \<Rightarrow> (Inl e, w)
      | Inr _ \<Rightarrow>
     (if size_mib < MIN_DRIVE_SIZE_MIB then
        (Inl (IoError InvalidInput (Msg ''drive size too small'' [show_nat (unat size_mib)])), w)
      else
     (let path = drive_path_for st i in
      if path_exists path (snd w) then (Inl (IoError AlreadyExists (Msg ''drive already exists'' [i])), w)
      else
     (case create_file path (snd w) of
        (Inl e, f1) \<Rightarrow> (Inl e, fst w, f1)
      | (Inr _, f1) \<Rightarrow>
     (case set_len path (unat (drive_size_bytes size_mib)) f1 of
        (Inl e, f2) \<Rightarrow> (Inl e, fst w, f2)
      | (Inr _, f2) \<Rightarrow>
     (case run_on_disk (Command ''mkfs.ext4'' [''-q'', path] []) (fst w, f2) of
        (Inr o1, s3, f3) \<Rightarrow>
          if out_success o1 then (Inr path, s3, f3)
          else (Inl (io_other ''mkfs.ext4 failed'' [path]), s3, snd (remove_file path f3))
      | (Inl e, s3, f3) \<Rightarrow> (Inl e, s3, snd (remove_file path f3))))))))"

text \<open>The loop of \<^verbatim>\<open>list\<close>: the first entry or metadata error ends it with that error.\<close>

fun list_ext4 :: "string \<Rightarrow> (string \<Rightarrow> int option) \<Rightarrow> (io_error, string) result list \<Rightarrow> fs \<Rightarrow>
                  (io_error, drive_info list) result \<times> fs" where
  "list_ext4 dir created [] f = (Inr [], f)"
| "list_ext4 dir created (Inl e # es) f = (Inl e, f)"
| "list_ext4 dir created (Inr n # es) f =
     (let path = path_join dir n in
      if extension path \<noteq> Some ''ext4'' then list_ext4 dir created es f
      else case file_stem path of
             None \<Rightarrow> list_ext4 dir created es f
           | Some i \<Rightarrow>
               (case metadata path f of
                  (Inl e, f1) \<Rightarrow> (Inl e, f1)
                | (Inr (_, len), f1) \<Rightarrow>
                    (case list_ext4 dir created es f1 of
                       (Inl e, f2) \<Rightarrow> (Inl e, f2)
                     | (Inr ds, f2) \<Rightarrow>
                         (Inr (\<lparr>di_id = i, di_path = path, di_size_bytes = len,
                                di_created_at = (case created path of None \<Rightarrow> 0 | Some t \<Rightarrow> t)\<rparr> # ds), f2))))"

definition drive_list :: "drive_store \<Rightarrow> (string \<Rightarrow> int option) \<Rightarrow> fs \<Rightarrow> (io_error, drive_info list) result \<times> fs" where
  "drive_list st created f =
     (case read_dir (drive_dir st) f of
        (Inl e, f') \<Rightarrow> (Inl e, f')
      | (Inr es, f') \<Rightarrow> list_ext4 (drive_dir st) created es f')"

definition drive_delete :: "drive_store \<Rightarrow> string \<Rightarrow> fs \<Rightarrow> (io_error, unit) result \<times> fs" where
  "drive_delete st i f =
     (case drive_validate_id i of Inl e \<Rightarrow> (Inl e, f) | Inr _ \<Rightarrow> remove_file (drive_path_for st i) f)"

section \<open>Images\<close>

record image_store =
  image_dir :: string

definition image_validate_id :: "string \<Rightarrow> (io_error, unit) result" where
  "image_validate_id i =
     (if id_chars_ok i then Inr () else Inl (IoError InvalidInput (Msg ''invalid image id'' [i])))"

definition image_store_new :: "string \<Rightarrow> fs \<Rightarrow> (io_error, image_store) result \<times> fs" where
  "image_store_new dir f =
     (case create_dir_all dir f of
        (Inl e, f') \<Rightarrow> (Inl e, f') | (Inr _, f') \<Rightarrow> (Inr \<lparr>image_dir = dir\<rparr>, f'))"

definition image_path_for :: "image_store \<Rightarrow> string \<Rightarrow> string" where
  "image_path_for st i = path_join (image_dir st) (i @ ''.ext4'')"

definition image_exists :: "image_store \<Rightarrow> string \<Rightarrow> fs \<Rightarrow> bool" where
  "image_exists st i f = is_file (image_path_for st i) f"

definition EXT4_SUPERBLOCK_OFFSET :: nat where
  "EXT4_SUPERBLOCK_OFFSET = 1024"

definition EXT4_MAGIC_OFFSET_IN_SUPERBLOCK :: nat where
  "EXT4_MAGIC_OFFSET_IN_SUPERBLOCK = 0x38"

definition EXT4_MAGIC_LE :: "u8 list" where
  "EXT4_MAGIC_LE = [0x53, 0xEF]"

text \<open>\<^verbatim>\<open>seek\<close> past the end is no error; \<^verbatim>\<open>read_exact\<close> of two bytes is one, mapped to \<^verbatim>\<open>false\<close>.\<close>

definition looks_like_ext4 :: "string \<Rightarrow> fs \<Rightarrow> (io_error, bool) result \<times> fs" where
  "looks_like_ext4 path f =
     (case read_file path f of
        (Inl e, f') \<Rightarrow> (Inl e, f')
      | (Inr bs, f') \<Rightarrow>
          (let magic = take 2 (drop (EXT4_SUPERBLOCK_OFFSET + EXT4_MAGIC_OFFSET_IN_SUPERBLOCK) bs)
           in if length magic < 2 then (Inr False, f') else (Inr (magic = EXT4_MAGIC_LE), f')))"

definition image_copy_checked :: "image_store \<Rightarrow> string \<Rightarrow> string \<Rightarrow> nat \<Rightarrow> sys \<times> fs \<Rightarrow> (io_error, string) result \<times> sys \<times> fs" where
  "image_copy_checked st source dest source_len w =
     (case run_on_disk (Command ''cp'' [''--reflink=auto'', source, dest] []) w of
        (Inl e, s1, f1) \<Rightarrow> (Inl e, s1, snd (remove_file dest f1))
      | (Inr o1, s1, f1) \<Rightarrow>
          if \<not> out_success o1
          then (Inl (io_other ''cp --reflink=auto failed'' [source, dest]), s1, snd (remove_file dest f1))
          else (case metadata dest f1 of
                  (r, f2) \<Rightarrow>
                    (let dest_size = (case r of Inl _ \<Rightarrow> 0 | Inr (_, n) \<Rightarrow> n) in
                     if dest_size \<noteq> source_len
                     then (Inl (IoError WriteZero (Msg ''copy into the image store is incomplete''
                                  [source, show_nat dest_size, show_nat source_len, image_dir st])),
                           s1, snd (remove_file dest f2))
                     else (Inr dest, s1, f2))))"

definition image_register :: "image_store \<Rightarrow> string \<Rightarrow> string \<Rightarrow> sys \<times> fs \<Rightarrow> (io_error, string) result \<times> sys \<times> fs" where
  "image_register st i source w =
     (case image_validate_id i of
        Inl e \<Rightarrow> (Inl e, w)
      | Inr _ \<Rightarrow>
     (case metadata source (snd w) of
        (Inl e, f1) \<Rightarrow> (Inl (IoError (io_err_kind e) (Msg ''image source path does not exist or is not accessible'' [source])), fst w, f1)
      | (Inr (regular, len), f1) \<Rightarrow>
     (if \<not> regular then (Inl (IoError InvalidInput (Msg ''image source path is not a regular file'' [source])), fst w, f1)
      else
     (case looks_like_ext4 source f1 of
        (Inl e, f2) \<Rightarrow> (Inl e, fst w, f2)
      | (Inr False, f2) \<Rightarrow> (Inl (IoError InvalidInput (Msg ''does not look like an ext4 filesystem'' [source])), fst w, f2)
      | (Inr True, f2) \<Rightarrow>
     (let dest = image_path_for st i in
      if path_exists dest f2 then (Inl (IoError AlreadyExists (Msg ''image already exists'' [i])), fst w, f2)
      else image_copy_checked st source dest len (fst w, f2))))))"

definition image_list :: "image_store \<Rightarrow> (string \<Rightarrow> int option) \<Rightarrow> fs \<Rightarrow> (io_error, drive_info list) result \<times> fs" where
  "image_list st created f =
     (case read_dir (image_dir st) f of
        (Inl e, f') \<Rightarrow> (Inl e, f')
      | (Inr es, f') \<Rightarrow> list_ext4 (image_dir st) created es f')"

definition image_delete :: "image_store \<Rightarrow> string \<Rightarrow> fs \<Rightarrow> (io_error, unit) result \<times> fs" where
  "image_delete st i f =
     (case image_validate_id i of Inl e \<Rightarrow> (Inl e, f) | Inr _ \<Rightarrow> remove_file (image_path_for st i) f)"

section \<open>What the two stores share\<close>

locale file_store =
  fixes dir :: string
    and path_for :: "string \<Rightarrow> string"
    and validate :: "string \<Rightarrow> (io_error, unit) result"
    and remove :: "string \<Rightarrow> fs \<Rightarrow> (io_error, unit) result \<times> fs"
  assumes path_for_eq: "path_for i = path_join dir (i @ ''.ext4'')"
    and validate_ok: "validate i = Inr () \<longleftrightarrow> id_chars_ok i"
    and remove_eq: "remove i f = (if id_chars_ok i then remove_file (path_for i) f else (validate i, f))"
begin

lemma plain_file_name: "id_chars_ok i \<Longrightarrow> plain_component (i @ ''.ext4'')"
  by (auto simp: id_chars_ok_def plain_component_def list_all_iff is_ascii_alphanumeric_def Let_def)

text \<open>A validated id names a file directly in the store's directory.\<close>

lemma path_confined: "validate i = Inr () \<Longrightarrow> resolve (path_for i) = resolve dir @ [i @ ''.ext4'']"
  by (simp add: path_for_eq resolve_join plain_file_name validate_ok)

lemma path_for_inject:
  "validate i = Inr () \<Longrightarrow> validate j = Inr () \<Longrightarrow> resolve (path_for i) = resolve (path_for j) \<longleftrightarrow> i = j"
  by (simp add: path_confined)

text \<open>Deleting one entry leaves every other file as it is, and a rejected id touches nothing.\<close>

lemma remove_other:
  assumes "remove i f = (r, f')" "resolve p \<noteq> resolve (path_for i)"
  shows "node_at p f' = node_at p f"
proof (cases "id_chars_ok i")
  case True
  then have "resolve (path_for i) \<noteq> []" using path_confined validate_ok by simp
  with True assms show ?thesis
    by (auto simp: remove_eq remove_file_def fs_simps split: prod.splits option.splits if_splits
        dest!: fs_try_eq intro: node_at_cong)
next
  case False
  with assms show ?thesis by (simp add: remove_eq)
qed

lemma remove_removes:
  assumes "remove i f = (Inr (), f')" "validate i = Inr ()"
  shows "is_file (path_for i) f" "node_at (path_for i) f' = None"
proof -
  have ok: "id_chars_ok i" using assms(2) validate_ok by simp
  then have "resolve (path_for i) \<noteq> []" using path_confined validate_ok by simp
  with ok assms(1) show "is_file (path_for i) f" "node_at (path_for i) f' = None"
    by (auto simp: remove_eq remove_file_def fs_simps is_file_def split: prod.splits option.splits if_splits
        dest!: fs_try_eq node_at_cong [of _ _ "path_for i"])
qed

end

interpretation drive_files: file_store "drive_dir st" "drive_path_for st" drive_validate_id "drive_delete st"
  for st
  by unfold_locales (auto simp: drive_path_for_def drive_validate_id_def drive_delete_def)

interpretation image_files: file_store "image_dir st" "image_path_for st" image_validate_id "image_delete st"
  for st
  by unfold_locales (auto simp: image_path_for_def image_validate_id_def image_delete_def)

section \<open>Creating and registering\<close>

text \<open>A program that writes to one path leaves every other file alone.\<close>

definition touches_only :: "fs \<Rightarrow> command \<Rightarrow> string \<Rightarrow> bool" where
  "touches_only f c path \<longleftrightarrow>
     (\<forall>ns q. q \<noteq> resolve path \<longrightarrow> hm_get q (cmd_effect f c ns) = hm_get q ns)"

lemma run_on_disk_cases:
  assumes "run_on_disk c w = (r, s', f')"
  shows "f' = (case r of Inl _ \<Rightarrow> snd w | Inr _ \<Rightarrow> (snd w)\<lparr>fs_nodes := cmd_effect (snd w) c (fs_nodes (snd w))\<rparr>)"
  using assms by (auto simp: run_on_disk_def split: prod.splits sum.splits)

lemma run_on_disk_other:
  assumes "run_on_disk c w = (r, s', f')" "touches_only (snd w) c path" "resolve p \<noteq> resolve path"
  shows "node_at p f' = node_at p (snd w)" "cmd_effect f' = cmd_effect (snd w)" "fs_faults f' = fs_faults (snd w)"
  using assms by (auto dest!: run_on_disk_cases simp: node_at_def touches_only_def split: sum.splits)

lemma remove_file_other:
  "remove_file q f = (r, f') \<Longrightarrow> resolve p \<noteq> resolve q \<Longrightarrow> node_at p f' = node_at p f"
  by (auto simp: remove_file_def fs_simps is_file_resolve split: prod.splits option.splits if_splits
      dest!: fs_try_eq intro: node_at_cong)

lemma remove_file_ok:
  assumes "remove_file q f = (r, f')" "\<And>ops. fs_faults f ops (OpRemoveFile q) = None" "is_file q f"
  shows "r = Inr ()" "node_at q f' = None"
  using assms is_file_resolve [OF assms(3)]
  by (auto simp: remove_file_def fs_try_def del_node_def is_file_def node_at_def split: if_splits option.splits node.splits)

lemma create_file_ok:
  assumes "create_file p f = (r, f')"
  shows "case r of Inl _ \<Rightarrow> fs_nodes f' = fs_nodes f
         | Inr _ \<Rightarrow> can_create p f \<and> fs_nodes f' = hm_insert (resolve p) (FileNode [] 0) (fs_nodes f)"
    "fs_faults f' = fs_faults f" "cmd_effect f' = cmd_effect f"
  using assms by (auto simp: create_file_def put_node_def can_create_def is_dir_def node_at_def parent_is_dir_def
      split: prod.splits option.splits if_splits dest!: fs_try_eq)

lemma create_file_node:
  assumes "create_file p f = (Inr (), f')"
  shows "node_at p f' = Some (FileNode [] 0)" "resolve q \<noteq> resolve p \<Longrightarrow> node_at q f' = node_at q f"
  using create_file_ok(1) [OF assms] can_create_resolve [of p f] by (auto simp: node_at_def)

lemma set_len_node:
  assumes "set_len p n f = (r, f')" "node_at p f = Some (FileNode d l)"
  shows "node_at p f' = (case r of Inl _ \<Rightarrow> Some (FileNode d l) | Inr _ \<Rightarrow> Some (FileNode (take n d) n))"
    "resolve q \<noteq> resolve p \<Longrightarrow> node_at q f' = node_at q f"
    "fs_faults f' = fs_faults f" "cmd_effect f' = cmd_effect f"
proof -
  have "resolve p \<noteq> []" using assms(2) by (auto simp: node_at_def split: if_splits)
  then show "node_at p f' = (case r of Inl _ \<Rightarrow> Some (FileNode d l) | Inr _ \<Rightarrow> Some (FileNode (take n d) n))"
    "resolve q \<noteq> resolve p \<Longrightarrow> node_at q f' = node_at q f"
    "fs_faults f' = fs_faults f" "cmd_effect f' = cmd_effect f"
    using assms
    by (auto simp: set_len_def fs_try_def fs_simps node_at_def put_node_def split: option.splits node.splits if_splits)
qed

definition mkfs_keeps_length :: "fs \<Rightarrow> string \<Rightarrow> bool" where
  "mkfs_keeps_length f path \<longleftrightarrow>
     (\<forall>ns d l. hm_get (resolve path) ns = Some (FileNode d l) \<longrightarrow>
        (\<exists>d'. hm_get (resolve path) (cmd_effect f (Command ''mkfs.ext4'' [''-q'', path] []) ns) = Some (FileNode d' l)))"

text \<open>\<open>drive_create\<close>, once past its checks, in its five outcomes.\<close>

lemma drive_create_okD:
  assumes "drive_create st i mib w = (Inr path, s', f')"
  obtains f1 f2 o1 where "id_chars_ok i" "MIN_DRIVE_SIZE_MIB \<le> mib" "path = drive_path_for st i"
    "\<not> path_exists path (snd w)" "create_file path (snd w) = (Inr (), f1)"
    "set_len path (unat (drive_size_bytes mib)) f1 = (Inr (), f2)"
    "run_on_disk (Command ''mkfs.ext4'' [''-q'', path] []) (fst w, f2) = (Inr o1, s', f')"
  using assms
  by (auto simp: drive_create_def drive_validate_id_def Let_def not_less
      split: sum.splits if_splits prod.splits)

lemma drive_create_succeeds:
  assumes "id_chars_ok i" "16 \<le> mib" "drive_path_for st i = p" "\<not> path_exists p f" "can_create p f"
    "\<And>ops op. fs_faults f ops op = None" "\<And>past c. \<exists>o1. answer s past c = Inr o1 \<and> out_success o1"
  shows "\<exists>s' f'. drive_create st i mib (s, f) = (Inr p, s', f')"
proof -
  have keep: "can_create p (snd (fs_try op f)) = can_create p f" for op
    by (rule can_create_cong) simp
  obtain f1 where c: "create_file p f = (Inr (), f1)"
    using assms(5,6) keep [of "OpCreate p"] by (auto simp: create_file_def fs_try_def)
  obtain f2 where l: "set_len p (unat (drive_size_bytes mib)) f1 = (Inr (), f2)"
    using assms(6) create_file_ok(2) [OF c] by (auto simp: set_len_def fs_try_def)
  obtain o1 s' f' where m: "run_on_disk (Command ''mkfs.ext4'' [''-q'', p] []) (s, f2) = (Inr o1, s', f')" "out_success o1"
    using assms(7) [of "runs s" "Command ''mkfs.ext4'' [''-q'', p] []"] by (auto simp: run_on_disk_def command_output_def)
  have "\<not> mib < MIN_DRIVE_SIZE_MIB" using assms(2) by (simp add: MIN_DRIVE_SIZE_MIB_def)
  with assms(1,3,4) c l m show ?thesis by (simp add: drive_create_def drive_validate_id_def Let_def)
qed

lemma drive_size_no_wrap: "mib < 2 ^ 44 \<Longrightarrow> unat (drive_size_bytes mib) = unat mib * 2 ^ 20"
proof -
  assume "mib < 2 ^ 44"
  then have less: "unat mib < 2 ^ 44" by (simp add: word_less_nat_alt)
  have "drive_size_bytes mib = mib * 2 ^ 20" by (simp add: drive_size_bytes_def)
  then have "unat (drive_size_bytes mib) = unat mib * 2 ^ 20 mod 2 ^ 64"
    by (simp add: unat_word_ariths)
  with less show ?thesis by simp
qed

section \<open>Properties\<close>

definition disk_ok :: fs where
  "disk_ok = \<lparr>fs_nodes = [([''var''], DirNode)], fs_faults = (\<lambda>_ _. None), fs_ops = [], cmd_effect = (\<lambda>_ ns. ns)\<rparr>"

definition sample_run :: sys where
  "sample_run = \<lparr>answer = (\<lambda>_ _. Inr \<lparr>out_success = True, out_stdout = [], out_stderr = []\<rparr>), runs = []\<rparr>"

text \<open>
  A drive that \<^verbatim>\<open>DriveStore::create\<close> reports as created had a well-formed id, a size of at
  least 16 MiB and no file before; where \<^verbatim>\<open>mkfs.ext4\<close> formats its file in place, it is now a
  file of exactly \<^verbatim>\<open>size_mib\<close> MiB in the store's directory, found by \<^verbatim>\<open>exists\<close>, and every other
  file is untouched. The byte count is exact only below \<^verbatim>\<open>2^44\<close> MiB.
\<close>

theorem drive_create_result:
  assumes "drive_create st i mib (s, f) = (Inr path, s', f')" "mib < 2 ^ 44"
    "touches_only f (Command ''mkfs.ext4'' [''-q'', path] []) path" "mkfs_keeps_length f path"
  shows "(id_chars_ok i \<and> 16 \<le> mib \<and> \<not> drive_exists st i f \<and> drive_exists st i f')
   \<and> (resolve path = resolve (drive_dir st) @ [i @ ''.ext4''])
   \<and> (\<exists>d. node_at path f' = Some (FileNode d (unat mib * 2 ^ 20)))
   \<and> (\<forall>q. resolve q \<noteq> resolve path \<longrightarrow> node_at q f' = node_at q f)"
proof -
  obtain f1 f2 o1 where d: "id_chars_ok i" "MIN_DRIVE_SIZE_MIB \<le> mib" "path = drive_path_for st i"
    "\<not> path_exists path f" and c: "create_file path f = (Inr (), f1)"
    and l: "set_len path (unat (drive_size_bytes mib)) f1 = (Inr (), f2)"
    and m: "run_on_disk (Command ''mkfs.ext4'' [''-q'', path] []) (s, f2) = (Inr o1, s', f')"
    using drive_create_okD [OF assms(1)] by auto
  note n1 = create_file_node [OF c] note n2 = set_len_node [OF l n1(1)]
  have eff: "cmd_effect f2 = cmd_effect f" using create_file_ok(3) [OF c] n2(4) by simp
  have node2: "node_at path f2 = Some (FileNode [] (unat mib * 2 ^ 20))"
    using n2(1) drive_size_no_wrap [OF assms(2)] by simp
  then have "resolve path \<noteq> []" "hm_get (resolve path) (fs_nodes f2) = Some (FileNode [] (unat mib * 2 ^ 20))"
    by (auto simp: node_at_def split: if_splits)
  then have node: "\<exists>d. node_at path f' = Some (FileNode d (unat mib * 2 ^ 20))"
    using run_on_disk_cases [OF m] assms(4) eff by (auto simp: node_at_def mkfs_keeps_length_def)
  have c1: "resolve path = resolve (drive_dir st) @ [i @ ''.ext4'']"
    using drive_files.path_confined [of i] d by (simp add: drive_validate_id_def)
  have c2: "\<forall>q. resolve q \<noteq> resolve path \<longrightarrow> node_at q f' = node_at q f"
    using run_on_disk_other(1) [OF m, of path] assms(3) eff n2(2) n1(2) by (simp add: touches_only_def)
  have c3: "id_chars_ok i \<and> 16 \<le> mib \<and> \<not> drive_exists st i f \<and> drive_exists st i f'"
    using d node by (auto simp: drive_exists_def is_file_def path_exists_def MIN_DRIVE_SIZE_MIB_def split: option.splits)
  show ?thesis using c1 c2 c3 node by blast
qed

lemma sample_drive_create:
  "\<exists>s' f'. drive_create \<lparr>drive_dir = ''/var''\<rparr> ''data'' 64 (sample_run, disk_ok) = (Inr ''/var/data.ext4'', s', f')"
proof -
  have "id_chars_ok ''data''" "can_create ''/var/data.ext4'' disk_ok" "\<not> path_exists ''/var/data.ext4'' disk_ok"
    "drive_path_for \<lparr>drive_dir = ''/var''\<rparr> ''data'' = ''/var/data.ext4''" by code_simp+
  from drive_create_succeeds [OF this(1) _ this(4) this(3,2), of 64 sample_run] show ?thesis
    by (auto simp: disk_ok_def sample_run_def)
qed

theorem drive_create_result_witness:
  "\<exists>f' d. node_at ''/var/data.ext4'' f' = Some (FileNode d (64 * 2 ^ 20)) \<and> drive_exists \<lparr>drive_dir = ''/var''\<rparr> ''data'' f'"
proof -
  obtain s' f' where c: "drive_create \<lparr>drive_dir = ''/var''\<rparr> ''data'' 64 (sample_run, disk_ok) = (Inr ''/var/data.ext4'', s', f')"
    using sample_drive_create by blast
  have "touches_only disk_ok (Command ''mkfs.ext4'' [''-q'', ''/var/data.ext4''] []) ''/var/data.ext4''"
    "mkfs_keeps_length disk_ok ''/var/data.ext4''"
    by (simp_all add: touches_only_def mkfs_keeps_length_def disk_ok_def)
  from drive_create_result [OF c _ this] show ?thesis by auto
qed

text \<open>
  When sizing a new drive's file fails, \<^verbatim>\<open>create\<close> returns the error but leaves the empty
  file behind: the id then counts as an existing drive and creating it again is refused
  although no drive was ever made.
\<close>

theorem drive_create_leaves_file:
  assumes "id_chars_ok i" "16 \<le> mib" "\<not> path_exists (drive_path_for st i) f"
    "create_file (drive_path_for st i) f = (Inr (), f1)"
    "set_len (drive_path_for st i) (unat (drive_size_bytes mib)) f1 = (Inl e, f2)"
  shows "(drive_create st i mib (s, f) = (Inl e, s, f2))
   \<and> (drive_exists st i f2)
   \<and> (fst (drive_create st i mib' (s', f2)) \<noteq> Inr p)"
proof -
  have n: "node_at (drive_path_for st i) f2 = Some (FileNode [] 0)"
    using set_len_node(1) [OF assms(5) create_file_node(1) [OF assms(4)]] by simp
  have c1: "drive_create st i mib (s, f) = (Inl e, s, f2)"
    using assms leD [OF assms(2)] by (simp add: drive_create_def drive_validate_id_def MIN_DRIVE_SIZE_MIB_def Let_def)
  have c2: "drive_exists st i f2" using n by (simp add: drive_exists_def is_file_def)
  have c3: "fst (drive_create st i mib' (s', f2)) \<noteq> Inr p"
    using n assms(1) by (simp add: drive_create_def drive_validate_id_def path_exists_def Let_def)
  show ?thesis using c1 c2 c3 by blast
qed

definition disk_full :: fs where
  "disk_full = disk_ok\<lparr>fs_faults := (\<lambda>_ op. case op of
       OpSetLen _ \<Rightarrow> Some \<lparr>fault_err = io_other ''File too large'' [], fault_written = None, fault_kept = (\<lambda>_. True)\<rparr>
     | _ \<Rightarrow> None)\<rparr>"

theorem drive_create_leaves_file_witness:
  "\<exists>e s' f'. drive_create \<lparr>drive_dir = ''/var''\<rparr> ''data'' 64 (sample_run, disk_full) = (Inl e, s', f')
     \<and> drive_exists \<lparr>drive_dir = ''/var''\<rparr> ''data'' f'"
proof -
  let ?p = "drive_path_for \<lparr>drive_dir = ''/var''\<rparr> ''data''"
  obtain f1 where f1: "create_file ?p disk_full = (Inr (), f1)" and faults: "fs_faults f1 = fs_faults disk_full"
  proof -
    have "fst (create_file ?p disk_full) = Inr ()" by code_simp
    then obtain f1 where "create_file ?p disk_full = (Inr (), f1)" by (cases "create_file ?p disk_full") auto
    then show thesis using that create_file_ok(2) by blast
  qed
  then obtain e f2 where f2: "set_len ?p (unat (drive_size_bytes 64)) f1 = (Inl e, f2)"
    by (auto simp: set_len_def fs_try_def disk_full_def)
  have "id_chars_ok ''data''" "\<not> path_exists ?p disk_full" by code_simp+
  from drive_create_leaves_file [OF this(1) _ this(2) f1 f2] show ?thesis by auto
qed

section \<open>Registering an image\<close>

lemma metadata_snd: "metadata p f = (r, f') \<Longrightarrow> fs_nodes f' = fs_nodes f \<and> fs_faults f' = fs_faults f \<and> cmd_effect f' = cmd_effect f"
  by (auto simp: metadata_def split: prod.splits option.splits node.splits dest!: fs_try_eq)

lemma looks_like_ext4_snd:
  "looks_like_ext4 p f = (r, f') \<Longrightarrow> fs_nodes f' = fs_nodes f \<and> fs_faults f' = fs_faults f \<and> cmd_effect f' = cmd_effect f"
  by (auto simp: looks_like_ext4_def read_file_def Let_def
      split: prod.splits option.splits node.splits sum.splits if_splits dest!: fs_try_eq)

lemma remove_file_gone:
  assumes "\<And>ops. fs_faults f ops (OpRemoveFile q) = None"
  shows "\<not> is_file q (snd (remove_file q f))"
proof (cases "is_file q f")
  case True
  then show ?thesis using remove_file_ok [OF _ assms True, of _ "snd (remove_file q f)"]
    by (cases "remove_file q f") (auto simp: is_file_def)
next
  case False
  then show ?thesis using assms by (auto simp: remove_file_def fs_try_def is_file_def node_at_def split: option.splits)
qed

lemma image_copy_checked_spec:
  assumes "image_copy_checked st source dest len (s, f) = (r, s', f')"
    "touches_only f (Command ''cp'' [''--reflink=auto'', source, dest] []) dest"
    "\<And>ops. fs_faults f ops (OpRemoveFile dest) = None" "0 < len"
  shows "resolve p \<noteq> resolve dest \<Longrightarrow> node_at p f' = node_at p f"
    "case r of Inl e \<Rightarrow> \<not> is_file dest f'
     | Inr q \<Rightarrow> q = dest \<and> (is_file dest f' \<longrightarrow> (\<exists>d. node_at dest f' = Some (FileNode d len)))"
proof -
  obtain r1 s1 f1 where r1: "run_on_disk (Command ''cp'' [''--reflink=auto'', source, dest] []) (s, f) = (r1, s1, f1)"
    by (cases "run_on_disk (Command ''cp'' [''--reflink=auto'', source, dest] []) (s, f)")
  obtain m f2 where m: "metadata dest f1 = (m, f2)" by (cases "metadata dest f1")
  note m2 = metadata_snd [OF m]
  have faults: "fs_faults f1 = fs_faults f" using run_on_disk_cases [OF r1] by (auto split: sum.splits)
  have gone: "\<not> is_file dest (snd (remove_file dest f1))" "\<not> is_file dest (snd (remove_file dest f2))"
    using remove_file_gone [of f1 dest] remove_file_gone [of f2 dest] assms(3) faults m2 by auto
  have other: "resolve p \<noteq> resolve dest \<Longrightarrow> node_at p (snd (remove_file dest g)) = node_at p g" for g
    using remove_file_other [of dest g _ "snd (remove_file dest g)" p] by (cases "remove_file dest g") auto
  have f1: "resolve p \<noteq> resolve dest \<Longrightarrow> node_at p f1 = node_at p f"
    using run_on_disk_other(1) [OF r1, of dest p] assms(2) by simp
  have f2: "node_at q f2 = node_at q f1" for q using m2 by (simp add: node_at_def)
  show "resolve p \<noteq> resolve dest \<Longrightarrow> node_at p f' = node_at p f"
    using assms(1) r1 m f1 f2 other
    by (auto simp: image_copy_checked_def Let_def split: sum.splits if_splits prod.splits)
  show "case r of Inl e \<Rightarrow> \<not> is_file dest f'
     | Inr q \<Rightarrow> q = dest \<and> (is_file dest f' \<longrightarrow> (\<exists>d. node_at dest f' = Some (FileNode d len)))"
  proof (cases r)
    case (Inl e)
    then show ?thesis using assms(1) r1 m gone
      by (auto simp: image_copy_checked_def Let_def split: sum.splits if_splits prod.splits)
  next
    case (Inr q)
    then have "f' = f2" "q = dest" "(case m of Inl _ \<Rightarrow> 0 | Inr (_, n) \<Rightarrow> n) = len" and ok: "\<exists>o1. r1 = Inr o1"
      using assms(1) r1 m by (auto simp: image_copy_checked_def Let_def split: sum.splits if_splits prod.splits)
    moreover have "m = Inr (True, l)" if "node_at dest f2 = Some (FileNode d l)" "m = Inr x" for d l x
      using m that f2 by (auto simp: metadata_def split: prod.splits option.splits node.splits dest!: fs_try_eq node_at_cong)
    ultimately show ?thesis
    proof (cases m)
      case (Inl e)
      with m f2 \<open>f' = f2\<close> \<open>(case m of Inl _ \<Rightarrow> 0 | Inr (_, n) \<Rightarrow> n) = len\<close> assms(4) show ?thesis
        by simp
    next
      case (Inr x)
      with \<open>r = Inr q\<close> \<open>f' = f2\<close> \<open>q = dest\<close> \<open>(case m of Inl _ \<Rightarrow> 0 | Inr (_, n) \<Rightarrow> n) = len\<close>
        \<open>\<And>x l d. node_at dest f2 = Some (FileNode d l) \<Longrightarrow> m = Inr x \<Longrightarrow> m = Inr (True, l)\<close>
      show ?thesis by (fastforce simp: is_file_node)
    qed
  qed
qed

lemma ext4_min_len:
  assumes "looks_like_ext4 p f = (Inr True, f')" "node_at p f = Some (FileNode d l)"
  shows "1082 \<le> l"
proof -
  obtain bs f1 where bs: "read_file p f = (Inr bs, f1)" "2 \<le> length (drop 1080 bs)"
    using assms(1) by (auto simp: looks_like_ext4_def EXT4_SUPERBLOCK_OFFSET_def EXT4_MAGIC_OFFSET_IN_SUPERBLOCK_def Let_def
        split: sum.splits if_splits prod.splits)
  have "length bs = l" using bs(1) assms(2)
    by (auto simp: read_file_def min_def split: prod.splits option.splits dest!: fs_try_eq node_at_cong [of _ _ p])
  with bs(2) show ?thesis by simp
qed

lemma image_registerD:
  assumes "image_register st i source (s, f) = (r, s', f')"
  shows "(\<exists>e. r = Inl e \<and> fs_nodes f' = fs_nodes f)
     \<or> (\<exists>len f2. image_validate_id i = Inr () \<and> 0 < len \<and> (\<exists>d. node_at source f = Some (FileNode d len))
          \<and> \<not> path_exists (image_path_for st i) f \<and> fs_nodes f2 = fs_nodes f \<and> fs_faults f2 = fs_faults f
          \<and> cmd_effect f2 = cmd_effect f
          \<and> image_copy_checked st source (image_path_for st i) len (s, f2) = (r, s', f'))"
proof (cases "image_validate_id i")
  case (Inl e)
  with assms show ?thesis by (auto simp: image_register_def)
next
  case (Inr u)
  obtain m f1 where m: "metadata source f = (m, f1)" by (cases "metadata source f")
  obtain k f2 where k: "looks_like_ext4 source f1 = (k, f2)" by (cases "looks_like_ext4 source f1")
  note f1 = metadata_snd [OF m] note f2 = looks_like_ext4_snd [OF k]
  have pe: "path_exists p f2 = path_exists p f" for p using f1 f2 by (simp add: path_exists_def node_at_def)
  consider (no) "\<exists>e. r = Inl e \<and> (f' = f1 \<or> f' = f2)"
    | (copy) len where "m = Inr (True, len)" "k = Inr True" "\<not> path_exists (image_path_for st i) f2"
      "image_copy_checked st source (image_path_for st i) len (s, f2) = (r, s', f')"
    using assms Inr m k
    by (auto simp: image_register_def Let_def split: sum.splits if_splits prod.splits bool.splits)
  then show ?thesis
  proof cases
    case no
    then show ?thesis using f1 f2 by auto
  next
    case copy
    then obtain d where d: "node_at source f = Some (FileNode d len)"
      using m by (auto simp: metadata_def split: prod.splits option.splits node.splits dest!: fs_try_eq node_at_cong [of _ _ source])
    then have "node_at source f1 = Some (FileNode d len)" using f1 node_at_cong [of f1 f source] by simp
    then have "0 < len" using ext4_min_len [of source f1 f2] k copy(2) by fastforce
    with copy d Inr f1 f2 pe show ?thesis by auto
  qed
qed

lemma image_register_spec:
  assumes "image_register st i source (s, f) = (r, s', f')"
    "touches_only f (Command ''cp'' [''--reflink=auto'', source, image_path_for st i] []) (image_path_for st i)"
    "\<And>ops. fs_faults f ops (OpRemoveFile (image_path_for st i)) = None"
  shows "(resolve p \<noteq> resolve (image_path_for st i) \<longrightarrow> node_at p f' = node_at p f)
     \<and> (case r of Inl e \<Rightarrow> image_exists st i f' \<longrightarrow> image_exists st i f
       | Inr q \<Rightarrow> q = image_path_for st i \<and> id_chars_ok i \<and> \<not> image_exists st i f \<and> is_file source f
           \<and> (image_exists st i f' \<longrightarrow>
                (\<exists>d d' len. node_at source f = Some (FileNode d len) \<and> node_at q f' = Some (FileNode d' len))))"
  using image_registerD [OF assms(1)]
proof (elim disjE exE conjE)
  fix e assume "r = Inl e" "fs_nodes f' = fs_nodes f"
  then show ?thesis using is_file_cong [of f' f] node_at_cong [of f' f] by (simp add: image_exists_def)
next
  fix len f2 d
  assume v: "image_validate_id i = Inr ()" "0 < len" "node_at source f = Some (FileNode d len)"
    "\<not> path_exists (image_path_for st i) f"
    and f2: "fs_nodes f2 = fs_nodes f" "fs_faults f2 = fs_faults f" "cmd_effect f2 = cmd_effect f"
    and c: "image_copy_checked st source (image_path_for st i) len (s, f2) = (r, s', f')"
  have t: "touches_only f2 (Command ''cp'' [''--reflink=auto'', source, image_path_for st i] []) (image_path_for st i)"
    using assms(2) f2(3) by (simp add: touches_only_def)
  have n: "fs_faults f2 ops (OpRemoveFile (image_path_for st i)) = None" for ops using assms(3) f2(2) by simp
  have "id_chars_ok i" using v(1) by (simp add: image_validate_id_def split: if_splits)
  moreover have "\<not> image_exists st i f" using v(4) by (auto simp: image_exists_def path_exists_def is_file_node)
  moreover have "is_file source f" using v(3) by (simp add: is_file_node)
  moreover have "resolve p \<noteq> resolve (image_path_for st i) \<longrightarrow> node_at p f' = node_at p f"
    using image_copy_checked_spec(1) [OF c t n v(2), of p] node_at_cong [OF f2(1), of p] by simp
  moreover have "case r of Inl e \<Rightarrow> \<not> image_exists st i f'
     | Inr q \<Rightarrow> q = image_path_for st i \<and> (image_exists st i f' \<longrightarrow> (\<exists>d. node_at q f' = Some (FileNode d len)))"
    using image_copy_checked_spec(2) [OF c t n v(2)] unfolding image_exists_def
    by (auto split: sum.splits)
  ultimately show ?thesis using v(3) by (auto split: sum.splits)
qed

text \<open>
  C34. Registering an image is all or nothing. Where \<^verbatim>\<open>cp\<close> writes only its destination and a
  removal does not fail, a failed registration leaves every file as it was and no file under
  the image's name that was not there before; a successful one had a valid, unused id and a
  regular source, and a file at the image's path has exactly the source's length even when
  \<^verbatim>\<open>cp\<close> claims success after a short copy.
\<close>

theorem image_register_all_or_nothing:
  assumes "image_register st i source (s, f) = (r, s', f')"
    "touches_only f (Command ''cp'' [''--reflink=auto'', source, image_path_for st i] []) (image_path_for st i)"
    "\<And>ops. fs_faults f ops (OpRemoveFile (image_path_for st i)) = None"
  shows "(resolve p \<noteq> resolve (image_path_for st i) \<longrightarrow>
       (node_at p f' = node_at p f))
   \<and> (r = Inl e \<longrightarrow> image_exists st i f' \<longrightarrow>
       (image_exists st i f))
   \<and> (r = Inr q \<longrightarrow>
       (q = image_path_for st i \<and> id_chars_ok i \<and> \<not> image_exists st i f \<and> is_file source f))
   \<and> (r = Inr q \<longrightarrow> image_exists st i f' \<longrightarrow>
       (\<exists>d d' len. node_at source f = Some (FileNode d len) \<and> node_at q f' = Some (FileNode d' len)))"
proof -
  have spec: "(resolve p \<noteq> resolve (image_path_for st i) \<longrightarrow> node_at p f' = node_at p f)
     \<and> (case r of Inl e \<Rightarrow> image_exists st i f' \<longrightarrow> image_exists st i f
       | Inr q \<Rightarrow> q = image_path_for st i \<and> id_chars_ok i \<and> \<not> image_exists st i f \<and> is_file source f
           \<and> (image_exists st i f' \<longrightarrow>
                (\<exists>d d' len. node_at source f = Some (FileNode d len) \<and> node_at q f' = Some (FileNode d' len))))" for p
    by (rule image_register_spec [OF assms])
  have c1: "resolve p \<noteq> resolve (image_path_for st i) \<Longrightarrow> node_at p f' = node_at p f" using spec by simp
  have c2: "r = Inl e \<Longrightarrow> image_exists st i f' \<Longrightarrow> image_exists st i f" using spec by simp
  have c3: "r = Inr q \<Longrightarrow> q = image_path_for st i \<and> id_chars_ok i \<and> \<not> image_exists st i f \<and> is_file source f"
    using spec by simp
  have c4: "r = Inr q \<Longrightarrow> image_exists st i f' \<Longrightarrow>
       \<exists>d d' len. node_at source f = Some (FileNode d len) \<and> node_at q f' = Some (FileNode d' len)"
    using spec [of p] by auto
  show ?thesis using c1 c2 c3 c4 by blast
qed

definition short_copy_disk :: fs where
  "short_copy_disk =
     \<lparr>fs_nodes = [([''img''], DirNode), ([''base''], FileNode (replicate 1080 0 @ EXT4_MAGIC_LE) 2000)],
      fs_faults = (\<lambda>_ _. None), fs_ops = [],
      cmd_effect = (\<lambda>c ns. hm_insert [''img'', ''i.ext4''] (FileNode [] 5) ns)\<rparr>"

theorem image_register_all_or_nothing_witness:
  "\<exists>e s' f'. image_register \<lparr>image_dir = ''/img''\<rparr> ''i'' ''/base'' (sample_run, short_copy_disk) = (Inl e, s', f')
     \<and> node_at ''/base'' f' = node_at ''/base'' short_copy_disk
     \<and> \<not> image_exists \<lparr>image_dir = ''/img''\<rparr> ''i'' f'"
proof -
  let ?st = "\<lparr>image_dir = ''/img''\<rparr>"
  have p: "resolve (image_path_for ?st ''i'') = [''img'', ''i.ext4'']" "resolve ''/base'' = [''base'']" by code_simp+
  have m: "metadata ''/base'' short_copy_disk = (Inr (True, 2000), snd (fs_try (OpMetadata ''/base'') short_copy_disk))"
    by (simp add: metadata_def fs_try_def node_at_def p short_copy_disk_def hm_get_def)
  have l: "fst (looks_like_ext4 ''/base'' (snd (fs_try (OpMetadata ''/base'') short_copy_disk))) = Inr True"
    by (simp add: looks_like_ext4_def read_file_def fs_try_def node_at_def p short_copy_disk_def hm_get_def
        EXT4_SUPERBLOCK_OFFSET_def EXT4_MAGIC_OFFSET_IN_SUPERBLOCK_def EXT4_MAGIC_LE_def)
  obtain r s' f' where r0: "image_register ?st ''i'' ''/base'' (sample_run, short_copy_disk) = (r, s', f')"
    by (cases "image_register ?st ''i'' ''/base'' (sample_run, short_copy_disk)")
  obtain f2 where l2: "looks_like_ext4 ''/base'' (snd (fs_try (OpMetadata ''/base'') short_copy_disk)) = (Inr True, f2)"
    using l by (cases "looks_like_ext4 ''/base'' (snd (fs_try (OpMetadata ''/base'') short_copy_disk))") auto
  have "id_chars_ok ''i''" by code_simp
  with r0 m l2 have "\<not> is_ok r"
    using looks_like_ext4_snd [OF l2]
    by (auto simp: image_register_def image_validate_id_def image_copy_checked_def Let_def run_on_disk_def
        command_output_def sample_run_def metadata_def fs_try_def node_at_def p short_copy_disk_def
        split: if_splits option.splits)
  with r0 obtain e where r: "image_register ?st ''i'' ''/base'' (sample_run, short_copy_disk) = (Inl e, s', f')"
    by (cases r) auto
  have t: "touches_only short_copy_disk (Command ''cp'' [''--reflink=auto'', ''/base'', image_path_for ?st ''i''] []) (image_path_for ?st ''i'')"
    by (simp add: touches_only_def p short_copy_disk_def)
  have n: "\<And>ops. fs_faults short_copy_disk ops (OpRemoveFile (image_path_for ?st ''i'')) = None"
    by (simp add: short_copy_disk_def)
  have "\<not> image_exists ?st ''i'' short_copy_disk" by code_simp
  with image_register_all_or_nothing [OF r t n, of "''/base''"] r p show ?thesis by auto
qed

end
