(* ===== verification/Jailer.thy ===== *)
theory Jailer
  imports Filesystem
begin

text \<open>
  \<^verbatim>\<open>vmm/src/jailer.rs\<close>: the pool of uids for jailed VMs, the chroot layout, the resource
  limits and the jailer's argument list. The id pool is an instance of \<open>id_pool\<close>. Linking a
  resource into the chroot (hard link, or a copy across file systems, and the permission
  bits) is modelled as the sequence of calls with their early returns; inodes and
  permission bits are not part of the file-system model, so the order and the outcome of the
  calls is what is shown.
\<close>

section \<open>Ids\<close>

record jail_launch =
  jailer_bin :: string
  chroot_base_dir :: string
  jl_uid :: u32
  jl_gid :: u32

record jailer_id_pool =
  free_ids :: "u32 list"

text \<open>\<^verbatim>\<open>JailerIdPool::new\<close> of an inclusive range, empty when it is reversed.\<close>

definition jailer_pool_new :: "u32 \<Rightarrow> u32 \<Rightarrow> jailer_id_pool" where
  "jailer_pool_new lo hi = \<lparr>free_ids = map of_nat [unat lo..<Suc (unat hi)]\<rparr>"

definition jailer_available :: "jailer_id_pool \<Rightarrow> nat" where
  "jailer_available p = length (free_ids p)"

definition jailer_lease :: "jailer_id_pool \<Rightarrow> (io_error, u32) result \<times> jailer_id_pool" where
  "jailer_lease p =
     (case free_ids p of
        [] \<Rightarrow> (Inl (io_other ''no free jailer uid/gid left in the pool'' []), p)
      | i # is \<Rightarrow> (Inr i, p\<lparr>free_ids := is\<rparr>))"

definition jailer_release :: "u32 \<Rightarrow> jailer_id_pool \<Rightarrow> jailer_id_pool" where
  "jailer_release i p = p\<lparr>free_ids := free_ids p @ [i]\<rparr>"

definition jailer_acquire :: "jailer_id_pool \<Rightarrow> (u32 \<times> jailer_id_pool) option" where
  "jailer_acquire p = (case jailer_lease p of (Inl _, _) \<Rightarrow> None | (Inr i, p') \<Rightarrow> Some (i, p'))"

interpretation jail_ids: id_pool free_ids jailer_acquire jailer_release
  by unfold_locales (auto simp: jailer_acquire_def jailer_lease_def jailer_release_def split: list.splits)

section \<open>Chroot layout\<close>

definition jail_instance_id :: "u64 \<Rightarrow> string" where
  "jail_instance_id vm_id = ''sandkiln-'' @ show_nat (unat vm_id)"

text \<open>\<^verbatim>\<open>chroot_root\<close>; \<open>None\<close> is the panic of \<^verbatim>\<open>expect\<close> on a binary path without a file name.\<close>

definition chroot_root :: "string \<Rightarrow> string \<Rightarrow> string \<Rightarrow> string option" where
  "chroot_root base bin inst =
     (case file_name bin of
        None \<Rightarrow> None
      | Some exec \<Rightarrow> Some (path_join (path_join (path_join base exec) inst) ''root''))"

text \<open>\<^verbatim>\<open>Path::parent\<close> of a path that ends in a plain component, as \<open>chroot_root\<close>'s results do.\<close>

fun drop_last_component :: "string \<Rightarrow> string option" where
  "drop_last_component p =
     (case split_once (CHR ''/'') (rev p) of
        None \<Rightarrow> if p = [] then None else Some []
      | Some (_, r) \<Rightarrow> if r = [] then Some ''/'' else Some (rev r))"

definition instance_dir :: "string \<Rightarrow> string option" where
  "instance_dir root = drop_last_component root"

definition set_mode_bits :: "string \<Rightarrow> fs \<Rightarrow> (io_error, unit) result \<times> fs" where
  "set_mode_bits p f =
     (case metadata p f of
        (Inl e, f1) \<Rightarrow> (Inl e, f1)
      | (Inr _, f1) \<Rightarrow>
          (case fs_try (OpSetMode p) f1 of
             (Some e, f2) \<Rightarrow> (Inl (fault_err e), f2) | (None, f2) \<Rightarrow> (Inr (), f2)))"

definition prepare_chroot_dir :: "string \<Rightarrow> fs \<Rightarrow> (io_error, unit) result \<times> fs" where
  "prepare_chroot_dir root f =
     (case create_dir_all root f of
        (Inl e, f1) \<Rightarrow> (Inl e, f1) | (Inr _, f1) \<Rightarrow> set_mode_bits root f1)"

record jailed_path =
  jp_host_path :: string
  jp_in_jail_path :: string

text \<open>
  \<^verbatim>\<open>hard_link\<close>: the name gets the source's contents (sharing of later writes is not
  modelled); it fails when the destination exists, and with \<^verbatim>\<open>EXDEV\<close> across file systems,
  which the fault answer decides.
\<close>

definition hard_link :: "string \<Rightarrow> string \<Rightarrow> fs \<Rightarrow> (io_error, unit) result \<times> fs" where
  "hard_link a b f =
     (case fs_try (OpLink a b) f of
        (Some e, f') \<Rightarrow> (Inl (fault_err e), f')
      | (None, f') \<Rightarrow>
          (case node_at a f' of
             Some (FileNode d n) \<Rightarrow>
               if path_exists b f' then (Inl (IoError AlreadyExists (Msg ''File exists'' [])), f')
               else if can_create b f' then (Inr (), put_node b (FileNode d n) f')
               else (Inl no_entry, f')
           | _ \<Rightarrow> (Inl no_entry, f')))"

definition link_resource_into_jail :: "string \<Rightarrow> string \<Rightarrow> string \<Rightarrow> bool \<Rightarrow> fs \<Rightarrow> (io_error, jailed_path) result \<times> fs" where
  "link_resource_into_jail source root name writable f =
     (case prepare_chroot_dir root f of
        (Inl e, f1) \<Rightarrow> (Inl e, f1)
      | (Inr _, f1) \<Rightarrow>
     (let dest = path_join root name;
          f2 = snd (remove_file dest f1);
          (linked, f3) = (case hard_link source dest f2 of
                            (Inr _, g) \<Rightarrow> (Inr (), g)
                          | (Inl e, g) \<Rightarrow> if io_err_kind e = CrossesDevices then copy_file source dest g else (Inl e, g))
      in case linked of
           Inl e \<Rightarrow> (Inl e, f3)
         | Inr _ \<Rightarrow>
             (case set_mode_bits dest f3 of
                (Inl e, f4) \<Rightarrow> (Inl e, f4)
              | (Inr _, f4) \<Rightarrow> (Inr \<lparr>jp_host_path = dest, jp_in_jail_path = path_join ''/'' name\<rparr>, f4))))"

section \<open>Limits and arguments\<close>

definition VMM_OVERHEAD_MIB :: u64 where
  "VMM_OVERHEAD_MIB = 128"

definition cgroup_memory_max_bytes :: "u32 \<Rightarrow> u64" where
  "cgroup_memory_max_bytes mem_size_mib = (ucast mem_size_mib + VMM_OVERHEAD_MIB) * 1024 * 1024"

definition cgroup_cpu_max :: "u8 \<Rightarrow> string" where
  "cgroup_cpu_max vcpu_count = show_nat (unat (ucast vcpu_count * (100000::u64))) @ '' '' @ show_nat 100000"

definition cgroup_limits :: "u32 \<Rightarrow> u8 \<Rightarrow> string list" where
  "cgroup_limits mem_size_mib vcpu_count =
     [''memory.max='' @ show_nat (unat (cgroup_memory_max_bytes mem_size_mib)),
      ''cpu.max='' @ cgroup_cpu_max vcpu_count]"

definition build_jailer_args :: "jail_launch \<Rightarrow> string \<Rightarrow> string \<Rightarrow> string list \<Rightarrow> string \<Rightarrow> string list" where
  "build_jailer_args launch inst bin limits api_sock =
     [''--id'', inst, ''--exec-file'', bin, ''--uid'', show_nat (unat (jl_uid launch)),
      ''--gid'', show_nat (unat (jl_gid launch)), ''--chroot-base-dir'', chroot_base_dir launch,
      ''--cgroup-version'', ''2'']
     @ concat (map (\<lambda>l. [''--cgroup'', l]) limits)
     @ [''--'', ''--api-sock'', api_sock]"

section \<open>Lemmas\<close>

text \<open>The memory limit never wraps: the guest's memory plus 128 MiB, in bytes.\<close>

lemma cgroup_memory_max_exact: "unat (cgroup_memory_max_bytes m) = (unat m + 128) * 2 ^ 20"
proof -
  have m: "unat m < 2 ^ 32" using unsigned_less [of m, where 'a = nat] by simp
  have u: "unat (ucast m :: u64) = unat m" 
    using m by (simp add: unsigned_ucast_eq take_bit_nat_eq_self_iff)
  have "cgroup_memory_max_bytes m = (ucast m + 128) * 2 ^ 20"
    by (simp add: cgroup_memory_max_bytes_def VMM_OVERHEAD_MIB_def)
  then have "unat (cgroup_memory_max_bytes m) = (unat m + 128) mod 2 ^ 64 * 2 ^ 20 mod 2 ^ 64"
    by (simp only: unat_word_ariths u) simp
  with m show ?thesis by simp
qed

lemma distinct_u32_upt: "distinct (map of_nat [unat (lo :: u32)..<Suc (unat (hi :: u32))] :: u32 list)"
proof -
  have "unat hi < 2 ^ 32" using unsigned_less [of hi, where 'a = nat] by simp
  then have "inj_on (of_nat :: nat \<Rightarrow> u32) (set [unat lo..<Suc (unat hi)])"
    by (intro inj_on_inverseI [where g = unat]) (auto simp: unsigned_of_nat take_bit_eq_mod)
  then show ?thesis by (simp add: distinct_map)
qed

text \<open>What the jailer command line says about the uid, whatever the limits.\<close>

lemma jailer_args_uid:
  "take 12 (build_jailer_args l inst bin ls sock) =
     [''--id'', inst, ''--exec-file'', bin, ''--uid'', show_nat (unat (jl_uid l)), ''--gid'',
      show_nat (unat (jl_gid l)), ''--chroot-base-dir'', chroot_base_dir l, ''--cgroup-version'', ''2'']"
  by (simp add: build_jailer_args_def)

lemma jailer_lease_ok_iff: "is_ok (fst (jailer_lease p)) \<longleftrightarrow> free_ids p \<noteq> []"
  by (simp add: jailer_lease_def split: list.splits)

section \<open>Uids over time\<close>

inductive jail_step :: "jailer_id_pool \<times> u32 list \<Rightarrow> jailer_id_pool \<times> u32 list \<Rightarrow> bool" where
  jail_lease: "jailer_lease p = (Inr i, p') \<Longrightarrow> jail_step (p, held) (p', i # held)"
| jail_refused: "jailer_lease p = (Inl e, p') \<Longrightarrow> jail_step (p, held) (p', held)"
| jail_release: "jail_step (p, held1 @ i # held2) (jailer_release i p, held1 @ held2)"

abbreviation jail_reach :: "jailer_id_pool \<Rightarrow> jailer_id_pool \<times> u32 list \<Rightarrow> bool" where
  "jail_reach p0 x \<equiv> jail_step\<^sup>*\<^sup>* (p0, []) x"

definition jail_inv :: "jailer_id_pool \<Rightarrow> jailer_id_pool \<times> u32 list \<Rightarrow> bool" where
  "jail_inv p0 x \<longleftrightarrow> mset (free_ids (fst x)) + mset (snd x) = mset (free_ids p0)"

lemma jail_inv_step: "jail_step x y \<Longrightarrow> jail_inv p0 x \<Longrightarrow> jail_inv p0 y"
  by (induction rule: jail_step.induct)
     (auto simp: jail_inv_def jailer_lease_def jailer_release_def split: list.splits)

interpretation jail_leases: step_invariant jail_step "jail_inv p0"
  by unfold_locales (rule jail_inv_step)

lemma jail_inv_reach: "jail_reach p0 x \<Longrightarrow> jail_inv p0 x"
  by (erule jail_leases.steps_inv) (simp add: jail_inv_def)

section \<open>Properties\<close>

text \<open>
  C35. Concurrent jailed VMs never share a uid: from a pool over any range, after any leases,
  refusals and releases, the held ids are pairwise distinct, none of them is available,
  all lie in the range, and a lease is refused only when every id of the range is held.
\<close>

theorem jailer_uids_exclusive:
  assumes "jail_reach (jailer_pool_new lo hi) (p, held)"
  shows "(distinct (held @ free_ids p))
   \<and> (\<forall>i \<in> set held. lo \<le> i \<and> i \<le> hi)
   \<and> (length held + jailer_available p = length [unat lo..<Suc (unat hi)])
   \<and> (is_ok (fst (jailer_lease p)) \<longleftrightarrow> length held < length [unat lo..<Suc (unat hi)])"
proof -
  have inv: "mset (free_ids p) + mset held = mset (map of_nat [unat lo..<Suc (unat hi)])"
    using jail_inv_reach [OF assms] by (simp only: jail_inv_def fst_conv snd_conv jailer_pool_new_def jailer_id_pool.simps)
  then have eq: "mset (held @ free_ids p) = mset (map of_nat [unat lo..<Suc (unat hi)])"
    by (simp only: mset_append union_commute)
  have c1: "distinct (held @ free_ids p)"
    using mset_eq_imp_distinct_iff [OF eq] distinct_u32_upt by simp
  have "set (held @ free_ids p) = of_nat ` {unat lo..<Suc (unat hi)}"
    using mset_eq_setD [OF eq] by (simp only: set_map set_upt)
  moreover have "lo \<le> of_nat n \<and> of_nat n \<le> hi" if "n \<in> {unat lo..<Suc (unat hi)}" for n
  proof -
    have "unat hi < 2 ^ 32" using unsigned_less [of hi, where 'a = nat] by simp
    with that have "unat (of_nat n :: u32) = n" by (simp add: unsigned_of_nat take_bit_eq_mod)
    with that show ?thesis by (simp add: word_le_nat_alt)
  qed
  ultimately have "lo \<le> i \<and> i \<le> hi" if "i \<in> set (held @ free_ids p)" for i
    using that by fastforce
  then have c3: "\<forall>i \<in> set held. lo \<le> i \<and> i \<le> hi" by simp
  have len: "length held + length (free_ids p) = length [unat lo..<Suc (unat hi)]"
    using mset_eq_length [OF eq] by simp
  then have c4: "length held + jailer_available p = length [unat lo..<Suc (unat hi)]"
    by (simp add: jailer_available_def)
  have c2: "is_ok (fst (jailer_lease p)) \<longleftrightarrow> length held < length [unat lo..<Suc (unat hi)]"
    unfolding jailer_lease_ok_iff len [symmetric] by simp
  show ?thesis using c1 c2 c3 c4 by blast
qed

theorem jailer_uids_exclusive_witness:
  "\<exists>p. jail_reach (jailer_pool_new 600000 600001) (p, [600001, 600000]) \<and> jailer_available p = 0"
proof -
  let ?p0 = "jailer_pool_new 600000 600001"
  have ids: "free_ids ?p0 = [600000, 600001]"
    by (simp add: jailer_pool_new_def upt_conv_Cons del: upt_Suc)
  have 1: "jail_step (?p0, []) (?p0\<lparr>free_ids := [600001]\<rparr>, [600000])"
    by (rule jail_lease) (simp add: jailer_lease_def ids)
  have 2: "jail_step (?p0\<lparr>free_ids := [600001]\<rparr>, [600000]) (?p0\<lparr>free_ids := []\<rparr>, [600001, 600000])"
    by (rule jail_lease) (simp add: jailer_lease_def)
  have r: "jail_reach ?p0 (?p0\<lparr>free_ids := []\<rparr>, [600001, 600000])"
    by (rule run_step, rule run_one, rule 1, rule 2)
  have "[unat (600000::u32)..<Suc (unat (600001::u32))] = [600000, 600001]"
    by (simp add: upt_conv_Cons del: upt_Suc)
  then show ?thesis using jailer_uids_exclusive [OF r] r by auto
qed

end
