(* ===== verification/Pools.thy ===== *)
theory Pools
  imports Host
begin

text \<open>
  \<^verbatim>\<open>daemon/src/pool.rs\<close> and the resolution half of \<^verbatim>\<open>pool_claim.rs\<close>: a pool's warm queue and
  its count of live instances, and what a create request resolves to. A critical section on
  \<^verbatim>\<open>AppState::pools\<close> is one function on the map of pools; waiting on the pool's \<^verbatim>\<open>Notify\<close> is
  a sequence of observations (the pools as the next lock acquisition finds them, and the time).
  Waking is not modelled: the code re-checks on every wake.
\<close>

section \<open>State\<close>

record pool_key =
  pk_image_id :: "string option"
  pk_vcpu_count :: u8
  pk_mem_size_mib :: u32

record pool_config =
  pc_id :: string
  pc_image_id :: "string option"
  pc_vcpu_count :: u8
  pc_mem_size_mib :: u32
  warm_count :: u32
  max_count :: "u32 option"

definition pool_config_key :: "pool_config \<Rightarrow> pool_key" where
  "pool_config_key c =
     \<lparr>pk_image_id = pc_image_id c, pk_vcpu_count = pc_vcpu_count c, pk_mem_size_mib = pc_mem_size_mib c\<rparr>"

record pool =
  pool_conf :: pool_config
  warm :: "string list"
  claimed :: u32

definition pool_new :: "pool_config \<Rightarrow> pool" where
  "pool_new c = \<lparr>pool_conf = c, warm = [], claimed = 0\<rparr>"

section \<open>Operations\<close>

definition warm_ready :: "pool \<Rightarrow> nat" where
  "warm_ready p = length (warm p)"

definition claimed_count :: "pool \<Rightarrow> u32" where
  "claimed_count p = claimed p"

definition effective_warm_target :: "pool \<Rightarrow> u32" where
  "effective_warm_target p =
     (case max_count (pool_conf p) of
        Some m \<Rightarrow> min (warm_count (pool_conf p)) (saturating_sub m (claimed p))
      | None \<Rightarrow> warm_count (pool_conf p))"

definition needs_replenish :: "pool \<Rightarrow> bool" where
  "needs_replenish p = (of_nat (length (warm p)) < effective_warm_target p)"

definition push_warm :: "string \<Rightarrow> pool \<Rightarrow> pool" where
  "push_warm sid p = p\<lparr>warm := warm p @ [sid]\<rparr>"

definition take_warm :: "pool \<Rightarrow> (string \<times> pool) option" where
  "take_warm p = (case warm p of [] \<Rightarrow> None | s # ss \<Rightarrow> Some (s, p\<lparr>warm := ss\<rparr>))"

definition has_room_for_new_claim :: "pool \<Rightarrow> bool" where
  "has_room_for_new_claim p = (case max_count (pool_conf p) of None \<Rightarrow> True | Some m \<Rightarrow> claimed p < m)"

definition record_claim :: "pool \<Rightarrow> pool" where
  "record_claim p = p\<lparr>claimed := claimed p + 1\<rparr>"

definition record_release :: "pool \<Rightarrow> pool" where
  "record_release p = p\<lparr>claimed := saturating_sub (claimed p) 1\<rparr>"

type_synonym pools = "pool hash_map"

datatype pool_claim = Warm string string | NoPool | ColdSlot string

text \<open>
  One pass of the loop under the lock: the first pool with the request's key. \<open>None\<close>: it is at
  capacity with nothing warm, the caller waits. The pool goes back under its own map key.
\<close>

definition find_pool :: "pool_key \<Rightarrow> pools \<Rightarrow> (string \<times> pool) option" where
  "find_pool key ps = find (\<lambda>(i, p). pool_config_key (pool_conf p) = key) ps"

definition resolve_once :: "pool_key \<Rightarrow> pools \<Rightarrow> (pool_claim \<times> pools) option" where
  "resolve_once key ps =
     (case find_pool key ps of
        None \<Rightarrow> Some (NoPool, ps)
      | Some (i, p) \<Rightarrow>
     (case take_warm p of
        Some (sid, p') \<Rightarrow> Some (Warm (pc_id (pool_conf p)) sid, hm_modify i (\<lambda>_. record_claim p') ps)
      | None \<Rightarrow>
          if has_room_for_new_claim p
          then Some (ColdSlot (pc_id (pool_conf p)), hm_modify i (\<lambda>_. record_claim p) ps)
          else None))"

definition POOL_QUEUE_TIMEOUT :: nat where
  "POOL_QUEUE_TIMEOUT = 30000"

definition MAX_POOL_CLAIM_ATTEMPTS :: nat where
  "MAX_POOL_CLAIM_ATTEMPTS = 3"

datatype claim_outcome = Resolved pool_claim pools | QueueTimeout | StillWaiting

text \<open>
  \<^verbatim>\<open>resolve_pool_claim\<close>: each element is what one pass of the loop finds, the pools under the
  lock and the time (in ms) read after it.
\<close>

fun resolve_loop :: "pool_key \<Rightarrow> nat \<Rightarrow> (pools \<times> nat) list \<Rightarrow> claim_outcome" where
  "resolve_loop key deadline [] = StillWaiting"
| "resolve_loop key deadline ((ps, now) # obs) =
     (case resolve_once key ps of
        Some (c, ps') \<Rightarrow> Resolved c ps'
      | None \<Rightarrow> if deadline \<le> now then QueueTimeout else resolve_loop key deadline obs)"

definition resolve_pool_claim :: "pool_key \<Rightarrow> nat \<Rightarrow> (pools \<times> nat) list \<Rightarrow> claim_outcome" where
  "resolve_pool_claim key started obs = resolve_loop key (started + POOL_QUEUE_TIMEOUT) obs"

text \<open>\<^verbatim>\<open>PoolClaimGuard::drop\<close>, not committed: the slot goes back if the pool still exists.\<close>

definition release_slot :: "string option \<Rightarrow> pools \<Rightarrow> pools" where
  "release_slot pid ps = (case pid of None \<Rightarrow> ps | Some i \<Rightarrow> hm_modify i record_release ps)"

definition claim_guard_drop :: "bool \<Rightarrow> string option \<Rightarrow> pools \<Rightarrow> pools" where
  "claim_guard_drop committed pid ps = (if committed then ps else release_slot pid ps)"

section \<open>The warm queue as a FIFO pool\<close>

interpretation warm_queue: id_pool warm take_warm push_warm
  by unfold_locales (auto simp: take_warm_def push_warm_def split: list.splits)

section \<open>Claims over time\<close>

text \<open>
  The events on one pool, with a ghost count of the claims that are out (sandboxes that own
  a slot and guards not yet dropped): a warm or a cold claim as \<open>resolve_once\<close> makes them, the
  release of one that is out, and the replenisher's push, which may come at any time.
\<close>

inductive pool_step :: "pool \<times> nat \<Rightarrow> pool \<times> nat \<Rightarrow> bool" where
  warm_claim: "take_warm p = Some (sid, p') \<Longrightarrow> pool_step (p, n) (record_claim p', Suc n)"
| cold_claim: "take_warm p = None \<Longrightarrow> has_room_for_new_claim p \<Longrightarrow> pool_step (p, n) (record_claim p, Suc n)"
| released: "pool_step (p, Suc n) (record_release p, n)"
| pushed: "pool_step (p, n) (push_warm sid p, n)"

inductive_cases pool_stepE: "pool_step x y"

abbreviation pool_reach :: "pool \<times> nat \<Rightarrow> pool \<times> nat \<Rightarrow> bool" where
  "pool_reach \<equiv> pool_step\<^sup>*\<^sup>*"

lemma take_warm_keeps: "take_warm p = Some (sid, p') \<Longrightarrow> pool_conf p' = pool_conf p \<and> claimed p' = claimed p"
  by (auto simp: take_warm_def split: list.splits)

lemma pool_op_simps [simp]:
  "pool_conf (record_claim p) = pool_conf p" "pool_conf (record_release p) = pool_conf p"
  "pool_conf (push_warm s p) = pool_conf p" "claimed (push_warm s p) = claimed p"
  "warm (record_claim p) = warm p" "warm (record_release p) = warm p"
  by (simp_all add: record_claim_def record_release_def push_warm_def)

lemma claimed_record_claim: "unat (claimed p) < 2 ^ 32 - 1 \<Longrightarrow> unat (claimed (record_claim p)) = Suc (unat (claimed p))"
  by (simp add: record_claim_def unat_word_ariths)

lemma claimed_record_release: "unat (claimed (record_release p)) = unat (claimed p) - 1"
  by (simp add: record_release_def unat_saturating_sub)

lemma pool_step_conf: "pool_step x y \<Longrightarrow> pool_conf (fst y) = pool_conf (fst x)"
  by (induction rule: pool_step.induct) (auto dest: take_warm_keeps)

text \<open>The count is exact as long as fewer than \<^verbatim>\<open>2^32\<close> claims are out at once.\<close>

definition exact :: "pool \<times> nat \<Rightarrow> bool" where
  "exact x \<longleftrightarrow> unat (claimed (fst x)) = snd x"

lemma exact_step: "pool_step x y \<Longrightarrow> exact x \<Longrightarrow> snd y < 2 ^ 32 \<Longrightarrow> exact y"
  by (induction rule: pool_step.induct)
     (auto simp: exact_def claimed_record_claim claimed_record_release dest: take_warm_keeps)

lemma resolve_once_pool:
  assumes "hm_wf ps" "resolve_once key ps = Some (c, ps')"
  shows "case c of
      NoPool \<Rightarrow> ps' = ps \<and> (\<forall>p \<in> set (hm_values ps). pool_config_key (pool_conf p) \<noteq> key)
    | Warm pid sid \<Rightarrow> \<exists>i p. hm_get i ps = Some p \<and> pid = pc_id (pool_conf p)
        \<and> pool_config_key (pool_conf p) = key \<and> warm p \<noteq> [] \<and> sid = hd (warm p)
        \<and> hm_get i ps' = Some (record_claim (p\<lparr>warm := tl (warm p)\<rparr>))
        \<and> (\<forall>j. j \<noteq> i \<longrightarrow> hm_get j ps' = hm_get j ps)
    | ColdSlot pid \<Rightarrow> \<exists>i p. hm_get i ps = Some p \<and> pid = pc_id (pool_conf p)
        \<and> pool_config_key (pool_conf p) = key \<and> warm p = [] \<and> has_room_for_new_claim p
        \<and> hm_get i ps' = Some (record_claim p) \<and> (\<forall>j. j \<noteq> i \<longrightarrow> hm_get j ps' = hm_get j ps)"
proof (cases "find_pool key ps")
  case None
  then have "c = NoPool" "ps' = ps" using assms(2) by (simp_all add: resolve_once_def)
  moreover have "\<forall>p \<in> set (hm_values ps). pool_config_key (pool_conf p) \<noteq> key"
    using None unfolding find_pool_def find_None_iff hm_values_def by fastforce
  ultimately show ?thesis by simp
next
  case (Some ip)
  obtain i p where ip: "ip = (i, p)" by (cases ip)
  have "(i, p) \<in> set ps" and k: "pool_config_key (pool_conf p) = key"
    using Some ip by (auto simp: find_pool_def find_Some_iff) (metis nth_mem)
  then have get: "hm_get i ps = Some p" using hm_in_get [OF assms(1)] by simp
  show ?thesis
  proof (cases "warm p")
    case Nil
    then have "c = ColdSlot (pc_id (pool_conf p))" "has_room_for_new_claim p"
      "ps' = hm_modify i (\<lambda>_. record_claim p) ps"
      using assms(2) Some ip by (auto simp: resolve_once_def take_warm_def split: if_splits)
    then show ?thesis using Nil get k by auto
  next
    case (Cons s ss)
    then have "c = Warm (pc_id (pool_conf p)) s" "ps' = hm_modify i (\<lambda>_. record_claim (p\<lparr>warm := ss\<rparr>)) ps"
      using assms(2) Some ip by (auto simp: resolve_once_def take_warm_def)
    then show ?thesis using Cons get k by (auto intro!: exI [of _ i])
  qed
qed

lemma release_slot_get [simp]:
  "hm_get i (release_slot pid ps) = (if pid = Some i then map_option record_release (hm_get i ps) else hm_get i ps)"
  by (auto simp: release_slot_def split: option.splits)

lemma release_slot_wf [simp]: "hm_wf (release_slot pid ps) = hm_wf ps"
  by (simp add: release_slot_def split: option.splits)

section \<open>Properties\<close>

abbreviation counted_reach :: "pool \<Rightarrow> pool \<times> nat \<Rightarrow> bool" where
  "counted_reach p0 x \<equiv> (\<lambda>x y. pool_step x y \<and> snd y < 2 ^ 32)\<^sup>*\<^sup>* (p0, 0) x"

interpretation claims: step_invariant "\<lambda>x y. pool_step x y \<and> snd y < 2 ^ 32" "\<lambda>x. exact x \<and> pool_conf (fst x) = c"
  by unfold_locales (auto intro: exact_step dest: pool_step_conf)

lemma counted_exact: "counted_reach (pool_new c) x \<Longrightarrow> exact x \<and> pool_conf (fst x) = c"
  by (erule claims.steps_inv) (simp add: exact_def pool_new_def)

lemma needs_replenish_room:
  assumes "needs_replenish p" "max_count (pool_conf p) = Some m" "length (warm p) < 2 ^ 32"
  shows "length (warm p) + unat (claimed p) < unat m"
proof -
  have "of_nat (length (warm p)) < saturating_sub m (claimed p)"
    using assms(1,2) by (simp add: needs_replenish_def effective_warm_target_def)
  then have "unat (of_nat (length (warm p)) :: u32) < unat m - unat (claimed p)"
    by (simp add: word_less_nat_alt unat_saturating_sub)
  moreover have "unat (of_nat (length (warm p)) :: u32) = length (warm p)"
    using assms(3) by (simp add: unsigned_of_nat take_bit_nat_eq_self_iff)
  ultimately show ?thesis by linarith
qed


definition sample_pool_config :: pool_config where
  "sample_pool_config =
     \<lparr>pc_id = ''p'', pc_image_id = None, pc_vcpu_count = 1, pc_mem_size_mib = 128, warm_count = 1, max_count = Some 1\<rparr>"

lemma sample_pool_simps:
  "take_warm (pool_new sample_pool_config) = None" "has_room_for_new_claim (pool_new sample_pool_config)"
  by (simp_all add: take_warm_def pool_new_def has_room_for_new_claim_def sample_pool_config_def)



end
