(* ===== verification/History.thy ===== *)
theory History
  imports Host
begin

text \<open>
  \<^verbatim>\<open>store/src/lib.rs\<close>: the durable sandbox history. The table is the list of its rows; each
  method is its SQL statement on that list. SQLite itself is not under src/: \<open>db_fault\<close> makes
  any statement fail, a primary-key clash makes an insert fail, and \<^verbatim>\<open>ORDER BY\<close> is a stable sort
  (rows with equal keys may come in any order in SQLite; no lemma depends on it). The JSON text
  of the tags goes through the parameters \<open>tags_print\<close> and \<open>tags_parse\<close> (\<^verbatim>\<open>serde_json\<close>). Times
  are nanoseconds relative to the epoch. Opening the file and its pragmas are not modelled.
\<close>

section \<open>State\<close>

datatype end_reason = Destroyed | Snapshotted | OrphanedByRestart

definition end_reason_str :: "end_reason \<Rightarrow> string" where
  "end_reason_str r =
     (case r of Destroyed \<Rightarrow> ''destroyed'' | Snapshotted \<Rightarrow> ''snapshotted'' | OrphanedByRestart \<Rightarrow> ''orphaned_by_restart'')"

type_synonym tags = "string hash_map"

record history_row =
  row_id :: string
  row_name :: "string option"
  row_tags_json :: string
  row_image_id :: "string option"
  row_created_at :: int
  row_ended_at :: "int option"
  row_end_reason :: "string option"
  row_final_snapshot_id :: "string option"

record history_record =
  hr_id :: string
  hr_name :: "string option"
  hr_tags :: tags
  hr_image_id :: "string option"
  hr_created_at_unix :: u64
  hr_ended_at_unix :: "u64 option"
  hr_end_reason :: "string option"
  hr_final_snapshot_id :: "string option"

record history_filter =
  live_only :: "bool option"
  hf_limit :: "u32 option"

definition DEFAULT_LIST_LIMIT :: u32 where
  "DEFAULT_LIST_LIMIT = 100"

record history_store =
  hist_rows :: "history_row list"
  db_fault :: "history_row list \<Rightarrow> bool"
  tags_print :: "tags \<Rightarrow> string"
  tags_parse :: "string \<Rightarrow> tags option"

abbreviation db_error :: message where
  "db_error \<equiv> Msg ''sqlite error'' []"

section \<open>Operations\<close>

text \<open>\<^verbatim>\<open>duration_since(UNIX_EPOCH).unwrap_or_default().as_secs() as i64\<close>: 0 before the epoch.\<close>

definition unix_secs :: "int \<Rightarrow> int" where
  "unix_secs t = (if t < 0 then 0 else t div 1000000000)"

definition record_created :: "history_store \<Rightarrow> string \<Rightarrow> string option \<Rightarrow> tags \<Rightarrow> string option \<Rightarrow> int \<Rightarrow>
    (message, unit) result \<times> history_store" where
  "record_created st i name tg img created_at =
     (if db_fault st (hist_rows st) \<or> i \<in> row_id ` set (hist_rows st) then (Inl db_error, st)
      else (Inr (), st\<lparr>hist_rows := hist_rows st @
        [\<lparr>row_id = i, row_name = name, row_tags_json = tags_print st tg, row_image_id = img,
          row_created_at = unix_secs created_at, row_ended_at = None, row_end_reason = None,
          row_final_snapshot_id = None\<rparr>]\<rparr>))"

definition record_ended :: "history_store \<Rightarrow> string \<Rightarrow> int \<Rightarrow> end_reason \<Rightarrow> string option \<Rightarrow>
    (message, unit) result \<times> history_store" where
  "record_ended st i ended_at reason snap =
     (if db_fault st (hist_rows st) then (Inl db_error, st)
      else (Inr (), st\<lparr>hist_rows := map (\<lambda>r. if row_id r = i
        then r\<lparr>row_ended_at := Some (unix_secs ended_at), row_end_reason := Some (end_reason_str reason),
               row_final_snapshot_id := snap\<rparr> else r) (hist_rows st)\<rparr>))"

definition mark_unended_as_orphaned_on_startup :: "history_store \<Rightarrow> int \<Rightarrow> (message, nat) result \<times> history_store" where
  "mark_unended_as_orphaned_on_startup st now =
     (if db_fault st (hist_rows st) then (Inl db_error, st)
      else (Inr (length (filter (\<lambda>r. row_ended_at r = None) (hist_rows st))),
        st\<lparr>hist_rows := map (\<lambda>r. if row_ended_at r = None
          then r\<lparr>row_ended_at := Some (unix_secs now), row_end_reason := Some (end_reason_str OrphanedByRestart)\<rparr>
          else r) (hist_rows st)\<rparr>))"

definition row_to_record :: "history_store \<Rightarrow> history_row \<Rightarrow> history_record" where
  "row_to_record st r =
     \<lparr>hr_id = row_id r, hr_name = row_name r,
      hr_tags = (case tags_parse st (row_tags_json r) of None \<Rightarrow> [] | Some t \<Rightarrow> t),
      hr_image_id = row_image_id r, hr_created_at_unix = of_int (row_created_at r),
      hr_ended_at_unix = map_option of_int (row_ended_at r), hr_end_reason = row_end_reason r,
      hr_final_snapshot_id = row_final_snapshot_id r\<rparr>"

definition history_get :: "history_store \<Rightarrow> string \<Rightarrow> (message, history_record option) result" where
  "history_get st i =
     (if db_fault st (hist_rows st) then Inl db_error
      else Inr (map_option (row_to_record st) (find (\<lambda>r. row_id r = i) (hist_rows st))))"

definition row_matches :: "history_filter \<Rightarrow> history_row \<Rightarrow> bool" where
  "row_matches f r =
     (case live_only f of None \<Rightarrow> True | Some True \<Rightarrow> row_ended_at r = None | Some False \<Rightarrow> row_ended_at r \<noteq> None)"

definition history_list :: "history_store \<Rightarrow> history_filter \<Rightarrow> (message, history_record list) result" where
  "history_list st f =
     (if db_fault st (hist_rows st) then Inl db_error
      else (let lim = (case hf_limit f of None \<Rightarrow> DEFAULT_LIST_LIMIT | Some l \<Rightarrow> l) in
        Inr (map (row_to_record st)
          (take (unat lim) (sort_key (\<lambda>r. - row_created_at r) (filter (row_matches f) (hist_rows st)))))))"

section \<open>Lemmas\<close>

definition hist_wf :: "history_store \<Rightarrow> bool" where
  "hist_wf st \<longleftrightarrow> distinct (map row_id (hist_rows st)) \<and>
     (\<forall>r \<in> set (hist_rows st). row_ended_at r = None \<longleftrightarrow> row_end_reason r = None)"

lemma record_created_wf: "hist_wf st \<Longrightarrow> hist_wf (snd (record_created st i n t im c))"
  by (auto simp: hist_wf_def record_created_def)

lemma map_keeps_wf:
  assumes "hist_wf st" "\<And>r. row_id (g r) = row_id r"
    "\<And>r. r \<in> set (hist_rows st) \<Longrightarrow> row_ended_at (g r) = None \<longleftrightarrow> row_end_reason (g r) = None"
  shows "hist_wf (st\<lparr>hist_rows := map g (hist_rows st)\<rparr>)"
  using assms by (auto simp: hist_wf_def comp_def)

lemma record_ended_wf: "hist_wf st \<Longrightarrow> hist_wf (snd (record_ended st i e r s))"
  unfolding record_ended_def by (simp, intro impI map_keeps_wf) (auto simp: hist_wf_def)

lemma mark_wf: "hist_wf st \<Longrightarrow> hist_wf (snd (mark_unended_as_orphaned_on_startup st now))"
  unfolding mark_unended_as_orphaned_on_startup_def by (simp, intro impI map_keeps_wf) (auto simp: hist_wf_def)

lemma find_row_map:
  assumes "\<And>r. row_id (g r) = row_id r"
  shows "find (\<lambda>r. row_id r = i) (map g rows) = map_option g (find (\<lambda>r. row_id r = i) rows)"
  using assms by (induction rows) auto

lemma find_row_append:
  "i \<notin> row_id ` set rows \<Longrightarrow> find (\<lambda>r. row_id r = i) (rows @ [x]) = (if row_id x = i then Some x else None)"
  by (induction rows) auto

lemma sorted_take_split:
  assumes "sorted (map k xs)" "x \<in> set xs" "x \<notin> set (take n xs)" "y \<in> set (take n xs)"
  shows "k y \<le> k (x :: 'a) \<and> length (take n xs) = n"
proof -
  have *: "x \<in> set (drop n xs)" using assms(2,3) by (metis Un_iff append_take_drop_id set_append)
  have "sorted (map k (take n xs) @ map k (drop n xs))"
    using assms(1) by (metis append_take_drop_id map_append)
  moreover from \<open>x \<in> set (drop n xs)\<close> have "n < length xs" by (metis drop_all empty_iff empty_set linorder_not_less)
  ultimately show ?thesis using assms(4) * by (auto simp: sorted_append)
qed

section \<open>Properties\<close>


definition sample_store :: history_store where
  "sample_store = \<lparr>hist_rows = [], db_fault = (\<lambda>_. False), tags_print = (\<lambda>t. concat (map fst t)),
     tags_parse = (\<lambda>s. if s = [] then Some [] else None)\<rparr>"


text \<open>
  A listing holds at most the limit (100 by default), newest first, only records that pass
  the filter; and when a matching record is left out, the listing is full and no listed record
  is older than it.
\<close>

theorem history_list_newest:
  assumes "history_list st f = Inr out"
    "lim = unat (case hf_limit f of None \<Rightarrow> 100 | Some l \<Rightarrow> l)"
  shows "\<exists>rows. out = map (row_to_record st) rows \<and> length rows \<le> lim
     \<and> sorted (map (\<lambda>r. - row_created_at r) rows)
     \<and> (\<forall>r \<in> set rows. r \<in> set (hist_rows st) \<and> row_matches f r)
     \<and> (\<forall>r \<in> set (hist_rows st). row_matches f r \<and> r \<notin> set rows \<longrightarrow>
          length rows = lim \<and> (\<forall>r' \<in> set rows. row_created_at r \<le> row_created_at r'))"
proof -
  define sr where "sr = sort_key (\<lambda>r. - row_created_at r) (filter (row_matches f) (hist_rows st))"
  have set_sr: "set sr = {r \<in> set (hist_rows st). row_matches f r}" by (simp add: sr_def)
  have sorted: "sorted (map (\<lambda>r. - row_created_at r) sr)" unfolding sr_def by (rule sorted_sort_key)
  have out: "out = map (row_to_record st) (take lim sr)"
    using assms unfolding sr_def
    by (cases "hf_limit f") (auto simp: history_list_def DEFAULT_LIST_LIMIT_def Let_def split: if_splits)
  have left_out: "length (take lim sr) = lim \<and> (\<forall>r' \<in> set (take lim sr). row_created_at r \<le> row_created_at r')"
    if "r \<in> set sr" "r \<notin> set (take lim sr)" for r
  proof -
    have "lim < length sr" using that by (metis linorder_not_less take_all)
    moreover have "- row_created_at r' \<le> - row_created_at r" if "r' \<in> set (take lim sr)" for r'
      using sorted_take_split [OF sorted \<open>r \<in> set sr\<close> \<open>r \<notin> set (take lim sr)\<close> that] by simp
    ultimately show ?thesis by simp
  qed
  have "sorted (map (\<lambda>r. - row_created_at r) (take lim sr))"
    using sorted_wrt_take [OF sorted, of lim] by (simp add: take_map)
  moreover have "\<forall>r \<in> set (take lim sr). r \<in> set (hist_rows st) \<and> row_matches f r"
    using set_take_subset [of lim sr] set_sr by blast
  moreover have "\<forall>r \<in> set (hist_rows st). row_matches f r \<and> r \<notin> set (take lim sr) \<longrightarrow>
      length (take lim sr) = lim \<and> (\<forall>r' \<in> set (take lim sr). row_created_at r \<le> row_created_at r')"
    using left_out set_sr by blast
  moreover have "length (take lim sr) \<le> lim" by simp
  ultimately show ?thesis using out by blast
qed

theorem history_list_newest_witness:
  "\<exists>out rows. history_list sample_store \<lparr>live_only = Some True, hf_limit = None\<rparr> = Inr out
     \<and> out = map (row_to_record sample_store) rows \<and> length rows \<le> 100"
proof -
  have l: "history_list sample_store \<lparr>live_only = Some True, hf_limit = None\<rparr> = Inr []"
    by (simp add: history_list_def sample_store_def Let_def)
  from history_list_newest [OF l refl] l show ?thesis by auto
qed

end
