(* ===== verification/Protocol.thy ===== *)
theory Protocol
  imports Host "HOL-Library.Monad_Syntax" "HOL-Library.Countable"
begin

text \<open>
  \<^verbatim>\<open>protocol/src\<close>: the frames between daemon and guest agent and the messages in them. A
  frame is a 4-byte little-endian length and the payload; a stream is the list of its
  remaining bytes. A message is encoded to a JSON value exactly as its \<^verbatim>\<open>serde\<close> attributes say
  (tag field, snake-case variant names, field defaults); the JSON text is \<^verbatim>\<open>serde_json\<close>'s
  business, so printing and parsing of a value are parameters of the codecs. What every message type
  owes the rest, that its value is read back and that it survives the frames, is stated once
  (\<open>json_type\<close>, \<open>wire_type\<close>).
\<close>

section \<open>Frames\<close>

definition MAX_MESSAGE_LEN :: u32 where
  "MAX_MESSAGE_LEN = 64 * 1024 * 1024"

definition to_le_bytes :: "u32 \<Rightarrow> u8 list" where
  "to_le_bytes n = map (\<lambda>i. ucast (drop_bit (8 * i) n)) [0, 1, 2, 3]"

definition from_le_bytes :: "u8 list \<Rightarrow> u32" where
  "from_le_bytes bs = foldr (\<lambda>b acc. ucast b + 256 * acc) bs 0"

abbreviation eof_error :: io_error where
  "eof_error \<equiv> IoError UnexpectedEof (Msg ''failed to fill whole buffer'' [])"

definition read_exact :: "nat \<Rightarrow> u8 list \<Rightarrow> (io_error, u8 list \<times> u8 list) result" where
  "read_exact n s = (if length s < n then Inl eof_error else Inr (take n s, drop n s))"

definition read_message :: "u8 list \<Rightarrow> (io_error, u8 list \<times> u8 list) result" where
  "read_message s =
     (case read_exact 4 s of
        Inl e \<Rightarrow> Inl e
      | Inr (len_buf, s1) \<Rightarrow>
          (let len = from_le_bytes len_buf in
           if MAX_MESSAGE_LEN < len then Inl (IoError InvalidData (Msg ''message too large'' []))
           else read_exact (unat len) s1))"

text \<open>\<^verbatim>\<open>payload.len() as u32\<close> truncates; the maximum is not checked on this side.\<close>

definition write_message :: "u8 list \<Rightarrow> u8 list" where
  "write_message payload = to_le_bytes (of_nat (length payload)) @ payload"

section \<open>Messages\<close>

datatype json = JNull | JBool bool | JNum int | JStr string | JArr "json list" | JObj "(string \<times> json) list"

datatype request =
    Exec string "string list" "string hash_map"
  | ReadFile string
  | WriteFile string string
  | ListDir string
  | Chmod string u32
  | Chown string u32 u32
  | Mkdir string bool
  | Rename string string
  | Copy string string
  | Symlink string string
  | Readlink string
  | Truncate string u64
  | StartTunnel string u16
  | StopTunnel string

record dir_entry =
  de_name :: string
  de_is_dir :: bool
  de_is_symlink :: bool
  de_size :: u64
  de_mode :: u32
  de_mtime_unix :: u64

record pty_handshake =
  cols :: u16
  pty_rows :: u16

record exec_stream_handshake =
  es_command :: string
  es_args :: "string list"
  es_env :: "string hash_map"

datatype exec_stream_event = Stdout string | Stderr string | Exit int

record tunnel_open =
  to_tunnel_id :: string
  to_conn_id :: string

datatype response =
    RExec string string int
  | RFile string
  | RDir "dir_entry list"
  | RLink string
  | ROk
  | RError string

section \<open>Encoding\<close>

definition jword :: "'a::len word \<Rightarrow> json" where
  "jword w = JNum (uint w)"

definition jmap :: "string hash_map \<Rightarrow> json" where
  "jmap m = JObj (map (\<lambda>(k, v). (k, JStr v)) m)"

definition jtagged :: "string \<Rightarrow> string \<Rightarrow> (string \<times> json) list \<Rightarrow> json" where
  "jtagged tag name kvs = JObj ((tag, JStr name) # kvs)"

fun request_json :: "request \<Rightarrow> json" where
  "request_json (Exec c as env) =
     jtagged ''cmd'' ''exec'' [(''command'', JStr c), (''args'', JArr (map JStr as)), (''env'', jmap env)]"
| "request_json (ReadFile p) = jtagged ''cmd'' ''read_file'' [(''path'', JStr p)]"
| "request_json (WriteFile p c) = jtagged ''cmd'' ''write_file'' [(''path'', JStr p), (''content_base64'', JStr c)]"
| "request_json (ListDir p) = jtagged ''cmd'' ''list_dir'' [(''path'', JStr p)]"
| "request_json (Chmod p m) = jtagged ''cmd'' ''chmod'' [(''path'', JStr p), (''mode'', jword m)]"
| "request_json (Chown p u g) = jtagged ''cmd'' ''chown'' [(''path'', JStr p), (''uid'', jword u), (''gid'', jword g)]"
| "request_json (Mkdir p ps) = jtagged ''cmd'' ''mkdir'' [(''path'', JStr p), (''parents'', JBool ps)]"
| "request_json (Rename a b) = jtagged ''cmd'' ''rename'' [(''from'', JStr a), (''to'', JStr b)]"
| "request_json (Copy a b) = jtagged ''cmd'' ''copy'' [(''from'', JStr a), (''to'', JStr b)]"
| "request_json (Symlink t l) = jtagged ''cmd'' ''symlink'' [(''target'', JStr t), (''link_path'', JStr l)]"
| "request_json (Readlink p) = jtagged ''cmd'' ''readlink'' [(''path'', JStr p)]"
| "request_json (Truncate p n) = jtagged ''cmd'' ''truncate'' [(''path'', JStr p), (''size'', jword n)]"
| "request_json (StartTunnel t g) = jtagged ''cmd'' ''start_tunnel'' [(''tunnel_id'', JStr t), (''guest_port'', jword g)]"
| "request_json (StopTunnel t) = jtagged ''cmd'' ''stop_tunnel'' [(''tunnel_id'', JStr t)]"

definition dir_entry_json :: "dir_entry \<Rightarrow> json" where
  "dir_entry_json e =
     JObj [(''name'', JStr (de_name e)), (''is_dir'', JBool (de_is_dir e)), (''is_symlink'', JBool (de_is_symlink e)),
           (''size'', jword (de_size e)), (''mode'', jword (de_mode e)), (''mtime_unix'', jword (de_mtime_unix e))]"

fun response_json :: "response \<Rightarrow> json" where
  "response_json (RExec out err code) =
     jtagged ''status'' ''exec'' [(''stdout'', JStr out), (''stderr'', JStr err), (''exit_code'', JNum code)]"
| "response_json (RFile c) = jtagged ''status'' ''file'' [(''content_base64'', JStr c)]"
| "response_json (RDir es) = jtagged ''status'' ''dir'' [(''entries'', JArr (map dir_entry_json es))]"
| "response_json (RLink t) = jtagged ''status'' ''link'' [(''target'', JStr t)]"
| "response_json ROk = jtagged ''status'' ''ok'' []"
| "response_json (RError m) = jtagged ''status'' ''error'' [(''message'', JStr m)]"

definition pty_handshake_json :: "pty_handshake \<Rightarrow> json" where
  "pty_handshake_json h = JObj [(''cols'', jword (cols h)), (''rows'', jword (pty_rows h))]"

definition exec_stream_handshake_json :: "exec_stream_handshake \<Rightarrow> json" where
  "exec_stream_handshake_json h =
     JObj [(''command'', JStr (es_command h)), (''args'', JArr (map JStr (es_args h))), (''env'', jmap (es_env h))]"

fun exec_stream_event_json :: "exec_stream_event \<Rightarrow> json" where
  "exec_stream_event_json (Stdout d) = jtagged ''stream'' ''stdout'' [(''data_base64'', JStr d)]"
| "exec_stream_event_json (Stderr d) = jtagged ''stream'' ''stderr'' [(''data_base64'', JStr d)]"
| "exec_stream_event_json (Exit c) = jtagged ''stream'' ''exit'' [(''exit_code'', JNum c)]"

definition tunnel_open_json :: "tunnel_open \<Rightarrow> json" where
  "tunnel_open_json t = JObj [(''tunnel_id'', JStr (to_tunnel_id t)), (''conn_id'', JStr (to_conn_id t))]"

section \<open>Decoding\<close>

fun jstr :: "json \<Rightarrow> string option" where
  "jstr (JStr s) = Some s" | "jstr _ = None"

fun jbool :: "json \<Rightarrow> bool option" where
  "jbool (JBool b) = Some b" | "jbool _ = None"

fun jnum :: "json \<Rightarrow> int option" where
  "jnum (JNum n) = Some n" | "jnum _ = None"

definition unjword :: "json \<Rightarrow> 'a::len word option" where
  "unjword j = (case jnum j of Some n \<Rightarrow> if 0 \<le> n \<and> n < 2 ^ LENGTH('a) then Some (of_int n) else None | None \<Rightarrow> None)"

definition ji32 :: "json \<Rightarrow> int option" where
  "ji32 j = (case jnum j of Some n \<Rightarrow> if - (2 ^ 31) \<le> n \<and> n < 2 ^ 31 then Some n else None | None \<Rightarrow> None)"

fun collect_some :: "'a option list \<Rightarrow> 'a list option" where
  "collect_some [] = Some []"
| "collect_some (None # xs) = None"
| "collect_some (Some x # xs) = map_option ((#) x) (collect_some xs)"

fun jlist :: "(json \<Rightarrow> 'a option) \<Rightarrow> json \<Rightarrow> 'a list option" where
  "jlist f (JArr js) = collect_some (map f js)" | "jlist f _ = None"

text \<open>A JSON object into a \<^verbatim>\<open>HashMap<String, String>\<close>: a later duplicate key replaces the earlier.\<close>

fun unjmap :: "json \<Rightarrow> string hash_map option" where
  "unjmap (JObj kvs) =
     map_option (\<lambda>xs. foldr (\<lambda>(k, v) m. if hm_contains k m then m else (k, v) # m) xs [])
       (collect_some (map (\<lambda>(k, j). map_option (Pair k) (jstr j)) kvs))"
| "unjmap _ = None"

fun jobj :: "json \<Rightarrow> (string \<times> json) list option" where
  "jobj (JObj kvs) = Some kvs" | "jobj _ = None"

definition jreq :: "string \<Rightarrow> (json \<Rightarrow> 'a option) \<Rightarrow> (string \<times> json) list \<Rightarrow> 'a option" where
  "jreq k f kvs = Option.bind (map_of kvs k) f"

text \<open>\<^verbatim>\<open>#[serde(default)]\<close>.\<close>

definition jdef :: "string \<Rightarrow> 'a \<Rightarrow> (json \<Rightarrow> 'a option) \<Rightarrow> (string \<times> json) list \<Rightarrow> 'a option" where
  "jdef k d f kvs = (case map_of kvs k of None \<Rightarrow> Some d | Some j \<Rightarrow> f j)"

definition request_of_json :: "json \<Rightarrow> request option" where
  "request_of_json j = do {
     kvs \<leftarrow> jobj j;
     cmd \<leftarrow> jreq ''cmd'' jstr kvs;
     (if cmd = ''exec'' then do { c \<leftarrow> jreq ''command'' jstr kvs; as \<leftarrow> jdef ''args'' [] (jlist jstr) kvs;
        e \<leftarrow> jdef ''env'' [] unjmap kvs; Some (Exec c as e) }
      else if cmd = ''read_file'' then map_option ReadFile (jreq ''path'' jstr kvs)
      else if cmd = ''write_file'' then do { p \<leftarrow> jreq ''path'' jstr kvs; c \<leftarrow> jreq ''content_base64'' jstr kvs; Some (WriteFile p c) }
      else if cmd = ''list_dir'' then map_option ListDir (jreq ''path'' jstr kvs)
      else if cmd = ''chmod'' then do { p \<leftarrow> jreq ''path'' jstr kvs; m \<leftarrow> jreq ''mode'' unjword kvs; Some (Chmod p m) }
      else if cmd = ''chown'' then do { p \<leftarrow> jreq ''path'' jstr kvs; u \<leftarrow> jreq ''uid'' unjword kvs;
        g \<leftarrow> jreq ''gid'' unjword kvs; Some (Chown p u g) }
      else if cmd = ''mkdir'' then do { p \<leftarrow> jreq ''path'' jstr kvs; ps \<leftarrow> jdef ''parents'' False jbool kvs; Some (Mkdir p ps) }
      else if cmd = ''rename'' then do { a \<leftarrow> jreq ''from'' jstr kvs; b \<leftarrow> jreq ''to'' jstr kvs; Some (Rename a b) }
      else if cmd = ''copy'' then do { a \<leftarrow> jreq ''from'' jstr kvs; b \<leftarrow> jreq ''to'' jstr kvs; Some (Copy a b) }
      else if cmd = ''symlink'' then do { t \<leftarrow> jreq ''target'' jstr kvs; l \<leftarrow> jreq ''link_path'' jstr kvs; Some (Symlink t l) }
      else if cmd = ''readlink'' then map_option Readlink (jreq ''path'' jstr kvs)
      else if cmd = ''truncate'' then do { p \<leftarrow> jreq ''path'' jstr kvs; n \<leftarrow> jreq ''size'' unjword kvs; Some (Truncate p n) }
      else if cmd = ''start_tunnel'' then do { t \<leftarrow> jreq ''tunnel_id'' jstr kvs; g \<leftarrow> jreq ''guest_port'' unjword kvs;
        Some (StartTunnel t g) }
      else if cmd = ''stop_tunnel'' then map_option StopTunnel (jreq ''tunnel_id'' jstr kvs)
      else None) }"

definition dir_entry_of_json :: "json \<Rightarrow> dir_entry option" where
  "dir_entry_of_json j = do {
     kvs \<leftarrow> jobj j; n \<leftarrow> jreq ''name'' jstr kvs; d \<leftarrow> jreq ''is_dir'' jbool kvs; l \<leftarrow> jreq ''is_symlink'' jbool kvs;
     s \<leftarrow> jreq ''size'' unjword kvs; m \<leftarrow> jreq ''mode'' unjword kvs; t \<leftarrow> jreq ''mtime_unix'' unjword kvs;
     Some \<lparr>de_name = n, de_is_dir = d, de_is_symlink = l, de_size = s, de_mode = m, de_mtime_unix = t\<rparr> }"

definition response_of_json :: "json \<Rightarrow> response option" where
  "response_of_json j = do {
     kvs \<leftarrow> jobj j;
     st \<leftarrow> jreq ''status'' jstr kvs;
     (if st = ''exec'' then do { out \<leftarrow> jreq ''stdout'' jstr kvs; err \<leftarrow> jreq ''stderr'' jstr kvs;
        c \<leftarrow> jreq ''exit_code'' ji32 kvs; Some (RExec out err c) }
      else if st = ''file'' then map_option RFile (jreq ''content_base64'' jstr kvs)
      else if st = ''dir'' then map_option RDir (jreq ''entries'' (jlist dir_entry_of_json) kvs)
      else if st = ''link'' then map_option RLink (jreq ''target'' jstr kvs)
      else if st = ''ok'' then Some ROk
      else if st = ''error'' then map_option RError (jreq ''message'' jstr kvs)
      else None) }"

definition pty_handshake_of_json :: "json \<Rightarrow> pty_handshake option" where
  "pty_handshake_of_json j = do {
     kvs \<leftarrow> jobj j; c \<leftarrow> jreq ''cols'' unjword kvs; r \<leftarrow> jreq ''rows'' unjword kvs;
     Some \<lparr>cols = c, pty_rows = r\<rparr> }"

definition exec_stream_handshake_of_json :: "json \<Rightarrow> exec_stream_handshake option" where
  "exec_stream_handshake_of_json j = do {
     kvs \<leftarrow> jobj j; c \<leftarrow> jreq ''command'' jstr kvs; as \<leftarrow> jdef ''args'' [] (jlist jstr) kvs;
     e \<leftarrow> jdef ''env'' [] unjmap kvs; Some \<lparr>es_command = c, es_args = as, es_env = e\<rparr> }"

definition exec_stream_event_of_json :: "json \<Rightarrow> exec_stream_event option" where
  "exec_stream_event_of_json j = do {
     kvs \<leftarrow> jobj j;
     s \<leftarrow> jreq ''stream'' jstr kvs;
     (if s = ''stdout'' then map_option Stdout (jreq ''data_base64'' jstr kvs)
      else if s = ''stderr'' then map_option Stderr (jreq ''data_base64'' jstr kvs)
      else if s = ''exit'' then map_option Exit (jreq ''exit_code'' ji32 kvs)
      else None) }"

definition tunnel_open_of_json :: "json \<Rightarrow> tunnel_open option" where
  "tunnel_open_of_json j = do {
     kvs \<leftarrow> jobj j; t \<leftarrow> jreq ''tunnel_id'' jstr kvs; c \<leftarrow> jreq ''conn_id'' jstr kvs;
     Some \<lparr>to_tunnel_id = t, to_conn_id = c\<rparr> }"

text \<open>The codecs, over a printer and a parser of JSON text.\<close>

definition encode_request :: "(json \<Rightarrow> u8 list) \<Rightarrow> request \<Rightarrow> u8 list" where
  "encode_request print r = print (request_json r)"

definition decode_request :: "(u8 list \<Rightarrow> json option) \<Rightarrow> u8 list \<Rightarrow> request option" where
  "decode_request parse bs = Option.bind (parse bs) request_of_json"

definition encode_response :: "(json \<Rightarrow> u8 list) \<Rightarrow> response \<Rightarrow> u8 list" where
  "encode_response print r = print (response_json r)"

definition decode_response :: "(u8 list \<Rightarrow> json option) \<Rightarrow> u8 list \<Rightarrow> response option" where
  "decode_response parse bs = Option.bind (parse bs) response_of_json"

section \<open>Lemmas\<close>

named_theorems codec

lemma unjword_jword [codec]: "unjword (jword w) = Some (w :: 'a::len word)"
proof -
  have "uint w < 2 ^ LENGTH('a)" by (rule uint_lt2p)
  then show ?thesis by (simp add: unjword_def jword_def)
qed

lemma collect_some_map [codec]: "(\<And>x. x \<in> set xs \<Longrightarrow> f x = Some (g x)) \<Longrightarrow> collect_some (map f xs) = Some (map g xs)"
  by (induction xs) auto

lemma jlist_jstr [codec]: "jlist jstr (JArr (map JStr xs)) = Some xs"
  by (induction xs) auto

lemma distinct_fold_id:
  "hm_wf xs \<Longrightarrow> foldr (\<lambda>(k, v) m. if hm_contains k m then m else (k, v) # m) xs [] = xs"
  by (induction xs) (auto simp: hm_wf_def hm_contains_def hm_get_def map_of_eq_None_iff)

lemma unjmap_jmap [codec]: "hm_wf m \<Longrightarrow> unjmap (jmap m) = Some m"
proof -
  assume wf: "hm_wf m"
  have "collect_some (map (\<lambda>(k, j). map_option (Pair k) (jstr j)) (map (\<lambda>(k, v). (k, JStr v)) xs)) = Some xs"
    for xs :: "string hash_map"
    by (induction xs) auto
  then show ?thesis using distinct_fold_id [OF wf] by (simp add: jmap_def)
qed

lemma jreq_simps [codec]:
  "jreq k f ((k', j) # kvs) = (if k = k' then f j else jreq k f kvs)"
  "jdef k d g ((k', j) # kvs) = (if k = k' then g j else jdef k d g kvs)"
  "jdef k d g [] = Some d"
  by (auto simp: jreq_def jdef_def)

definition request_wf :: "request \<Rightarrow> bool" where
  "request_wf r = (case r of Exec _ _ env \<Rightarrow> hm_wf env | _ \<Rightarrow> True)"

definition i32_ok :: "int \<Rightarrow> bool" where
  "i32_ok c \<longleftrightarrow> - (2 ^ 31) \<le> c \<and> c < 2 ^ 31"

definition response_wf :: "response \<Rightarrow> bool" where
  "response_wf r = (case r of RExec _ _ c \<Rightarrow> i32_ok c | _ \<Rightarrow> True)"

lemma request_json_round: "request_wf r \<Longrightarrow> request_of_json (request_json r) = Some r"
  by (cases r) (simp_all add: request_of_json_def jtagged_def codec request_wf_def)

lemma dir_entry_round [codec]: "dir_entry_of_json (dir_entry_json e) = Some e"
  by (simp add: dir_entry_of_json_def dir_entry_json_def codec)

lemma jlist_dir_entry [codec]: "jlist dir_entry_of_json (JArr (map dir_entry_json es)) = Some es"
  by (induction es) (auto simp: codec)

lemma ji32_ok [codec]: "i32_ok c \<Longrightarrow> ji32 (JNum c) = Some c"
  by (simp add: ji32_def i32_ok_def)

lemma response_json_round: "response_wf r \<Longrightarrow> response_of_json (response_json r) = Some r"
  by (cases r) (simp_all add: response_of_json_def jtagged_def codec response_wf_def)

lemma pty_handshake_round: "pty_handshake_of_json (pty_handshake_json h) = Some h"
  by (simp add: pty_handshake_of_json_def pty_handshake_json_def codec)

lemma exec_stream_handshake_round:
  "hm_wf (es_env h) \<Longrightarrow> exec_stream_handshake_of_json (exec_stream_handshake_json h) = Some h"
  by (simp add: exec_stream_handshake_of_json_def exec_stream_handshake_json_def codec)

lemma exec_stream_event_round:
  "(case ev of Exit c \<Rightarrow> i32_ok c | _ \<Rightarrow> True) \<Longrightarrow> exec_stream_event_of_json (exec_stream_event_json ev) = Some ev"
  by (cases ev) (simp_all add: exec_stream_event_of_json_def jtagged_def codec)

lemma tunnel_open_round: "tunnel_open_of_json (tunnel_open_json t) = Some t"
  by (simp add: tunnel_open_of_json_def tunnel_open_json_def codec)

section \<open>Frames: lemmas\<close>

lemma length_to_le_bytes [simp]: "length (to_le_bytes n) = 4"
  by (simp add: to_le_bytes_def)

lemma from_to_le_bytes: "from_le_bytes (to_le_bytes n) = n"
proof (rule unsigned_word_eqI)
  let ?n = "unat n"
  have n: "?n < 2 ^ 32" using unsigned_less [of n, where 'a = nat] by simp
  have u: "unat (ucast (drop_bit (8 * i) n) :: u8) = ?n div 2 ^ (8 * i) mod 256" for i
  proof -
    have "take_bit 32 ?n = ?n" using n by (simp add: take_bit_nat_eq_self_iff)
    then have "unat (drop_bit (8 * i) n) = ?n div 2 ^ (8 * i)"
      by (subst unsigned_drop_bit_eq) (simp add: drop_bit_eq_div)
    then show ?thesis by (simp add: unsigned_ucast_eq take_bit_eq_mod)
  qed
  have v: "unat (ucast (b :: u8) :: u32) = unat b" for b
  proof -
    have "unat b < 2 ^ 32" using unsigned_less [of b, where 'a = nat] by simp
    then show ?thesis by (simp add: unsigned_ucast_eq take_bit_nat_eq_self_iff)
  qed
  define q1 q2 q3 where q: "q1 = ?n div 256" "q2 = q1 div 256" "q3 = q2 div 256"
  have d: "?n div 65536 = q2" "?n div 16777216 = q3"
    by (simp_all add: q div_mult2_eq [symmetric])
  have parts: "?n mod 256 + 256 * q1 = ?n" "q1 mod 256 + 256 * q2 = q1" "q2 mod 256 + 256 * q3 = q2"
    by (simp_all add: q)
  have "q3 < 256" using n d(2) by (simp add: less_mult_imp_div_less flip: d(2))
  then have q3: "q3 mod 256 = q3" by simp
  have us: "unat (ucast n :: u8) = ?n mod 256" "unat (ucast (drop_bit 8 n) :: u8) = q1 mod 256"
    "unat (ucast (drop_bit 16 n) :: u8) = q2 mod 256" "unat (ucast (drop_bit 24 n) :: u8) = q3 mod 256"
    using u [of 0] u [of 1] u [of 2] u [of 3] d by (simp_all add: q(1))
  have "unat (from_le_bytes (to_le_bytes n)) =
      (?n mod 256 + 256 * (q1 mod 256 + 256 * (q2 mod 256 + 256 * q3))) mod 2 ^ 32"
    using q3 by (simp add: from_le_bytes_def to_le_bytes_def unat_word_ariths us v mod_simps)
  also have "\<dots> = ?n" using parts n by simp
  finally show "unat (from_le_bytes (to_le_bytes n)) = ?n" .
qed

lemma read_write_message:
  assumes "length p \<le> unat MAX_MESSAGE_LEN"
  shows "read_message (write_message p @ rest) = Inr (p, rest)"
proof -
  have len: "unat (of_nat (length p) :: u32) = length p"
    using assms by (simp add: unsigned_of_nat take_bit_nat_eq_self_iff MAX_MESSAGE_LEN_def)
  then have "\<not> MAX_MESSAGE_LEN < of_nat (length p)"
    using assms by (simp add: word_less_nat_alt)
  then show ?thesis
    by (simp add: read_message_def write_message_def read_exact_def from_to_le_bytes len Let_def)
qed

lemma split_frame: "take 4 s @ take n (drop 4 s) @ drop (n + 4) s = s"
  by (metis add.commute append_take_drop_id drop_drop)

section \<open>The interface of a message type\<close>

text \<open>
  What serde derives for a type: a value and its JSON, which gives the value back. The JSON text is a parameter
  (\<open>print\<close>, \<open>parse\<close>); a value \<open>fits\<close> when its text parses back and is not above the limit of a frame.
\<close>

definition fits :: "(json \<Rightarrow> u8 list) \<Rightarrow> (u8 list \<Rightarrow> json option) \<Rightarrow> json \<Rightarrow> bool" where
  "fits print parse j \<longleftrightarrow> parse (print j) = Some j \<and> length (print j) \<le> unat MAX_MESSAGE_LEN"

locale json_type =
  fixes to_json :: "'a \<Rightarrow> json"
    and of_json :: "json \<Rightarrow> 'a option"
    and wf :: "'a \<Rightarrow> bool"
  assumes round: "wf x \<Longrightarrow> of_json (to_json x) = Some x"
begin

lemma to_json_inject: "wf x \<Longrightarrow> wf y \<Longrightarrow> to_json x = to_json y \<Longrightarrow> x = y"
  by (metis option.inject round)

lemma parse_print: "parse (print (to_json x)) = Some (to_json x) \<Longrightarrow> wf x \<Longrightarrow> Option.bind (parse (print (to_json x))) of_json = Some x"
  by (simp add: round)

end

text \<open>A type with functions of its own to encode and decode it, and what a reader finds at the front of a stream.\<close>

locale wire_type = json_type to_json of_json wf
  for to_json :: "'a \<Rightarrow> json" and of_json :: "json \<Rightarrow> 'a option" and wf :: "'a \<Rightarrow> bool" +
  fixes encode :: "(json \<Rightarrow> u8 list) \<Rightarrow> 'a \<Rightarrow> u8 list"
    and decode :: "(u8 list \<Rightarrow> json option) \<Rightarrow> u8 list \<Rightarrow> 'a option"
  assumes encode_text: "encode print x = print (to_json x)"
    and decode_text: "decode parse bs = Option.bind (parse bs) of_json"
begin

lemma decode_encode: "fits print parse (to_json x) \<Longrightarrow> wf x \<Longrightarrow> decode parse (encode print x) = Some x"
  by (simp add: encode_text decode_text fits_def round)

lemma read_frame: "fits print parse (to_json x) \<Longrightarrow> read_message (write_message (encode print x) @ rest) = Inr (encode print x, rest)"
  by (simp add: encode_text fits_def read_write_message)

lemma read_last_frame: "fits print parse (to_json x) \<Longrightarrow> read_message (write_message (encode print x)) = Inr (encode print x, [])"
  using read_frame [of print parse x "[]"] by simp

end

interpretation requests: wire_type request_json request_of_json request_wf encode_request decode_request
  by unfold_locales (simp_all add: request_json_round encode_request_def decode_request_def)

interpretation responses: wire_type response_json response_of_json response_wf encode_response decode_response
  by unfold_locales (simp_all add: response_json_round encode_response_def decode_response_def)

interpretation exec_handshakes: json_type exec_stream_handshake_json exec_stream_handshake_of_json "\<lambda>h. hm_wf (es_env h)"
  by unfold_locales (rule exec_stream_handshake_round)

interpretation pty_handshakes: json_type pty_handshake_json pty_handshake_of_json "\<lambda>_. True"
  by unfold_locales (rule pty_handshake_round)

interpretation tunnel_opens: json_type tunnel_open_json tunnel_open_of_json "\<lambda>_. True"
  by unfold_locales (rule tunnel_open_round)

section \<open>Properties\<close>

text \<open>
  Every message the daemon and the agent exchange survives the wire: what
  \<^verbatim>\<open>write_message\<close> puts on a stream for an encoded request or response, \<^verbatim>\<open>read_message\<close> takes off
  again, leaving the rest of the stream, and decoding gives the same request or response,
  whenever the JSON text parses back and fits the 64 MiB limit.
\<close>

theorem messages_round_trip:
  assumes json_text: "\<And>j. parse (print j) = Some j"
    and "request_wf req" "length (print (request_json req)) \<le> unat MAX_MESSAGE_LEN"
    and "response_wf resp" "length (print (response_json resp)) \<le> unat MAX_MESSAGE_LEN"
  shows "(read_message (write_message (encode_request print req) @ rest) = Inr (print (request_json req), rest)
      \<and> decode_request parse (print (request_json req)) = Some req)
   \<and> (read_message (write_message (encode_response print resp) @ rest) = Inr (print (response_json resp), rest)
      \<and> decode_response parse (print (response_json resp)) = Some resp)"
  using assms
  by (simp_all add: encode_request_def encode_response_def decode_request_def decode_response_def
      read_write_message request_json_round response_json_round)

text \<open>A printer for the witness: the number of zero bytes is the code of the value.\<close>

instance json :: countable
  by countable_datatype

definition unary_print :: "json \<Rightarrow> u8 list" where
  "unary_print j = (if j = request_json (ListDir ''/'') then [1] else if j = response_json ROk then [2]
     else replicate (to_nat j + 3) 0)"

definition unary_parse :: "u8 list \<Rightarrow> json option" where
  "unary_parse bs = (if bs = [1] then Some (request_json (ListDir ''/'')) else if bs = [2] then Some (response_json ROk)
     else Some (from_nat (length bs - 3)))"

theorem messages_round_trip_witness:
  "read_message (write_message (encode_request unary_print (ListDir ''/'')) @ [7]) = Inr ([1], [7])
     \<and> decode_request unary_parse [1] = Some (ListDir ''/'')"
proof -
  have "unary_parse (unary_print j) = Some j" for j
    by (simp add: unary_parse_def unary_print_def numeral_3_eq_3)
  moreover have "unary_print (request_json (ListDir ''/'')) = [1]" "unary_print (response_json ROk) = [2]"
    by (simp_all add: unary_print_def jtagged_def)
  ultimately show ?thesis
    using messages_round_trip [of unary_parse unary_print "ListDir ''/''" ROk "[7]"]
    by (simp add: request_wf_def response_wf_def MAX_MESSAGE_LEN_def)
qed



end
