(* ===== verification/Vm.thy ===== *)
theory Vm
  imports Jailer Protocol Network
begin

text \<open>
  \<^verbatim>\<open>vmm/src/vm/mod.rs\<close>, \<^verbatim>\<open>vm/boot.rs\<close> and \<^verbatim>\<open>vm/snapshot.rs\<close>: the life of one Firecracker process. A
  \<open>world\<close> is everything outside the daemon's own state: spawned programs, files, the clock,
  UUIDs, and the Firecracker process with its API socket and the guest agent behind it, which
  answer from the history of events (\<open>fc_answer\<close>, \<open>agent\<close>) and take time. A retry loop sleeps
  at least a nanosecond, so it ends at its deadline. Of a terminal or a streamed command the opening is
  modelled (\<open>FcOpen\<close>), of the tunnel's acceptor thread the binding of its socket.
\<close>

section \<open>The world\<close>

datatype fc_event =
    FcSpawn string "string list"
  | FcConnect string
  | FcPut string string json
  | FcPatch string string json
  | FcKill nat
  | FcCall string request
  | FcBind string
  | FcOpen string nat json

record world =
  w_sys :: sys
  w_fs :: fs
  w_now :: nat
  w_epoch :: int
  w_uuid :: "nat \<Rightarrow> string"
  w_uuid_next :: nat
  w_next_vm :: u64
  fc_events :: "fc_event list"
  fc_answer :: "fc_event list \<Rightarrow> fc_event \<Rightarrow> (io_error, nat \<times> string) result \<times> nat"
  agent :: "fc_event list \<Rightarrow> string \<Rightarrow> request \<Rightarrow> (io_error, response) result"

definition system_now :: "world \<Rightarrow> int" where
  "system_now w = w_epoch w + int (w_now w)"

definition new_uuid :: "world \<Rightarrow> string \<times> world" where
  "new_uuid w = (w_uuid w (w_uuid_next w), w\<lparr>w_uuid_next := Suc (w_uuid_next w)\<rparr>)"

definition fc_do :: "fc_event \<Rightarrow> world \<Rightarrow> (io_error, nat \<times> string) result \<times> world" where
  "fc_do ev w =
     (let (r, t) = fc_answer w (fc_events w) ev
      in (r, w\<lparr>fc_events := fc_events w @ [ev], w_now := w_now w + t\<rparr>))"

definition on_fs :: "(fs \<Rightarrow> 'a \<times> fs) \<Rightarrow> world \<Rightarrow> 'a \<times> world" where
  "on_fs f w = (case f (w_fs w) of (r, g) \<Rightarrow> (r, w\<lparr>w_fs := g\<rparr>))"

definition on_sys :: "(sys \<Rightarrow> 'a \<times> sys) \<Rightarrow> world \<Rightarrow> 'a \<times> world" where
  "on_sys f w = (case f (w_sys w) of (r, s) \<Rightarrow> (r, w\<lparr>w_sys := s\<rparr>))"

definition on_disk :: "(sys \<times> fs \<Rightarrow> 'a \<times> sys \<times> fs) \<Rightarrow> world \<Rightarrow> 'a \<times> world" where
  "on_disk f w = (case f (w_sys w, w_fs w) of (r, s, g) \<Rightarrow> (r, w\<lparr>w_sys := s, w_fs := g\<rparr>))"

section \<open>Configuration\<close>

record drive_config =
  dc_drive_id :: string
  dc_path_on_host :: string
  dc_read_only :: bool

record token_bucket =
  tb_size :: u64
  one_time_burst :: "u64 option"
  refill_time :: u64

record rate_limiter =
  bandwidth :: "token_bucket option"
  rl_ops :: "token_bucket option"

record vm_config =
  vc_firecracker_bin :: string
  vc_kernel_path :: string
  vc_rootfs_path :: string
  vc_vcpu_count :: u8
  vc_mem_size_mib :: u32
  vc_network :: "network_config option"
  extra_drives :: "drive_config list"
  vc_jail :: "jail_launch option"
  vc_rate_limit :: "rate_limiter option"
  vc_metadata :: "json option"

record vm =
  vm_id :: u64
  vm_child :: nat
  vm_api_socket :: string
  vm_vsock_socket :: string
  jail_instance_dir :: "string option"

definition is_jailed :: "vm \<Rightarrow> bool" where
  "is_jailed v = (jail_instance_dir v \<noteq> None)"

definition console_log_path :: "u64 \<Rightarrow> string" where
  "console_log_path i = ''/tmp/sandkiln-fc-'' @ show_nat (unat i) @ ''.log''"

definition annotate_with_console_log :: "io_error \<Rightarrow> string \<Rightarrow> io_error" where
  "annotate_with_console_log e p =
     (case io_err_msg e of Msg k as \<Rightarrow> io_other k (as @ [p]))"

section \<open>Talking to Firecracker\<close>

definition status_ok :: "nat \<Rightarrow> bool" where
  "status_ok st = (200 \<le> st \<and> st < 300)"

definition put_checked :: "string \<Rightarrow> string \<Rightarrow> json \<Rightarrow> world \<Rightarrow> (io_error, unit) result \<times> world" where
  "put_checked sock path body w =
     (case fc_do (FcPut sock path body) w of
        (Inl e, w') \<Rightarrow> (Inl e, w')
      | (Inr (st, b), w') \<Rightarrow>
          if status_ok st then (Inr (), w')
          else (Inl (io_other ''firecracker API PUT'' [path, show_nat st, b]), w'))"

definition patch_checked :: "string \<Rightarrow> string \<Rightarrow> json \<Rightarrow> world \<Rightarrow> (io_error, unit) result \<times> world" where
  "patch_checked sock path body w =
     (case fc_do (FcPatch sock path body) w of
        (Inl e, w') \<Rightarrow> (Inl e, w')
      | (Inr (st, b), w') \<Rightarrow>
          if status_ok st then (Inr (), w')
          else (Inl (io_other ''firecracker API PATCH'' [path, show_nat st, b]), w'))"

definition api_connect :: "string \<Rightarrow> world \<Rightarrow> (io_error, unit) result \<times> world" where
  "api_connect sock w =
     (case fc_do (FcConnect sock) w of (Inl e, w') \<Rightarrow> (Inl e, w') | (Inr _, w') \<Rightarrow> (Inr (), w'))"

text \<open>
  \<^verbatim>\<open>retry_with_backoff\<close>: times in nanoseconds; the clock after an attempt is never before
  the clock at its start, and a sleep takes at least a nanosecond.
\<close>

function retry_loop :: "nat \<Rightarrow> nat \<Rightarrow> nat \<Rightarrow> (world \<Rightarrow> (io_error, 'a) result \<times> world) \<Rightarrow> world \<Rightarrow>
    (io_error, 'a) result \<times> world" where
  "retry_loop deadline interval max_interval attempt w =
     (case attempt w of
        (Inr v, w1) \<Rightarrow> (Inr v, w1)
      | (Inl e, w1) \<Rightarrow>
          (let now = max (w_now w) (w_now w1) in
           if deadline \<le> now then (Inl e, w1)
           else retry_loop deadline (min (interval * 2) max_interval) max_interval attempt
                  (w1\<lparr>w_now := now + max 1 interval\<rparr>)))"
  by pat_completeness auto
termination
  by (relation "measure (\<lambda>(deadline, _, _, _, w). deadline - w_now w)") auto

declare retry_loop.simps [simp del]

definition retry_with_backoff :: "nat \<Rightarrow> nat \<Rightarrow> nat \<Rightarrow> (world \<Rightarrow> (io_error, 'a) result \<times> world) \<Rightarrow> world \<Rightarrow>
    (io_error, 'a) result \<times> world" where
  "retry_with_backoff timeout initial_interval max_interval attempt w =
     retry_loop (w_now w + timeout) initial_interval max_interval attempt w"

abbreviation (input) ms :: "nat \<Rightarrow> nat" where
  "ms n \<equiv> n * 1000000"

definition connect_api_with_retry :: "string \<Rightarrow> nat \<Rightarrow> world \<Rightarrow> (io_error, unit) result \<times> world" where
  "connect_api_with_retry path timeout w =
     (case retry_with_backoff timeout 200000 (ms 5) (api_connect path) w of
        (Inr _, w') \<Rightarrow> (Inr (), w')
      | (Inl e, w') \<Rightarrow> (Inl (IoError TimedOut (Msg ''never accepted a connection'' [path])), w'))"

definition vsock_call :: "string \<Rightarrow> request \<Rightarrow> world \<Rightarrow> (io_error, response) result \<times> world" where
  "vsock_call sock req w =
     (let r = agent w (fc_events w) sock req;
          t = snd (fc_answer w (fc_events w) (FcCall sock req))
      in (r, w\<lparr>fc_events := fc_events w @ [FcCall sock req], w_now := w_now w + t\<rparr>))"

definition vm_call :: "vm \<Rightarrow> request \<Rightarrow> world \<Rightarrow> (io_error, response) result \<times> world" where
  "vm_call v req w = retry_with_backoff (ms 5000) (ms 1) (ms 20) (vsock_call (vm_vsock_socket v) req) w"

text \<open>
  A terminal or a streamed command: a connection that stays open after its handshake. Opening it is
  retried like a call; what then goes over it is not part of the world.
\<close>

definition PTY_PORT :: nat where
  "PTY_PORT = 5001"

definition EXEC_STREAM_PORT :: nat where
  "EXEC_STREAM_PORT = 5002"

definition open_stream :: "string \<Rightarrow> nat \<Rightarrow> json \<Rightarrow> world \<Rightarrow> (io_error, unit) result \<times> world" where
  "open_stream sock port handshake w =
     (case fc_do (FcOpen sock port handshake) w of (Inl e, w') \<Rightarrow> (Inl e, w') | (Inr _, w') \<Rightarrow> (Inr (), w'))"

definition vm_open_pty :: "vm \<Rightarrow> u16 \<Rightarrow> u16 \<Rightarrow> world \<Rightarrow> (io_error, unit) result \<times> world" where
  "vm_open_pty v c r w =
     retry_with_backoff (ms 5000) (ms 1) (ms 20)
       (open_stream (vm_vsock_socket v) PTY_PORT (pty_handshake_json \<lparr>cols = c, pty_rows = r\<rparr>)) w"

definition vm_open_exec_stream :: "vm \<Rightarrow> string \<Rightarrow> string list \<Rightarrow> string hash_map \<Rightarrow> world \<Rightarrow> (io_error, unit) result \<times> world" where
  "vm_open_exec_stream v command args env w =
     retry_with_backoff (ms 5000) (ms 1) (ms 20)
       (open_stream (vm_vsock_socket v) EXEC_STREAM_PORT
         (exec_stream_handshake_json \<lparr>es_command = command, es_args = args, es_env = env\<rparr>)) w"

definition mmds_config_json :: json where
  "mmds_config_json = JObj [(''network_interfaces'', JArr [JStr ''eth0'']), (''version'', JStr ''V2'')]"

definition update_metadata :: "vm \<Rightarrow> json \<Rightarrow> world \<Rightarrow> (io_error, unit) result \<times> world" where
  "update_metadata v md w =
     (case api_connect (vm_api_socket v) w of
        (Inl e, w1) \<Rightarrow> (Inl e, w1)
      | (Inr _, w1) \<Rightarrow>
     (case put_checked (vm_api_socket v) ''/mmds/config'' mmds_config_json w1 of
        (Inl e, w2) \<Rightarrow> (Inl e, w2)
      | (Inr _, w2) \<Rightarrow> put_checked (vm_api_socket v) ''/mmds'' md w2))"

section \<open>Boot\<close>

record boot_target =
  bt_child :: nat
  bt_api_socket :: string
  bt_vsock_socket :: string
  bt_kernel_image_path :: string
  bt_rootfs_path :: string
  bt_drive_paths :: "string list"
  bt_vsock_uds_path :: string
  bt_jail_instance_dir :: "string option"

definition token_bucket_json :: "token_bucket \<Rightarrow> json" where
  "token_bucket_json b =
     JObj ([(''size'', jword (tb_size b))]
       @ (case one_time_burst b of None \<Rightarrow> [] | Some n \<Rightarrow> [(''one_time_burst'', jword n)])
       @ [(''refill_time'', jword (refill_time b))])"

definition rate_limiter_json :: "rate_limiter \<Rightarrow> json" where
  "rate_limiter_json r =
     JObj ((case bandwidth r of None \<Rightarrow> [] | Some b \<Rightarrow> [(''bandwidth'', token_bucket_json b)])
       @ (case rl_ops r of None \<Rightarrow> [] | Some b \<Rightarrow> [(''ops'', token_bucket_json b)]))"

definition insert_rate_limiter :: "(string \<times> json) list \<Rightarrow> string \<Rightarrow> rate_limiter option \<Rightarrow> (string \<times> json) list" where
  "insert_rate_limiter body key rl =
     (case rl of None \<Rightarrow> body | Some r \<Rightarrow> body @ [(key, rate_limiter_json r)])"

definition boot_args :: "network_config option \<Rightarrow> string" where
  "boot_args net =
     ''console=ttyS0 reboot=k panic=1 pci=off'' @
     (case net of None \<Rightarrow> []
      | Some n \<Rightarrow> '' ip='' @ show_ipv4 (guest_ip n) @ ''::'' @ show_ipv4 (nc_gateway_ip n) @ '':255.255.255.0::eth0:off'')"

definition rootfs_request :: "vm_config \<Rightarrow> boot_target \<Rightarrow> string \<times> json" where
  "rootfs_request c t =
     (''/drives/rootfs'', JObj (insert_rate_limiter
        [(''drive_id'', JStr ''rootfs''), (''path_on_host'', JStr (bt_rootfs_path t)),
         (''is_root_device'', JBool True), (''is_read_only'', JBool False)] ''rate_limiter'' (vc_rate_limit c)))"

definition drive_requests :: "vm_config \<Rightarrow> boot_target \<Rightarrow> (string \<times> json) list" where
  "drive_requests c t =
     map (\<lambda>(d, path). (''/drives/'' @ dc_drive_id d, JObj (insert_rate_limiter
        [(''drive_id'', JStr (dc_drive_id d)), (''path_on_host'', JStr path),
         (''is_root_device'', JBool False), (''is_read_only'', JBool (dc_read_only d))]
        ''rate_limiter'' (vc_rate_limit c)))) (zip (extra_drives c) (bt_drive_paths t))"

definition network_request :: "vm_config \<Rightarrow> network_config \<Rightarrow> string \<times> json" where
  "network_request c n =
     (''/network-interfaces/eth0'', JObj (insert_rate_limiter (insert_rate_limiter
        [(''iface_id'', JStr ''eth0''), (''guest_mac'', JStr (guest_mac n)), (''host_dev_name'', JStr (tap_device n))]
        ''rx_rate_limiter'' (vc_rate_limit c)) ''tx_rate_limiter'' (vc_rate_limit c)))"

definition configuration_requests :: "vm_config \<Rightarrow> boot_target \<Rightarrow> (io_error, (string \<times> json) list) result" where
  "configuration_requests c t =
     (let base = [(''/boot-source'', JObj [(''kernel_image_path'', JStr (bt_kernel_image_path t)),
                                           (''boot_args'', JStr (boot_args (vc_network c)))]),
                  rootfs_request c t]
                 @ drive_requests c t
                 @ [(''/machine-config'', JObj [(''vcpu_count'', jword (vc_vcpu_count c)),
                                                (''mem_size_mib'', jword (vc_mem_size_mib c))])]
                 @ (case vc_network c of None \<Rightarrow> [] | Some n \<Rightarrow> [network_request c n]);
          vsock = (''/vsock'', JObj [(''vsock_id'', JStr ''vsock0''), (''guest_cid'', JNum 3),
                                     (''uds_path'', JStr (bt_vsock_uds_path t))])
      in case vc_metadata c of
           None \<Rightarrow> Inr (base @ [vsock])
         | Some md \<Rightarrow>
             if vc_network c = None
             then Inl (io_other ''VmConfig::metadata requires VmConfig::network to also be set'' [])
             else Inr (base @ [(''/mmds/config'', mmds_config_json), (''/mmds'', md)] @ [vsock]))"

fun put_all :: "string \<Rightarrow> (string \<times> json) list \<Rightarrow> world \<Rightarrow> (io_error, unit) result \<times> world" where
  "put_all sock [] w = (Inr (), w)"
| "put_all sock ((path, body) # rs) w =
     (case put_checked sock path body w of
        (Inl e, w') \<Rightarrow> (Inl e, w') | (Inr _, w') \<Rightarrow> put_all sock rs w')"

definition instance_start_json :: json where
  "instance_start_json = JObj [(''action_type'', JStr ''InstanceStart'')]"

definition configure_and_start :: "vm_config \<Rightarrow> boot_target \<Rightarrow> world \<Rightarrow> (io_error, unit) result \<times> world" where
  "configure_and_start c t w =
     (case connect_api_with_retry (bt_api_socket t) (ms 2000) w of
        (Inl e, w1) \<Rightarrow> (Inl e, w1)
      | (Inr _, w1) \<Rightarrow>
     (case configuration_requests c t of
        Inl e \<Rightarrow> (Inl e, w1)
      | Inr requests \<Rightarrow>
     (case put_all (bt_api_socket t) requests w1 of
        (Inl e, w2) \<Rightarrow> (Inl e, w2)
      | (Inr _, w2) \<Rightarrow> put_checked (bt_api_socket t) ''/actions'' instance_start_json w2)))"

text \<open>\<^verbatim>\<open>console_log_stdio\<close>, then the spawn; the child is named by the number of events so far.\<close>

definition spawn_logged :: "string \<Rightarrow> string list \<Rightarrow> string \<Rightarrow> world \<Rightarrow> (io_error, nat) result \<times> world" where
  "spawn_logged program args log_path w =
     (case on_fs (create_file log_path) w of
        (Inl e, w1) \<Rightarrow> (Inl e, w1)
      | (Inr _, w1) \<Rightarrow>
          (case fc_do (FcSpawn program args) w1 of
             (Inl e, w2) \<Rightarrow> (Inl e, w2)
           | (Inr _, w2) \<Rightarrow> (Inr (length (fc_events w1)), w2)))"

definition api_socket_path :: "u64 \<Rightarrow> string" where
  "api_socket_path i = ''/tmp/sandkiln-fc-'' @ show_nat (unat i) @ ''.sock''"

definition vsock_socket_path :: "u64 \<Rightarrow> string" where
  "vsock_socket_path i = ''/tmp/sandkiln-vsock-'' @ show_nat (unat i) @ ''.sock''"

definition remove_files :: "string list \<Rightarrow> world \<Rightarrow> world" where
  "remove_files ps w = fold (\<lambda>p v. snd (on_fs (remove_file p) v)) ps w"

definition spawn_direct :: "vm_config \<Rightarrow> u64 \<Rightarrow> string \<Rightarrow> world \<Rightarrow> (io_error, boot_target) result \<times> world" where
  "spawn_direct c i log_path w =
     (let api = api_socket_path i; vsock = vsock_socket_path i in
      case spawn_logged (vc_firecracker_bin c) [''--api-sock'', api] log_path (remove_files [api, vsock] w) of
        (Inl e, w1) \<Rightarrow> (Inl e, w1)
      | (Inr child, w1) \<Rightarrow>
          (Inr \<lparr>bt_child = child, bt_api_socket = api, bt_vsock_socket = vsock,
                bt_kernel_image_path = vc_kernel_path c, bt_rootfs_path = vc_rootfs_path c,
                bt_drive_paths = map dc_path_on_host (extra_drives c), bt_vsock_uds_path = vsock,
                bt_jail_instance_dir = None\<rparr>, w1))"

fun link_drives :: "string \<Rightarrow> drive_config list \<Rightarrow> world \<Rightarrow> (io_error, string list) result \<times> world" where
  "link_drives root [] w = (Inr [], w)"
| "link_drives root (d # ds) w =
     (case on_fs (link_resource_into_jail (dc_path_on_host d) root (dc_drive_id d @ ''.ext4'') (\<not> dc_read_only d)) w of
        (Inl e, w1) \<Rightarrow> (Inl e, w1)
      | (Inr j, w1) \<Rightarrow>
          (case link_drives root ds w1 of
             (Inl e, w2) \<Rightarrow> (Inl e, w2)
           | (Inr ps, w2) \<Rightarrow> (Inr (jp_in_jail_path j # ps), w2)))"

definition spawn_jailed_inner :: "vm_config \<Rightarrow> jail_launch \<Rightarrow> string \<Rightarrow> string \<Rightarrow> string \<Rightarrow> world \<Rightarrow>
    (io_error, boot_target) result \<times> world" where
  "spawn_jailed_inner c jail jid root log_path w =
     (case on_fs (prepare_chroot_dir root) w of
        (Inl e, w1) \<Rightarrow> (Inl e, w1)
      | (Inr _, w1) \<Rightarrow>
     (case on_fs (link_resource_into_jail (vc_kernel_path c) root ''kernel'' False) w1 of
        (Inl e, w2) \<Rightarrow> (Inl e, w2)
      | (Inr kern, w2) \<Rightarrow>
     (case on_fs (link_resource_into_jail (vc_rootfs_path c) root ''rootfs.ext4'' True) w2 of
        (Inl e, w3) \<Rightarrow> (Inl e, w3)
      | (Inr rootfs, w3) \<Rightarrow>
     (case link_drives root (extra_drives c) w3 of
        (Inl e, w4) \<Rightarrow> (Inl e, w4)
      | (Inr drives, w4) \<Rightarrow>
     (let api = path_join root ''api.sock''; vsock = path_join root ''vsock.sock'';
          args = build_jailer_args jail jid (vc_firecracker_bin c)
                   (cgroup_limits (vc_mem_size_mib c) (vc_vcpu_count c)) ''/api.sock'' in
      case spawn_logged (jailer_bin jail) args log_path (remove_files [api, vsock] w4) of
        (Inl e, w5) \<Rightarrow> (Inl e, w5)
      | (Inr child, w5) \<Rightarrow>
          (Inr \<lparr>bt_child = child, bt_api_socket = api, bt_vsock_socket = vsock,
                bt_kernel_image_path = jp_in_jail_path kern, bt_rootfs_path = jp_in_jail_path rootfs,
                bt_drive_paths = drives, bt_vsock_uds_path = ''/vsock.sock'',
                bt_jail_instance_dir = instance_dir root\<rparr>, w5))))))"

text \<open>A binary path without a file name is a panic in \<open>chroot_root\<close>: here an error of its own.\<close>

definition spawn_jailed :: "vm_config \<Rightarrow> jail_launch \<Rightarrow> u64 \<Rightarrow> string \<Rightarrow> world \<Rightarrow> (io_error, boot_target) result \<times> world" where
  "spawn_jailed c jail i log_path w =
     (case chroot_root (chroot_base_dir jail) (vc_firecracker_bin c) (jail_instance_id i) of
        None \<Rightarrow> (Inl (io_other ''firecracker_bin must have a file name'' []), w)
      | Some root \<Rightarrow>
          (case spawn_jailed_inner c jail (jail_instance_id i) root log_path w of
             (Inr t, w1) \<Rightarrow> (Inr t, w1)
           | (Inl e, w1) \<Rightarrow>
               (Inl e, case instance_dir root of None \<Rightarrow> w1 | Some d \<Rightarrow> snd (on_fs (remove_dir_all d) w1))))"

definition kill_child :: "nat \<Rightarrow> world \<Rightarrow> world" where
  "kill_child c w = snd (fc_do (FcKill c) w)"

definition abandon_boot :: "boot_target \<Rightarrow> world \<Rightarrow> world" where
  "abandon_boot t w =
     (let w1 = remove_files [bt_api_socket t, bt_vsock_socket t] (kill_child (bt_child t) w)
      in case bt_jail_instance_dir t of None \<Rightarrow> w1 | Some d \<Rightarrow> snd (on_fs (remove_dir_all d) w1))"

definition boot_inner :: "vm_config \<Rightarrow> u64 \<Rightarrow> string \<Rightarrow> world \<Rightarrow> (io_error, vm) result \<times> world" where
  "boot_inner c i log_path w =
     (case (case vc_jail c of None \<Rightarrow> spawn_direct c i log_path w | Some j \<Rightarrow> spawn_jailed c j i log_path w) of
        (Inl e, w1) \<Rightarrow> (Inl e, w1)
      | (Inr t, w1) \<Rightarrow>
          (case configure_and_start c t w1 of
             (Inl e, w2) \<Rightarrow> (Inl e, abandon_boot t w2)
           | (Inr _, w2) \<Rightarrow>
               (Inr \<lparr>vm_id = i, vm_child = bt_child t, vm_api_socket = bt_api_socket t,
                     vm_vsock_socket = bt_vsock_socket t, jail_instance_dir = bt_jail_instance_dir t\<rparr>, w2)))"

definition TUNNEL_PORT :: nat where
  "TUNNEL_PORT = 5003"

definition tunnel_socket_path :: "string \<Rightarrow> string" where
  "tunnel_socket_path vsock = vsock @ ''_'' @ show_nat TUNNEL_PORT"

text \<open>\<^verbatim>\<open>tunnel::listen\<close>: a stale socket is removed, then bound; a failure is only logged by its callers.\<close>

definition tunnel_listen :: "string \<Rightarrow> world \<Rightarrow> world" where
  "tunnel_listen vsock w =
     snd (fc_do (FcBind (tunnel_socket_path vsock)) (remove_files [tunnel_socket_path vsock] w))"

definition next_vm_id :: "world \<Rightarrow> u64 \<times> world" where
  "next_vm_id w = (w_next_vm w, w\<lparr>w_next_vm := w_next_vm w + 1\<rparr>)"

definition vm_boot :: "vm_config \<Rightarrow> world \<Rightarrow> (io_error, vm) result \<times> world" where
  "vm_boot c w =
     (let (i, w0) = next_vm_id w; log_path = console_log_path i in
      case boot_inner c i log_path w0 of
        (Inl e, w1) \<Rightarrow> (Inl (annotate_with_console_log e log_path), w1)
      | (Inr v, w1) \<Rightarrow> (Inr v, tunnel_listen (vm_vsock_socket v) w1))"

section \<open>Stop, pause, snapshot, resume\<close>

definition stop_inner :: "vm \<Rightarrow> bool \<Rightarrow> world \<Rightarrow> (io_error, unit) result \<times> world" where
  "stop_inner v sync_first w =
     (let w1 = (if sync_first then snd (vm_call v (Exec ''sync'' [] []) w) else w);
          w2 = kill_child (vm_child v) w1;
          w3 = remove_files [vm_api_socket v, vm_vsock_socket v, tunnel_socket_path (vm_vsock_socket v)] w2
      in (Inr (), case jail_instance_dir v of None \<Rightarrow> w3 | Some d \<Rightarrow> snd (on_fs (remove_dir_all d) w3)))"

definition vm_stop :: "vm \<Rightarrow> world \<Rightarrow> (io_error, unit) result \<times> world" where
  "vm_stop v w = stop_inner v True w"

definition vm_force_stop :: "vm \<Rightarrow> world \<Rightarrow> (io_error, unit) result \<times> world" where
  "vm_force_stop v w = stop_inner v False w"

definition vm_pause :: "vm \<Rightarrow> world \<Rightarrow> (io_error, unit) result \<times> world" where
  "vm_pause v w =
     (case api_connect (vm_api_socket v) w of
        (Inl e, w1) \<Rightarrow> (Inl e, w1)
      | (Inr _, w1) \<Rightarrow> patch_checked (vm_api_socket v) ''/vm'' (JObj [(''state'', JStr ''Paused'')]) w1)"

text \<open>
  Firecracker writes the two files itself, before or although it answers with an error: what a
  request to it does to the disk is the parameter \<open>cmd_effect\<close>, as for a spawned program.
\<close>

definition firecracker_writes :: "string \<Rightarrow> string list \<Rightarrow> world \<Rightarrow> world" where
  "firecracker_writes req paths w =
     w\<lparr>w_fs := (w_fs w)\<lparr>fs_nodes := cmd_effect (w_fs w) (Command req paths []) (fs_nodes (w_fs w))\<rparr>\<rparr>"

definition vm_snapshot :: "vm \<Rightarrow> string \<Rightarrow> string \<Rightarrow> world \<Rightarrow> (io_error, unit) result \<times> world" where
  "vm_snapshot v mem_path snapshot_path w =
     (case api_connect (vm_api_socket v) w of
        (Inl e, w1) \<Rightarrow> (Inl e, w1)
      | (Inr _, w1) \<Rightarrow>
     (case put_checked (vm_api_socket v) ''/snapshot/create''
             (JObj [(''mem_file_path'', JStr mem_path), (''snapshot_path'', JStr snapshot_path)]) w1 of
        (r, w2) \<Rightarrow> (r, firecracker_writes ''/snapshot/create'' [mem_path, snapshot_path] w2)))"

record resume_config =
  rc_firecracker_bin :: string
  rc_snapshot_path :: string
  rc_mem_file_path :: string

definition snapshot_load_json :: "resume_config \<Rightarrow> string \<Rightarrow> json" where
  "snapshot_load_json c vsock =
     JObj [(''snapshot_path'', JStr (rc_snapshot_path c)),
           (''mem_backend'', JObj [(''backend_type'', JStr ''File''), (''backend_path'', JStr (rc_mem_file_path c))]),
           (''resume_vm'', JBool True), (''vsock_override'', JObj [(''uds_path'', JStr vsock)])]"

definition load_snapshot :: "resume_config \<Rightarrow> string \<Rightarrow> string \<Rightarrow> world \<Rightarrow> (io_error, unit) result \<times> world" where
  "load_snapshot c api vsock w =
     (case connect_api_with_retry api (ms 2000) w of
        (Inl e, w1) \<Rightarrow> (Inl e, w1)
      | (Inr _, w1) \<Rightarrow> put_checked api ''/snapshot/load'' (snapshot_load_json c vsock) w1)"

definition vm_resume :: "resume_config \<Rightarrow> world \<Rightarrow> (io_error, vm) result \<times> world" where
  "vm_resume c w =
     (let (i, w0) = next_vm_id w; api = api_socket_path i; vsock = vsock_socket_path i; log_path = console_log_path i in
      case spawn_logged (rc_firecracker_bin c) [''--api-sock'', api] log_path (remove_files [api, vsock] w0) of
        (Inl e, w1) \<Rightarrow> (Inl e, w1)
      | (Inr child, w1) \<Rightarrow>
          (case load_snapshot c api vsock w1 of
             (Inl e, w2) \<Rightarrow>
               (Inl (annotate_with_console_log e log_path), remove_files [api, vsock] (kill_child child w2))
           | (Inr _, w2) \<Rightarrow>
               (Inr \<lparr>vm_id = i, vm_child = child, vm_api_socket = api, vm_vsock_socket = vsock,
                     jail_instance_dir = None\<rparr>, tunnel_listen vsock w2)))"

section \<open>Which processes are alive\<close>

text \<open>
  A child is named by the position of its spawn in the event log. It is alive when the spawn
  succeeded and no kill of it follows.
\<close>

definition is_spawn :: "fc_event \<Rightarrow> bool" where
  "is_spawn ev = (case ev of FcSpawn _ _ \<Rightarrow> True | _ \<Rightarrow> False)"

definition is_kill :: "fc_event \<Rightarrow> bool" where
  "is_kill ev = (case ev of FcKill _ \<Rightarrow> True | _ \<Rightarrow> False)"

definition spawned_at :: "world \<Rightarrow> nat \<Rightarrow> bool" where
  "spawned_at w k =
     (k < length (fc_events w) \<and> is_spawn (fc_events w ! k)
      \<and> is_ok (fst (fc_answer w (take k (fc_events w)) (fc_events w ! k))))"

definition live_children :: "world \<Rightarrow> nat set" where
  "live_children w = {k. spawned_at w k \<and> FcKill k \<notin> set (fc_events w)}"

text \<open>No kill in the log names a position the log has not reached.\<close>

definition kills_past :: "world \<Rightarrow> bool" where
  "kills_past w \<longleftrightarrow> (\<forall>k. FcKill k \<in> set (fc_events w) \<longrightarrow> k < length (fc_events w))"

text \<open>\<open>quiet w w'\<close>: from \<open>w\<close> to \<open>w'\<close> no process was spawned or killed.\<close>

definition quiet :: "world \<Rightarrow> world \<Rightarrow> bool" where
  "quiet w w' \<longleftrightarrow> fc_answer w' = fc_answer w \<and>
     (\<exists>es. fc_events w' = fc_events w @ es \<and> (\<forall>ev \<in> set es. \<not> is_spawn ev \<and> \<not> is_kill ev))"

named_theorems quiet_intros

lemma quiet_refl [quiet_intros]: "quiet w w"
  by (simp add: quiet_def)

lemma quiet_trans: "quiet w1 w2 \<Longrightarrow> quiet w2 w3 \<Longrightarrow> quiet w1 w3"
  by (fastforce simp: quiet_def)

lemma quiet_live:
  assumes "quiet w w'"
  shows "live_children w' = live_children w" "kills_past w \<Longrightarrow> kills_past w'"
proof -
  obtain es where es: "fc_events w' = fc_events w @ es" "\<forall>ev \<in> set es. \<not> is_spawn ev \<and> \<not> is_kill ev"
    and a: "fc_answer w' = fc_answer w"
    using assms by (auto simp: quiet_def)
  have "FcKill k \<notin> set es" for k using es(2) by (auto simp: is_kill_def)
  moreover have "spawned_at w' k = spawned_at w k" for k
  proof (cases "k < length (fc_events w)")
    case True
    with es(1) a show ?thesis by (simp add: spawned_at_def nth_append)
  next
    case False
    then have "fc_events w' ! k \<in> set es" if "k < length (fc_events w')"
      using that es(1) by (auto simp: nth_append)
    with es(2) False show ?thesis by (auto simp: spawned_at_def)
  qed
  ultimately show "live_children w' = live_children w" by (simp add: live_children_def es(1))
  show "kills_past w \<Longrightarrow> kills_past w'"
    using \<open>\<And>k. FcKill k \<notin> set es\<close> by (auto simp: kills_past_def es(1) trans_less_add1)
qed

lemma spawn_live:
  assumes "fc_do (FcSpawn p a) w = (r, w')" "kills_past w"
  shows "live_children w' = live_children w \<union> (if is_ok r then {length (fc_events w)} else {})"
    "length (fc_events w) \<notin> live_children w" "kills_past w'"
proof -
  have ev: "fc_events w' = fc_events w @ [FcSpawn p a]" and an: "fc_answer w' = fc_answer w"
    and r: "r = fst (fc_answer w (fc_events w) (FcSpawn p a))"
    using assms(1) by (auto simp: fc_do_def split: prod.splits)
  have "spawned_at w' k \<longleftrightarrow> spawned_at w k \<or> (k = length (fc_events w) \<and> is_ok r)" for k
    by (auto simp: spawned_at_def ev an nth_append r is_spawn_def less_Suc_eq)
  moreover have "FcKill k \<in> set (fc_events w') \<longleftrightarrow> FcKill k \<in> set (fc_events w)" for k by (simp add: ev)
  ultimately show "live_children w' = live_children w \<union> (if is_ok r then {length (fc_events w)} else {})"
    using assms(2) by (auto simp: live_children_def kills_past_def)
  show "length (fc_events w) \<notin> live_children w" by (simp add: live_children_def spawned_at_def)
  show "kills_past w'" using assms(2) by (auto simp: kills_past_def ev less_Suc_eq)
qed

lemma kill_live:
  assumes "kills_past w" "c < length (fc_events w)"
  shows "live_children (kill_child c w) = live_children w - {c}" "kills_past (kill_child c w)"
proof -
  have ev: "fc_events (kill_child c w) = fc_events w @ [FcKill c]" and an: "fc_answer (kill_child c w) = fc_answer w"
    by (auto simp: kill_child_def fc_do_def split: prod.splits)
  have "spawned_at (kill_child c w) k = spawned_at w k" for k
    by (auto simp: spawned_at_def ev an nth_append is_spawn_def less_Suc_eq)
  then show "live_children (kill_child c w) = live_children w - {c}" by (auto simp: live_children_def ev)
  show "kills_past (kill_child c w)" using assms by (auto simp: kills_past_def ev less_Suc_eq)
qed

section \<open>What each operation does to the log\<close>

lemma on_fs_quiet [quiet_intros]: "on_fs f w = (r, w') \<Longrightarrow> quiet w w'"
  by (auto simp: on_fs_def quiet_def split: prod.splits)

lemma on_fs_snd_quiet [quiet_intros]: "quiet w (snd (on_fs f w))"
  by (auto simp: on_fs_def quiet_def split: prod.splits)

lemma remove_files_quiet [quiet_intros]: "quiet w (remove_files ps w)"
proof (induction ps arbitrary: w)
  case (Cons p ps)
  have "remove_files (p # ps) w = remove_files ps (snd (on_fs (remove_file p) w))" by (simp add: remove_files_def)
  then show ?case using Cons quiet_trans [OF on_fs_snd_quiet] by metis
qed (simp add: remove_files_def quiet_refl)

lemma fc_do_quiet: "fc_do ev w = (r, w') \<Longrightarrow> \<not> is_spawn ev \<Longrightarrow> \<not> is_kill ev \<Longrightarrow> quiet w w'"
  by (auto simp: fc_do_def quiet_def split: prod.splits)

lemma quiet_events [simp]:
  "\<not> is_spawn (FcConnect s)" "\<not> is_kill (FcConnect s)" "\<not> is_spawn (FcPut s p b)" "\<not> is_kill (FcPut s p b)"
  "\<not> is_spawn (FcPatch s p b)" "\<not> is_kill (FcPatch s p b)" "\<not> is_spawn (FcCall s r)" "\<not> is_kill (FcCall s r)"
  "\<not> is_spawn (FcBind s)" "\<not> is_kill (FcBind s)"
  by (simp_all add: is_spawn_def is_kill_def)

lemma put_checked_quiet [quiet_intros]: "put_checked s p b w = (r, w') \<Longrightarrow> quiet w w'"
  by (auto simp: put_checked_def split: prod.splits sum.splits if_splits dest: fc_do_quiet)

lemma patch_checked_quiet [quiet_intros]: "patch_checked s p b w = (r, w') \<Longrightarrow> quiet w w'"
  by (auto simp: patch_checked_def split: prod.splits sum.splits if_splits dest: fc_do_quiet)

lemma api_connect_quiet [quiet_intros]: "api_connect s w = (r, w') \<Longrightarrow> quiet w w'"
  by (auto simp: api_connect_def split: prod.splits sum.splits dest: fc_do_quiet)

lemma vsock_call_quiet [quiet_intros]: "vsock_call s q w = (r, w') \<Longrightarrow> quiet w w'"
  by (auto simp: vsock_call_def quiet_def Let_def)

lemma quiet_now [simp]: "quiet w (v\<lparr>w_now := n\<rparr>) = quiet w v" "quiet (w\<lparr>w_now := n\<rparr>) v = quiet w v"
  by (simp_all add: quiet_def)

lemma retry_loop_quiet:
  "retry_loop d i m attempt w = (r, w') \<Longrightarrow> (\<And>v r v'. attempt v = (r, v') \<Longrightarrow> quiet v v') \<Longrightarrow> quiet w w'"
proof (induction d i m attempt w rule: retry_loop.induct)
  case (1 d i m attempt w)
  obtain r1 w1 where a: "attempt w = (r1, w1)" by (cases "attempt w")
  then have q1: "quiet w w1" using 1(3) by blast
  show ?case
  proof (cases "(\<exists>v. r1 = Inr v) \<or> d \<le> max (w_now w) (w_now w1)")
    case True
    then have "w' = w1" using 1(2) a by (subst (asm) retry_loop.simps) (auto simp: Let_def split: sum.splits)
    with q1 show ?thesis by simp
  next
    case False
    then obtain e where e: "r1 = Inl e" by (cases r1) auto
    with False a 1(2)
    have rest: "retry_loop d (min (i * 2) m) m attempt
        (w1\<lparr>w_now := max (w_now w) (w_now w1) + max 1 i\<rparr>) = (r, w')"
      by (subst (asm) retry_loop.simps) (simp add: Let_def)
    have "quiet (w1\<lparr>w_now := max (w_now w) (w_now w1) + max 1 i\<rparr>) w'"
      using 1(1) [OF a [symmetric] e refl _ rest 1(3)] False by auto
    with q1 show ?thesis by (auto intro: quiet_trans)
  qed
qed

lemma connect_retry_quiet [quiet_intros]: "connect_api_with_retry p t w = (r, w') \<Longrightarrow> quiet w w'"
  by (auto simp: connect_api_with_retry_def retry_with_backoff_def split: prod.splits sum.splits
      dest!: retry_loop_quiet intro: api_connect_quiet)

lemma vm_call_quiet [quiet_intros]: "vm_call v q w = (r, w') \<Longrightarrow> quiet w w'"
  unfolding vm_call_def retry_with_backoff_def by (erule retry_loop_quiet) (rule vsock_call_quiet)

lemma put_all_quiet [quiet_intros]: "put_all s rs w = (r, w') \<Longrightarrow> quiet w w'"
proof (induction s rs w arbitrary: r rule: put_all.induct)
  case (1 s w)
  then show ?case by (simp add: quiet_refl)
next
  case (2 s p b rs w)
  obtain r1 w1 where p: "put_checked s p b w = (r1, w1)" by (cases "put_checked s p b w")
  note q = put_checked_quiet [OF p]
  show ?case
  proof (cases r1)
    case (Inl e)
    with 2(2) p q show ?thesis by simp
  next
    case (Inr u)
    with 2(2) p have "put_all s rs w1 = (r, w')" by simp
    with 2(1) [OF p [symmetric] Inr] q show ?thesis by (blast intro: quiet_trans)
  qed
qed

lemma link_drives_quiet [quiet_intros]: "link_drives root ds w = (r, w') \<Longrightarrow> quiet w w'"
proof (induction root ds w arbitrary: r w' rule: link_drives.induct)
  case (1 root w)
  then show ?case by (simp add: quiet_refl)
next
  case (2 root d ds w)
  obtain r1 w1 where l: "on_fs (link_resource_into_jail (dc_path_on_host d) root (dc_drive_id d @ ''.ext4'') (\<not> dc_read_only d)) w = (r1, w1)"
    by (cases "on_fs (link_resource_into_jail (dc_path_on_host d) root (dc_drive_id d @ ''.ext4'') (\<not> dc_read_only d)) w")
  note q = on_fs_quiet [OF l]
  show ?case
  proof (cases r1)
    case (Inl e)
    with 2(2) l q show ?thesis by simp
  next
    case (Inr j)
    obtain r2 w2 where d: "link_drives root ds w1 = (r2, w2)" by (cases "link_drives root ds w1")
    with 2(2) l Inr have "w' = w2" by (auto split: sum.splits)
    with 2(1) [OF l [symmetric] Inr d] q show ?thesis by (blast intro: quiet_trans)
  qed
qed

lemma configure_quiet [quiet_intros]: "configure_and_start c t w = (r, w') \<Longrightarrow> quiet w w'"
  unfolding configure_and_start_def
  by (auto split: prod.splits sum.splits dest!: connect_retry_quiet put_all_quiet put_checked_quiet
      intro: quiet_trans)

text \<open>A spawn that succeeds adds one live child, the one it returns; a failed one adds none.\<close>

definition adds_child :: "world \<Rightarrow> nat option \<Rightarrow> world \<Rightarrow> bool" where
  "adds_child w c w' \<longleftrightarrow> kills_past w' \<and> live_children w' = live_children w \<union> set_option c
     \<and> (\<forall>k. c = Some k \<longrightarrow> k \<notin> live_children w \<and> k < length (fc_events w'))"

lemma quiet_adds_none: "quiet w w' \<Longrightarrow> kills_past w \<Longrightarrow> adds_child w None w'"
  by (simp add: adds_child_def quiet_live)

lemma quiet_length: "quiet w w' \<Longrightarrow> length (fc_events w) \<le> length (fc_events w')"
  by (auto simp: quiet_def)

lemma adds_then_quiet: "adds_child w c w1 \<Longrightarrow> quiet w1 w2 \<Longrightarrow> adds_child w c w2"
  using quiet_length [of w1 w2] by (auto simp: adds_child_def quiet_live intro: less_le_trans)

lemma quiet_then_adds: "quiet w w1 \<Longrightarrow> adds_child w1 c w2 \<Longrightarrow> adds_child w c w2"
  by (simp add: adds_child_def quiet_live)

lemma adds_then_kill: "adds_child w (Some k) w1 \<Longrightarrow> adds_child w None (kill_child k w1)"
  by (auto simp: adds_child_def kill_live)

lemma spawn_logged_adds:
  assumes "spawn_logged p a l w = (r, w')" "kills_past w"
  shows "adds_child w (case r of Inl _ \<Rightarrow> None | Inr k \<Rightarrow> Some k) w'"
proof -
  obtain r1 w1 where f: "on_fs (create_file l) w = (r1, w1)" by (cases "on_fs (create_file l) w")
  note q = on_fs_quiet [OF f]
  show ?thesis
  proof (cases r1)
    case (Inl e)
    with assms f q show ?thesis by (auto simp: spawn_logged_def intro: quiet_adds_none)
  next
    case (Inr u)
    obtain r2 w2 where s: "fc_do (FcSpawn p a) w1 = (r2, w2)" by (cases "fc_do (FcSpawn p a) w1")
    have w2: "w' = w2" and r: "r = (case r2 of Inl e \<Rightarrow> Inl e | Inr _ \<Rightarrow> Inr (length (fc_events w1)))"
      using assms(1) f s Inr by (auto simp: spawn_logged_def split: sum.splits)
    have "length (fc_events w1) < length (fc_events w2)"
      using s by (auto simp: fc_do_def split: prod.splits)
    then have "adds_child w1 (case r of Inl _ \<Rightarrow> None | Inr k \<Rightarrow> Some k) w'"
      using spawn_live [OF s] quiet_live(2) [OF q assms(2)] unfolding adds_child_def w2 r
      by (auto split: sum.splits)
    with q show ?thesis by (rule quiet_then_adds)
  qed
qed

lemma spawn_direct_adds:
  assumes "spawn_direct c i l w = (r, w')" "kills_past w"
  shows "adds_child w (case r of Inl _ \<Rightarrow> None | Inr t \<Rightarrow> Some (bt_child t)) w'"
proof -
  let ?w0 = "remove_files [api_socket_path i, vsock_socket_path i] w"
  have q: "quiet w ?w0" by (rule remove_files_quiet)
  obtain r1 w1 where s: "spawn_logged (vc_firecracker_bin c) [''--api-sock'', api_socket_path i] l ?w0 = (r1, w1)"
    by (cases "spawn_logged (vc_firecracker_bin c) [''--api-sock'', api_socket_path i] l ?w0")
  have "adds_child ?w0 (case r1 of Inl _ \<Rightarrow> None | Inr k \<Rightarrow> Some k) w1"
    by (rule spawn_logged_adds [OF s]) (rule quiet_live(2) [OF q assms(2)])
  then have "adds_child w (case r1 of Inl _ \<Rightarrow> None | Inr k \<Rightarrow> Some k) w1" using q by (rule quiet_then_adds [rotated])
  with s assms(1) show ?thesis by (cases r1) (auto simp: spawn_direct_def Let_def)
qed

lemma spawn_jailed_inner_adds:
  assumes "spawn_jailed_inner c j jid root l w = (r, w')" "kills_past w"
  shows "adds_child w (case r of Inl _ \<Rightarrow> None | Inr t \<Rightarrow> Some (bt_child t)) w'"
proof -
  have fin: "adds_child w (case r of Inl _ \<Rightarrow> None | Inr t \<Rightarrow> Some (bt_child t)) w'"
    if "quiet w w4" "spawn_logged p a l (remove_files fs w4) = (r1, w')"
      "case r1 of Inl e \<Rightarrow> r = Inl e | Inr k \<Rightarrow> \<exists>t. r = Inr t \<and> bt_child t = k" for w4 p a fs r1
  proof -
    have q: "quiet w (remove_files fs w4)" using that(1) remove_files_quiet by (rule quiet_trans)
    have "adds_child w (case r1 of Inl _ \<Rightarrow> None | Inr k \<Rightarrow> Some k) w'"
      using quiet_then_adds [OF q spawn_logged_adds [OF that(2) quiet_live(2) [OF q assms(2)]]] .
    with that(3) show ?thesis by (cases r1) auto
  qed
  have none: "adds_child w (case r of Inl _ \<Rightarrow> None | Inr t \<Rightarrow> Some (bt_child t)) w'" if "r = Inl e" "quiet w w'" for e
    using that quiet_adds_none assms(2) by simp
  obtain r1 w1 where 1: "on_fs (prepare_chroot_dir root) w = (r1, w1)" by (cases "on_fs (prepare_chroot_dir root) w")
  obtain r2 w2 where 2: "on_fs (link_resource_into_jail (vc_kernel_path c) root ''kernel'' False) w1 = (r2, w2)"
    by (cases "on_fs (link_resource_into_jail (vc_kernel_path c) root ''kernel'' False) w1")
  obtain r3 w3 where 3: "on_fs (link_resource_into_jail (vc_rootfs_path c) root ''rootfs.ext4'' True) w2 = (r3, w3)"
    by (cases "on_fs (link_resource_into_jail (vc_rootfs_path c) root ''rootfs.ext4'' True) w2")
  obtain r4 w4 where 4: "link_drives root (extra_drives c) w3 = (r4, w4)" by (cases "link_drives root (extra_drives c) w3")
  have q: "quiet w w1" "quiet w w2" "quiet w w3" "quiet w w4"
    using on_fs_quiet [OF 1] on_fs_quiet [OF 2] on_fs_quiet [OF 3] link_drives_quiet [OF 4] quiet_trans by blast+
  show ?thesis
  proof (cases "is_ok r1 \<and> is_ok r2 \<and> is_ok r3 \<and> is_ok r4")
    case True
    then obtain k ro ds where ok: "r2 = Inr k" "r3 = Inr ro" "r4 = Inr ds" "\<exists>u. r1 = Inr u"
      by (cases r1; cases r2; cases r3; cases r4) auto
    show ?thesis
      using assms(1) 1 2 3 4 ok fin [OF q(4)]
      by (auto simp: spawn_jailed_inner_def Let_def split: prod.splits sum.splits)
  next
    case False
    then show ?thesis
      using assms(1) 1 2 3 4 q none
      by (auto simp: spawn_jailed_inner_def Let_def split: prod.splits sum.splits)
  qed
qed

lemma spawn_jailed_adds:
  assumes "spawn_jailed c j i l w = (r, w')" "kills_past w"
  shows "adds_child w (case r of Inl _ \<Rightarrow> None | Inr t \<Rightarrow> Some (bt_child t)) w'"
proof (cases "chroot_root (chroot_base_dir j) (vc_firecracker_bin c) (jail_instance_id i)")
  case None
  with assms show ?thesis using quiet_adds_none [OF quiet_refl assms(2)] by (auto simp: spawn_jailed_def)
next
  case (Some root)
  obtain r1 w1 where s: "spawn_jailed_inner c j (jail_instance_id i) root l w = (r1, w1)"
    by (cases "spawn_jailed_inner c j (jail_instance_id i) root l w")
  have "quiet w1 w' \<or> w' = w1" "case r1 of Inl e \<Rightarrow> r = Inl e | Inr t \<Rightarrow> r = Inr t"
    using assms(1) Some s
    by (auto simp: spawn_jailed_def on_fs_snd_quiet split: sum.splits option.splits)
  with spawn_jailed_inner_adds [OF s assms(2)] show ?thesis
    by (cases r1) (auto intro: adds_then_quiet quiet_refl)
qed

lemma abandon_quiet: "quiet (kill_child (bt_child t) w) (abandon_boot t w)"
  by (auto simp: abandon_boot_def Let_def split: option.splits
      intro: remove_files_quiet quiet_trans [OF remove_files_quiet on_fs_snd_quiet])

lemma boot_inner_adds:
  assumes "boot_inner c i l w = (r, w')" "kills_past w"
  shows "adds_child w (case r of Inl _ \<Rightarrow> None | Inr v \<Rightarrow> Some (vm_child v)) w'"
proof -
  obtain r1 w1 where s: "(case vc_jail c of None \<Rightarrow> spawn_direct c i l w | Some j \<Rightarrow> spawn_jailed c j i l w) = (r1, w1)"
    by (cases "case vc_jail c of None \<Rightarrow> spawn_direct c i l w | Some j \<Rightarrow> spawn_jailed c j i l w")
  have a: "adds_child w (case r1 of Inl _ \<Rightarrow> None | Inr t \<Rightarrow> Some (bt_child t)) w1"
    using s assms(2) spawn_direct_adds spawn_jailed_adds by (auto split: option.splits)
  show ?thesis
  proof (cases r1)
    case (Inl e)
    with a s assms(1) show ?thesis by (auto simp: boot_inner_def)
  next
    case (Inr t)
    obtain r2 w2 where c: "configure_and_start c t w1 = (r2, w2)" by (cases "configure_and_start c t w1")
    have a2: "adds_child w (Some (bt_child t)) w2"
      using adds_then_quiet [OF _ configure_quiet [OF c]] a Inr by simp
    show ?thesis
      using assms(1) s Inr c a2 adds_then_quiet [OF adds_then_kill [OF a2] abandon_quiet]
      by (cases r2) (auto simp: boot_inner_def)
  qed
qed

lemma tunnel_listen_quiet: "quiet w (tunnel_listen v w)"
proof -
  have "fc_do (FcBind (tunnel_socket_path v)) (remove_files [tunnel_socket_path v] w) =
      (fst (fc_do (FcBind (tunnel_socket_path v)) (remove_files [tunnel_socket_path v] w)), tunnel_listen v w)"
    by (simp add: tunnel_listen_def)
  from fc_do_quiet [OF this] show ?thesis by (auto intro: quiet_trans [OF remove_files_quiet])
qed

lemma next_vm_quiet: "next_vm_id w = (i, w') \<Longrightarrow> quiet w w'"
  by (auto simp: next_vm_id_def quiet_def)

lemma vm_boot_adds:
  assumes "vm_boot c w = (r, w')" "kills_past w"
  shows "adds_child w (case r of Inl _ \<Rightarrow> None | Inr v \<Rightarrow> Some (vm_child v)) w'"
proof -
  obtain i w0 where n: "next_vm_id w = (i, w0)" by (cases "next_vm_id w")
  obtain r1 w1 where b: "boot_inner c i (console_log_path i) w0 = (r1, w1)"
    by (cases "boot_inner c i (console_log_path i) w0")
  note q = next_vm_quiet [OF n]
  have "adds_child w (case r1 of Inl _ \<Rightarrow> None | Inr v \<Rightarrow> Some (vm_child v)) w1"
    using quiet_then_adds [OF q boot_inner_adds [OF b quiet_live(2) [OF q assms(2)]]] .
  with n b assms(1) show ?thesis
    by (cases r1) (auto simp: vm_boot_def intro: adds_then_quiet [OF _ tunnel_listen_quiet])
qed

lemma vm_resume_adds:
  assumes "vm_resume c w = (r, w')" "kills_past w"
  shows "adds_child w (case r of Inl _ \<Rightarrow> None | Inr v \<Rightarrow> Some (vm_child v)) w'"
proof -
  obtain i w0 where n: "next_vm_id w = (i, w0)" by (cases "next_vm_id w")
  let ?socks = "[api_socket_path i, vsock_socket_path i]"
  have q: "quiet w (remove_files ?socks w0)" using next_vm_quiet [OF n] remove_files_quiet by (rule quiet_trans)
  obtain r1 w1 where s: "spawn_logged (rc_firecracker_bin c) [''--api-sock'', api_socket_path i] (console_log_path i)
      (remove_files ?socks w0) = (r1, w1)"
    by (cases "spawn_logged (rc_firecracker_bin c) [''--api-sock'', api_socket_path i] (console_log_path i) (remove_files ?socks w0)")
  have a: "adds_child w (case r1 of Inl _ \<Rightarrow> None | Inr k \<Rightarrow> Some k) w1"
    using quiet_then_adds [OF q spawn_logged_adds [OF s quiet_live(2) [OF q assms(2)]]] .
  show ?thesis
  proof (cases r1)
    case (Inl e)
    with n s a assms(1) show ?thesis by (auto simp: vm_resume_def Let_def)
  next
    case (Inr k)
    obtain r2 w2 where l: "load_snapshot c (api_socket_path i) (vsock_socket_path i) w1 = (r2, w2)"
      by (cases "load_snapshot c (api_socket_path i) (vsock_socket_path i) w1")
    then have "quiet w1 w2"
      by (auto simp: load_snapshot_def split: prod.splits sum.splits dest!: connect_retry_quiet put_checked_quiet intro: quiet_trans)
    with a Inr have a2: "adds_child w (Some k) w2" by (auto intro: adds_then_quiet)
    show ?thesis
      using assms(1) n s Inr l adds_then_quiet [OF a2 tunnel_listen_quiet]
        adds_then_quiet [OF adds_then_kill [OF a2] remove_files_quiet]
      by (cases r2) (auto simp: vm_resume_def Let_def)
  qed
qed

lemma stop_inner_live:
  assumes "stop_inner v sync w = (r, w')" "kills_past w" "vm_child v < length (fc_events w)"
  shows "r = Inr ()" "live_children w' = live_children w - {vm_child v}" "kills_past w'"
proof -
  define w1 where "w1 = (if sync then snd (vm_call v (Exec ''sync'' [] []) w) else w)"
  have q: "quiet w w1"
    using vm_call_quiet [of v "Exec ''sync'' [] []" w] by (cases "vm_call v (Exec ''sync'' [] []) w") (simp add: w1_def quiet_refl)
  let ?w2 = "kill_child (vm_child v) w1"
  have len: "vm_child v < length (fc_events w1)" using quiet_length [OF q] assms(3) by simp
  have k: "live_children ?w2 = live_children w - {vm_child v}" "kills_past ?w2"
    using kill_live [OF quiet_live(2) [OF q assms(2)] len] quiet_live(1) [OF q] by simp_all
  have "quiet ?w2 w'" "r = Inr ()"
    using assms(1) unfolding stop_inner_def w1_def [symmetric] Let_def
    by (auto split: option.splits intro: remove_files_quiet quiet_trans [OF remove_files_quiet on_fs_snd_quiet])
  with k quiet_live show "r = Inr ()" "live_children w' = live_children w - {vm_child v}" "kills_past w'" by auto
qed

section \<open>Retries\<close>

definition takes_at_most :: "nat \<Rightarrow> (world \<Rightarrow> (io_error, 'a) result \<times> world) \<Rightarrow> bool" where
  "takes_at_most t attempt \<longleftrightarrow>
     (\<forall>v r v'. attempt v = (r, v') \<longrightarrow> w_now v \<le> w_now v' \<and> w_now v' \<le> w_now v + t)"

lemma retry_loop_time:
  "retry_loop d i m attempt w = (Inl e, w') \<Longrightarrow> takes_at_most t attempt \<Longrightarrow> max 1 i \<le> b \<Longrightarrow> max 1 m \<le> b \<Longrightarrow>
     d \<le> w_now w' \<and> w_now w' \<le> max (w_now w) (d + b) + t"
proof (induction d i m attempt w rule: retry_loop.induct)
  case (1 d i m attempt w)
  obtain r1 w1 where a: "attempt w = (r1, w1)" by (cases "attempt w")
  have w1: "w_now w \<le> w_now w1" "w_now w1 \<le> w_now w + t" using 1(3) a by (auto simp: takes_at_most_def)
  obtain e1 where e1: "r1 = Inl e1"
    using 1(2) a by (cases r1) (auto simp: retry_loop.simps [of d i m attempt w])
  show ?case
  proof (cases "d \<le> max (w_now w) (w_now w1)")
    case True
    then have "w' = w1" using 1(2) a e1 by (simp add: retry_loop.simps [of d i m attempt w] Let_def)
    with True w1 show ?thesis by auto
  next
    case False
    let ?v = "w1\<lparr>w_now := max (w_now w) (w_now w1) + max 1 i\<rparr>"
    have "retry_loop d (min (i * 2) m) m attempt ?v = (Inl e, w')"
      using 1(2) a e1 False by (simp add: retry_loop.simps [of d i m attempt w] Let_def)
    then have "d \<le> w_now w' \<and> w_now w' \<le> max (w_now ?v) (d + b) + t"
      using 1(1) [OF a [symmetric] e1 refl] False 1(3-5) by auto
    with False w1 1(4) show ?thesis by auto
  qed
qed

lemma retry_loop_error:
  "(\<And>v. \<exists>e v'. attempt v = (Inl e, v')) \<Longrightarrow> \<exists>e w'. retry_loop d i m attempt w = (Inl e, w')"
proof (induction d i m attempt w rule: retry_loop.induct)
  case (1 d i m attempt w)
  obtain e w1 where a: "attempt w = (Inl e, w1)" using 1(2) by blast
  show ?case
    using 1(1) [OF a [symmetric] refl refl _ 1(2)] a
    by (cases "d \<le> max (w_now w) (w_now w1)") (auto simp: retry_loop.simps [of d i m attempt w] Let_def)
qed

section \<open>Properties\<close>

text \<open>
  C16. No Firecracker process is ever leaked: whatever fails during a boot (spawn, any link into
  the jail, any API call, the configuration itself) or a resume, the set of live processes
  afterwards is the one before; on success it has exactly one more, the returned VM's;
  and stopping a VM always reports success and removes exactly its process.
\<close>

theorem no_process_leak:
  assumes "kills_past w"
  shows "(vm_boot c w = (Inl e, w') \<longrightarrow>
       (live_children w' = live_children w))
   \<and> (vm_boot c w = (Inr v, w') \<longrightarrow>
       (live_children w' = insert (vm_child v) (live_children w) \<and> vm_child v \<notin> live_children w))
   \<and> (vm_resume rc w = (Inl e, w') \<longrightarrow>
       (live_children w' = live_children w))
   \<and> (vm_resume rc w = (Inr v, w') \<longrightarrow>
       (live_children w' = insert (vm_child v) (live_children w) \<and> vm_child v \<notin> live_children w))
   \<and> (vm_child v < length (fc_events w) \<longrightarrow> stop_inner v sync w = (r, w') \<longrightarrow>
       (r = Inr () \<and> live_children w' = live_children w - {vm_child v}))"
  using vm_boot_adds [OF _ assms] vm_resume_adds [OF _ assms] stop_inner_live [OF _ assms]
  by (intro conjI impI) (fastforce simp: adds_child_def)+

definition sample_world :: world where
  "sample_world =
     \<lparr>w_sys = sample_sys,
      w_fs = \<lparr>fs_nodes = [([''tmp''], DirNode)], fs_faults = (\<lambda>_ _. None), fs_ops = [], cmd_effect = (\<lambda>_ ns. ns)\<rparr>,
      w_now = 0, w_epoch = 0, w_uuid = show_nat, w_uuid_next = 0, w_next_vm = 1, fc_events = [],
      fc_answer = (\<lambda>_ _. (Inr (204, []), 0)), agent = (\<lambda>_ _ _. Inr ROk)\<rparr>"

definition sample_vm_config :: vm_config where
  "sample_vm_config =
     \<lparr>vc_firecracker_bin = ''/bin/fc'', vc_kernel_path = ''/k'', vc_rootfs_path = ''/r'', vc_vcpu_count = 1,
      vc_mem_size_mib = 128, vc_network = None, extra_drives = [], vc_jail = None, vc_rate_limit = None,
      vc_metadata = None\<rparr>"

definition benign :: "world \<Rightarrow> bool" where
  "benign w \<longleftrightarrow> fc_answer w = (\<lambda>_ _. (Inr (204, []), 0)) \<and> fs_faults (w_fs w) = (\<lambda>_ _. None)"

lemma benign_fc_do: "benign w \<Longrightarrow> \<exists>w'. fc_do ev w = (Inr (204, []), w') \<and> benign w'"
  by (simp add: benign_def fc_do_def)

lemma benign_put: "benign w \<Longrightarrow> \<exists>w'. put_checked s p b w = (Inr (), w') \<and> benign w'"
  using benign_fc_do [of w "FcPut s p b"] by (auto simp: put_checked_def status_ok_def)

lemma benign_put_all: "benign w \<Longrightarrow> \<exists>w'. put_all s rs w = (Inr (), w') \<and> benign w'"
proof (induction rs arbitrary: w)
  case (Cons r rs)
  obtain p b where r: "r = (p, b)" by (cases r)
  obtain w1 where "put_checked s p b w = (Inr (), w1)" "benign w1" using benign_put [OF Cons.prems] by blast
  with Cons.IH [of w1] r show ?case by auto
qed simp

lemma benign_connect: "benign w \<Longrightarrow> \<exists>w'. connect_api_with_retry p t w = (Inr (), w') \<and> benign w'"
  using benign_fc_do [of w "FcConnect p"]
  by (auto simp: connect_api_with_retry_def retry_with_backoff_def api_connect_def retry_loop.simps)

lemma benign_remove_file:
  "benign w \<Longrightarrow> \<not> is_file p (w_fs w) \<Longrightarrow>
     benign (snd (on_fs (remove_file p) w)) \<and> fs_nodes (w_fs (snd (on_fs (remove_file p) w))) = fs_nodes (w_fs w)"
  by (auto simp: benign_def on_fs_def remove_file_def fs_try_def is_file_def node_at_def split: option.splits node.splits)

lemma sample_boot_ok: "is_ok (fst (vm_boot sample_vm_config sample_world))"
proof -
  let ?api = "api_socket_path 1" and ?vsock = "vsock_socket_path 1" and ?log = "console_log_path 1"
  define w0 where "w0 = snd (next_vm_id sample_world)"
  have b0: "benign w0" by (simp add: benign_def w0_def next_vm_id_def sample_world_def)
  have f0: "w_fs w0 = w_fs sample_world" by (simp add: w0_def next_vm_id_def)
  have no: "\<not> is_file ?api (w_fs sample_world)" "\<not> is_file ?vsock (w_fs sample_world)"
    "can_create ?log (w_fs sample_world)" by code_simp+
  define w1 where "w1 = snd (on_fs (remove_file ?api) w0)"
  have b1: "benign w1" and f1: "fs_nodes (w_fs w1) = fs_nodes (w_fs sample_world)"
    using benign_remove_file [OF b0, of ?api] no(1) by (simp_all add: w1_def f0)
  define w2 where "w2 = snd (on_fs (remove_file ?vsock) w1)"
  have "\<not> is_file ?vsock (w_fs w1)" using no(2) f1 is_file_cong [of "w_fs w1" "w_fs sample_world"] by simp
  then have b2: "benign w2" and f2: "fs_nodes (w_fs w2) = fs_nodes (w_fs sample_world)"
    using benign_remove_file [OF b1, of ?vsock] by (simp_all add: w2_def f1)
  have "can_create ?log (snd (fs_try (OpCreate ?log) (w_fs w2)))"
    using no(3) can_create_cong [of "snd (fs_try (OpCreate ?log) (w_fs w2))" "w_fs sample_world" ?log] f2 by simp
  then obtain w3 where l: "on_fs (create_file ?log) w2 = (Inr (), w3)" and b3: "benign w3"
    using b2 by (auto simp: on_fs_def create_file_def benign_def fs_try_def)
  obtain w4 where s: "fc_do (FcSpawn ''/bin/fc'' [''--api-sock'', ?api]) w3 = (Inr (204, []), w4)" and b4: "benign w4"
    using benign_fc_do [OF b3] by blast
  obtain w5 where c: "connect_api_with_retry ?api (ms 2000) w4 = (Inr (), w5)" and b5: "benign w5"
    using benign_connect [OF b4] by blast
  have cfg: "\<exists>rs. configuration_requests sample_vm_config t = Inr rs" for t
    by (simp add: configuration_requests_def sample_vm_config_def Let_def)
  have put: "\<exists>w6. put_all ?api rs w5 = (Inr (), w6) \<and> benign w6" for rs by (rule benign_put_all [OF b5])
  have dir: "\<exists>t. spawn_direct sample_vm_config 1 ?log w0 = (Inr t, w4) \<and> bt_api_socket t = ?api"
    using l s by (simp add: spawn_direct_def spawn_logged_def remove_files_def w1_def [symmetric] w2_def [symmetric]
        sample_vm_config_def Let_def)
  then obtain t where t: "spawn_direct sample_vm_config 1 ?log w0 = (Inr t, w4)" "bt_api_socket t = ?api" by blast
  obtain rs where rs: "configuration_requests sample_vm_config t = Inr rs" using cfg by blast
  obtain w6 where w6: "put_all ?api rs w5 = (Inr (), w6)" "benign w6" using put by blast
  have "is_ok (fst (configure_and_start sample_vm_config t w4))"
    using c rs w6 t(2) benign_put [OF w6(2), of ?api "''/actions''" instance_start_json]
    by (auto simp: configure_and_start_def)
  then have "is_ok (fst (boot_inner sample_vm_config 1 ?log w0))"
    using t(1) by (auto simp: boot_inner_def sample_vm_config_def split: prod.splits sum.splits)
  moreover have "next_vm_id sample_world = (1, w0)" by (simp add: w0_def next_vm_id_def sample_world_def)
  ultimately show ?thesis by (auto simp: vm_boot_def Let_def split: prod.splits sum.splits)
qed

theorem no_process_leak_witness:
  "\<exists>v w'. vm_boot sample_vm_config sample_world = (Inr v, w') \<and> live_children w' = {vm_child v}"
proof -
  have "is_ok (fst (vm_boot sample_vm_config sample_world))" by (rule sample_boot_ok)
  then obtain v w' where b: "vm_boot sample_vm_config sample_world = (Inr v, w')"
    by (cases "vm_boot sample_vm_config sample_world"; cases "fst (vm_boot sample_vm_config sample_world)") auto
  have "kills_past sample_world" "live_children sample_world = {}"
    by (simp_all add: kills_past_def live_children_def spawned_at_def sample_world_def)
  with no_process_leak [OF this(1), of sample_vm_config _ w' v] b show ?thesis by auto
qed

text \<open>
  C40. A retry loop (the API socket, every call to the guest agent) always ends; it gives up
  only at or after its deadline, with the error of the last attempt, and at most one maximal
  sleep and one attempt later.
\<close>

theorem retry_gives_up_in_time:
  assumes "retry_with_backoff timeout initial max_interval attempt w = (Inl e, w')"
    "takes_at_most t attempt" "0 < initial" "initial \<le> max_interval"
  shows "(w_now w + timeout \<le> w_now w')
   \<and> (w_now w' \<le> w_now w + timeout + max_interval + t)"
  using retry_loop_time [of "w_now w + timeout" initial max_interval attempt w e w' t max_interval] assms
  by (auto simp: retry_with_backoff_def)

definition dead_agent_world :: world where
  "dead_agent_world = sample_world\<lparr>agent := (\<lambda>_ _ _. Inl (IoError ConnectionRefused (Msg [] [])))\<rparr>"

theorem retry_gives_up_in_time_witness:
  "\<exists>e w'. retry_with_backoff (ms 5000) (ms 1) (ms 20)
       (\<lambda>v. (Inl (IoError ConnectionRefused (Msg [] [])) :: (io_error, response) result, v)) dead_agent_world = (Inl e, w')
     \<and> 5000000000 \<le> w_now w' \<and> w_now w' \<le> 5020000000"
proof -
  let ?att = "\<lambda>v. (Inl (IoError ConnectionRefused (Msg [] [])) :: (io_error, response) result, v :: world)"
  obtain e w' where r: "retry_with_backoff (ms 5000) (ms 1) (ms 20) ?att dead_agent_world = (Inl e, w')"
    using retry_loop_error [of ?att "w_now dead_agent_world + ms 5000" "ms 1" "ms 20" dead_agent_world]
    unfolding retry_with_backoff_def by blast
  have "takes_at_most 0 ?att" by (simp add: takes_at_most_def)
  from retry_gives_up_in_time [OF r this] r show ?thesis by (simp add: dead_agent_world_def sample_world_def)
qed

text \<open>
  The configuration of a VM is refused exactly when metadata comes without a network;
  otherwise the boot source and a writable root device come first, every extra drive follows
  in attachment order under its own path, MMDS is configured only after the network
  interface it needs, and nothing is left out.
\<close>

theorem configuration_order:
  assumes "length (bt_drive_paths t) = length (extra_drives c)"
  shows "(is_ok (configuration_requests c t) \<longleftrightarrow> vc_metadata c = None \<or> vc_network c \<noteq> None)
   \<and> (configuration_requests c t = Inr rs \<longrightarrow>
       (map fst rs = [''/boot-source'', ''/drives/rootfs''] @ map (\<lambda>d. ''/drives/'' @ dc_drive_id d) (extra_drives c)
         @ [''/machine-config''] @ (if vc_network c = None then [] else [''/network-interfaces/eth0''])
         @ (if vc_metadata c = None then [] else [''/mmds/config'', ''/mmds'']) @ [''/vsock'']))
   \<and> (configuration_requests c t = Inr rs \<longrightarrow> i < length (extra_drives c) \<longrightarrow>
       (\<exists>body. snd (rs ! (2 + i)) = JObj body
         \<and> map_of body ''path_on_host'' = Some (JStr (bt_drive_paths t ! i))
         \<and> map_of body ''is_read_only'' = Some (JBool (dc_read_only (extra_drives c ! i)))
         \<and> map_of body ''is_root_device'' = Some (JBool False)))"
proof -
  have c1: "is_ok (configuration_requests c t) \<longleftrightarrow> vc_metadata c = None \<or> vc_network c \<noteq> None"
    by (auto simp: configuration_requests_def Let_def split: option.splits)
  have drives: "map fst (drive_requests c t) = map (\<lambda>d. ''/drives/'' @ dc_drive_id d) (extra_drives c)"
  proof -
    have "map fst (drive_requests c t) = map (\<lambda>d. ''/drives/'' @ dc_drive_id d) (map fst (zip (extra_drives c) (bt_drive_paths t)))"
      by (auto simp: drive_requests_def)
    with assms show ?thesis by (simp only: map_fst_zip)
  qed
  have c2: "configuration_requests c t = Inr rs \<Longrightarrow>
       map fst rs = [''/boot-source'', ''/drives/rootfs''] @ map (\<lambda>d. ''/drives/'' @ dc_drive_id d) (extra_drives c)
         @ [''/machine-config''] @ (if vc_network c = None then [] else [''/network-interfaces/eth0''])
         @ (if vc_metadata c = None then [] else [''/mmds/config'', ''/mmds'']) @ [''/vsock'']"
    by (auto simp: configuration_requests_def Let_def rootfs_request_def network_request_def drives
        split: option.splits if_splits)
  have c3: "\<exists>body. snd (rs ! (2 + i)) = JObj body
         \<and> map_of body ''path_on_host'' = Some (JStr (bt_drive_paths t ! i))
         \<and> map_of body ''is_read_only'' = Some (JBool (dc_read_only (extra_drives c ! i)))
         \<and> map_of body ''is_root_device'' = Some (JBool False)"
    if r: "configuration_requests c t = Inr rs" and i: "i < length (extra_drives c)"
  proof -
  have len: "length (drive_requests c t) = length (extra_drives c)" using assms by (simp add: drive_requests_def)
  have "rs ! (2 + i) = drive_requests c t ! i"
    using r i len by (auto simp: configuration_requests_def Let_def nth_append split: option.splits if_splits)
  then show ?thesis
    using i assms by (auto simp: drive_requests_def insert_rate_limiter_def split: option.splits)
  qed
  show ?thesis using c1 c2 c3 by blast
qed

definition sample_boot_target :: boot_target where
  "sample_boot_target =
     \<lparr>bt_child = 0, bt_api_socket = ''/a'', bt_vsock_socket = ''/v'', bt_kernel_image_path = ''/k'',
      bt_rootfs_path = ''/r'', bt_drive_paths = [''/d''], bt_vsock_uds_path = ''/v'', bt_jail_instance_dir = None\<rparr>"

theorem configuration_order_witness:
  "\<exists>rs body. configuration_requests (sample_vm_config\<lparr>extra_drives := [\<lparr>dc_drive_id = ''drive_x'', dc_path_on_host = ''/d'', dc_read_only = True\<rparr>]\<rparr>)
       sample_boot_target = Inr rs \<and> snd (rs ! 2) = JObj body \<and> map_of body ''is_read_only'' = Some (JBool True)"
proof -
  let ?c = "sample_vm_config\<lparr>extra_drives := [\<lparr>dc_drive_id = ''drive_x'', dc_path_on_host = ''/d'', dc_read_only = True\<rparr>]\<rparr>"
  have l: "length (bt_drive_paths sample_boot_target) = length (extra_drives ?c)" by (simp add: sample_boot_target_def)
  obtain rs where rs: "configuration_requests ?c sample_boot_target = Inr rs"
    using configuration_order [OF l] by (cases "configuration_requests ?c sample_boot_target") (auto simp: sample_vm_config_def)
  from configuration_order [OF l, of rs 0] rs show ?thesis by auto
qed

end
