(* ===== verification/Config.thy ===== *)
theory Config
  imports Jailer
begin

text \<open>
  The daemon's configuration (\<^verbatim>\<open>config.rs\<close>) and its error type (\<^verbatim>\<open>error.rs\<close>).

  The process environment is a parameter \<open>env\<close> from names to values; reading a variable
  that is unset or not Unicode gives \<open>None\<close>. A panic of \<^verbatim>\<open>from_env\<close> (an \<^verbatim>\<open>expect\<close>, an
  \<^verbatim>\<open>assert!\<close>) is the left side of the result, with the message it panics with. The fields
  are read in the order of the source, so the first panic is the one that is reported.
\<close>

section \<open>The configuration\<close>

record jailer_host_config =
  jc_jailer_bin :: string
  jc_chroot_base_dir :: string
  uid_gid_range :: "u32 \<times> u32"

datatype log_format = PrettyLog | JsonLog

record config =
  cf_listen_addr :: string
  cf_firecracker_bin :: string
  cf_kernel_path :: string
  base_rootfs_path :: string
  cf_vcpu_count :: u8
  cf_mem_size_mib :: u32
  max_vcpu_count :: u8
  max_mem_size_mib :: u32
  cf_bridge_name :: string
  cf_bridge_gateway :: ipv4
  cf_uplink_iface :: "string option"
  tap_pool_prefix :: string
  tap_pool_size :: u32
  auth_token :: "string option"
  drives_dir :: string
  images_dir :: string
  history_db_path :: string
  idle_timeout :: "nat option"
  auto_suspend_timeout :: "nat option"
  archive_timeout :: "nat option"
  archive_dir :: string
  cf_log_format :: log_format
  preview_timeout :: nat
  cf_jailer :: "jailer_host_config option"

type_synonym environment = "string \<Rightarrow> string option"

definition log_format_parse :: "string option \<Rightarrow> log_format" where
  "log_format_parse value =
     (case value of
        Some v \<Rightarrow> if eq_ignore_ascii_case v ''json'' then JsonLog else PrettyLog
      | None \<Rightarrow> PrettyLog)"

definition log_format_from_env :: "environment \<Rightarrow> log_format" where
  "log_format_from_env env = log_format_parse (env ''SANDKILN_LOG_FORMAT'')"

definition env_or :: "environment \<Rightarrow> string \<Rightarrow> string \<Rightarrow> string" where
  "env_or env key dflt = (case env key of None \<Rightarrow> dflt | Some v \<Rightarrow> v)"

definition expect_number :: "string \<Rightarrow> nat \<Rightarrow> string \<Rightarrow> (message, nat) result" where
  "expect_number key maximum v = ok_or (Msg ''{} must be a number'' [key]) (parse_unsigned maximum v)"

definition env_number :: "environment \<Rightarrow> string \<Rightarrow> string \<Rightarrow> nat \<Rightarrow> (message, nat) result" where
  "env_number env key dflt maximum = expect_number key maximum (env_or env key dflt)"

text \<open>Unset and \<^verbatim>\<open>0\<close> both disable a timeout.\<close>

definition parse_timeout_secs_env :: "environment \<Rightarrow> string \<Rightarrow> (message, nat option) result" where
  "parse_timeout_secs_env env key =
     (case env key of
        None \<Rightarrow> Inr None
      | Some v \<Rightarrow>
          and_then (expect_number key (2 ^ 64 - 1) v)
            (\<lambda>n. Inr (if 0 < n then Some (secs n) else None)))"

definition parse_bool_env :: "string option \<Rightarrow> bool" where
  "parse_bool_env value =
     (case value of Some v \<Rightarrow> eq_ignore_ascii_case v ''true'' \<or> v = ''1'' | None \<Rightarrow> False)"

text \<open>The addition is the wrapping one of a release build.\<close>

definition jailer_uid_gid_range :: "u32 \<Rightarrow> u32 \<Rightarrow> u32 \<times> u32" where
  "jailer_uid_gid_range base sz = (base, base + saturating_sub sz 1)"

definition expand_home :: "environment \<Rightarrow> string \<Rightarrow> (message, string) result" where
  "expand_home env path =
     (case strip_prefix ''~/'' path of
        Some rest \<Rightarrow>
          and_then (ok_or (Msg ''HOME must be set to expand ~'' []) (env ''HOME''))
            (\<lambda>home. Inr (path_join home rest))
      | None \<Rightarrow> Inr path)"

definition env_path :: "environment \<Rightarrow> string \<Rightarrow> string \<Rightarrow> (message, string) result" where
  "env_path env key dflt = expand_home env (env_or env key dflt)"

definition jailer_config_from_env :: "environment \<Rightarrow> (message, jailer_host_config option) result" where
  "jailer_config_from_env env =
     (if \<not> parse_bool_env (env ''SANDKILN_JAILER_ENABLED'') then Inr None
      else and_then (env_number env ''SANDKILN_JAILER_UID_GID_BASE'' ''600000'' (2 ^ 32 - 1)) (\<lambda>base.
           and_then (env_number env ''SANDKILN_JAILER_POOL_SIZE'' ''32'' (2 ^ 32 - 1)) (\<lambda>sz.
             if sz = 0 then Inl (Msg ''SANDKILN_JAILER_POOL_SIZE must be at least 1 when jailer is enabled'' [])
             else and_then (env_path env ''SANDKILN_JAILER_BIN'' ''~/sandkiln-tools/bin/jailer'') (\<lambda>bin.
                  and_then (env_path env ''SANDKILN_JAILER_CHROOT_BASE_DIR'' ''~/sandkiln-tools/jail'') (\<lambda>chroot.
                    Inr (Some \<lparr>jc_jailer_bin = bin, jc_chroot_base_dir = chroot,
                      uid_gid_range = jailer_uid_gid_range (of_nat base) (of_nat sz)\<rparr>))))))"

definition check_suspend_precedes_destroy :: "nat option \<Rightarrow> nat option \<Rightarrow> (message, unit) result" where
  "check_suspend_precedes_destroy suspend destroy =
     (case (suspend, destroy) of
        (Some s, Some d) \<Rightarrow>
          if d \<le> s
          then Inl (Msg ''SANDKILN_AUTO_SUSPEND_TIMEOUT_SECS ({}) must be strictly less than SANDKILN_IDLE_TIMEOUT_SECS ({})''
                      [show_nat (s div 1000000000), show_nat (d div 1000000000)])
          else Inr ()
      | _ \<Rightarrow> Inr ())"

definition from_env :: "environment \<Rightarrow> (message, config) result" where
  "from_env env =
     and_then (env_number env ''SANDKILN_VCPU_COUNT'' ''2'' 255) (\<lambda>vcpu.
     and_then (env_number env ''SANDKILN_MEM_SIZE_MIB'' ''512'' (2 ^ 32 - 1)) (\<lambda>mem.
     and_then (env_number env ''SANDKILN_MAX_VCPU_COUNT'' ''16'' 255) (\<lambda>max_vcpu.
     and_then (env_number env ''SANDKILN_MAX_MEM_SIZE_MIB'' ''16384'' (2 ^ 32 - 1)) (\<lambda>max_mem.
     if max_vcpu < vcpu
     then Inl (Msg ''SANDKILN_VCPU_COUNT ({}) exceeds SANDKILN_MAX_VCPU_COUNT ({})'' [show_nat vcpu, show_nat max_vcpu])
     else if max_mem < mem
     then Inl (Msg ''SANDKILN_MEM_SIZE_MIB ({}) exceeds SANDKILN_MAX_MEM_SIZE_MIB ({})'' [show_nat mem, show_nat max_mem])
     else
     and_then (parse_timeout_secs_env env ''SANDKILN_IDLE_TIMEOUT_SECS'') (\<lambda>idle.
     and_then (parse_timeout_secs_env env ''SANDKILN_AUTO_SUSPEND_TIMEOUT_SECS'') (\<lambda>suspend.
     and_then (check_suspend_precedes_destroy suspend idle) (\<lambda>_.
     and_then (parse_timeout_secs_env env ''SANDKILN_ARCHIVE_TIMEOUT_SECS'') (\<lambda>archive.
     and_then (env_path env ''SANDKILN_FIRECRACKER_BIN'' ''~/sandkiln-tools/bin/firecracker'') (\<lambda>fc.
     and_then (env_path env ''SANDKILN_KERNEL_PATH'' ''~/sandkiln-tools/images/vmlinux-5.10.223'') (\<lambda>krn.
     and_then (env_path env ''SANDKILN_BASE_ROOTFS'' ''~/sandkiln-tools/images/ubuntu-22.04.ext4'') (\<lambda>rootfs.
     and_then (ok_or (Msg ''SANDKILN_BRIDGE_GATEWAY must be an IPv4 address'' [])
                (parse_ipv4 (env_or env ''SANDKILN_BRIDGE_GATEWAY'' ''172.16.0.1''))) (\<lambda>gateway.
     and_then (env_number env ''SANDKILN_TAP_POOL_SIZE'' ''32'' (2 ^ 32 - 1)) (\<lambda>taps.
     and_then (env_path env ''SANDKILN_DRIVES_DIR'' ''~/sandkiln-tools/drives'') (\<lambda>drives.
     and_then (env_path env ''SANDKILN_HISTORY_DB_PATH'' ''~/sandkiln-tools/history.db'') (\<lambda>history.
     and_then (env_path env ''SANDKILN_IMAGES_DIR'' ''~/sandkiln-tools/images-registered'') (\<lambda>images.
     and_then (env_path env ''SANDKILN_ARCHIVE_DIR'' ''~/sandkiln-tools/archive'') (\<lambda>archives.
     and_then (env_number env ''SANDKILN_PREVIEW_TIMEOUT_SECS'' ''30'' (2 ^ 64 - 1)) (\<lambda>preview.
     and_then (jailer_config_from_env env) (\<lambda>jailer.
       Inr \<lparr>cf_listen_addr = env_or env ''SANDKILN_LISTEN_ADDR'' ''127.0.0.1:7777'',
            cf_firecracker_bin = fc, cf_kernel_path = krn, base_rootfs_path = rootfs,
            cf_vcpu_count = of_nat vcpu, cf_mem_size_mib = of_nat mem,
            max_vcpu_count = of_nat max_vcpu, max_mem_size_mib = of_nat max_mem,
            cf_bridge_name = env_or env ''SANDKILN_BRIDGE_NAME'' ''sktapbr0'', cf_bridge_gateway = gateway,
            cf_uplink_iface = env ''SANDKILN_UPLINK_IFACE'',
            tap_pool_prefix = env_or env ''SANDKILN_TAP_POOL_PREFIX'' ''sktap'', tap_pool_size = of_nat taps,
            auth_token = env ''SANDKILN_AUTH_TOKEN'',
            drives_dir = drives, images_dir = images, history_db_path = history,
            idle_timeout = idle, auto_suspend_timeout = suspend, archive_timeout = archive,
            archive_dir = archives, cf_log_format = log_format_from_env env,
            preview_timeout = secs preview, cf_jailer = jailer\<rparr>)))))))))))))))))))"

section \<open>Errors of the API\<close>

datatype app_error =
    SandboxNotFound string | DriveNotFound string | ImageNotFound string
  | BadRequest message | Conflict message | BadGateway message | GatewayTimeout message
  | ServiceUnavailable message | Internal io_error

fun status_and_message :: "app_error \<Rightarrow> nat \<times> message" where
  "status_and_message (SandboxNotFound i) = (404, Msg ''sandbox not found: {}'' [i])"
| "status_and_message (DriveNotFound i) = (404, Msg ''drive not found: {}'' [i])"
| "status_and_message (ImageNotFound i) = (404, Msg ''image not found: {}'' [i])"
| "status_and_message (BadRequest m) = (400, m)"
| "status_and_message (Conflict m) = (409, m)"
| "status_and_message (BadGateway m) = (502, m)"
| "status_and_message (GatewayTimeout m) = (504, m)"
| "status_and_message (ServiceUnavailable m) = (503, m)"
| "status_and_message (Internal e) = (500, io_err_msg e)"

definition http_status :: "app_error \<Rightarrow> nat" where
  "http_status e = fst (status_and_message e)"

section \<open>What a configuration promises\<close>

lemma expect_number_ok: "expect_number k m v = Inr n \<Longrightarrow> n \<le> m"
  by (auto simp: expect_number_def ok_or_def parse_unsigned_def Let_def split: option.splits if_splits)

lemma env_number_ok: "env_number env k d m = Inr n \<Longrightarrow> n \<le> m"
  by (simp add: env_number_def expect_number_ok)

lemma parse_timeout_positive: "parse_timeout_secs_env env k = Inr (Some t) \<Longrightarrow> 0 < t \<and> 1000000000 dvd t"
  by (auto simp: parse_timeout_secs_env_def and_then_ok split: option.splits if_splits)

lemma word_of_nat_le_mono: "a \<le> b \<Longrightarrow> b < 2 ^ LENGTH('a::len) \<Longrightarrow> (of_nat a :: 'a word) \<le> of_nat b"
  by (simp add: word_le_nat_alt unsigned_of_nat take_bit_nat_eq_self_iff le_less_trans take_bit_nat_eq_self)

lemma jailer_config_ok:
  assumes "jailer_config_from_env env = Inr (Some j)"
  obtains base sz where "uid_gid_range j = jailer_uid_gid_range (of_nat base) (of_nat sz)" "0 < sz" "sz < 2 ^ 32" "base < 2 ^ 32"
  using assms that env_number_ok [of env _ _ "2 ^ 32 - 1"]
  by (fastforce simp: jailer_config_from_env_def and_then_ok split: if_splits)

lemma jailer_range_available:
  assumes "0 < sz" "sz < 2 ^ 32" "base + sz \<le> 2 ^ 32" and that: "(base', hi) = jailer_uid_gid_range (of_nat base) (of_nat sz)"
  shows "jailer_available (jailer_pool_new base' hi) = sz"
proof -
  have u: "unat (of_nat sz :: u32) = sz" "unat (of_nat base :: u32) = base"
    using assms by (simp_all add: unsigned_of_nat take_bit_nat_eq_self_iff)
  have "unat (saturating_sub (of_nat sz) 1 :: u32) = sz - 1" by (simp add: unat_saturating_sub u)
  then have "unat (of_nat base + saturating_sub (of_nat sz) 1 :: u32) = base + (sz - 1)"
    using assms by (simp add: unat_word_ariths u)
  then show ?thesis
    using that assms by (simp add: jailer_uid_gid_range_def jailer_available_def jailer_pool_new_def u)
qed

lemma from_env_parts:
  assumes "from_env env = Inr c"
  shows "parse_timeout_secs_env env ''SANDKILN_IDLE_TIMEOUT_SECS'' = Inr (idle_timeout c)"
    "parse_timeout_secs_env env ''SANDKILN_AUTO_SUSPEND_TIMEOUT_SECS'' = Inr (auto_suspend_timeout c)"
    "parse_timeout_secs_env env ''SANDKILN_ARCHIVE_TIMEOUT_SECS'' = Inr (archive_timeout c)"
    "check_suspend_precedes_destroy (auto_suspend_timeout c) (idle_timeout c) = Inr ()"
    "jailer_config_from_env env = Inr (cf_jailer c)"
  using assms by (auto simp: from_env_def and_then_ok split: if_splits)

text \<open>
  A configuration that the daemon starts with accepts its own defaults (the default vcpu
  count and memory are within the ceilings); a timeout that is set is at least a second;
  auto-suspend, if both are set, comes strictly before the destroy timeout; and a jailer's uid
  range starts at its base and, unless it runs past the end of \<^verbatim>\<open>u32\<close>, holds as many ids as
  configured, at least one.
\<close>

theorem config_startup_checks:
  assumes "from_env env = Inr c"
  shows "cf_vcpu_count c \<le> max_vcpu_count c \<and> cf_mem_size_mib c \<le> max_mem_size_mib c
    \<and> (\<forall>t \<in> set (List.map_filter id [idle_timeout c, auto_suspend_timeout c, archive_timeout c]). secs 1 \<le> t)
    \<and> (\<forall>s d. auto_suspend_timeout c = Some s \<longrightarrow> idle_timeout c = Some d \<longrightarrow> s < d)
    \<and> (\<forall>j. cf_jailer c = Some j \<longrightarrow>
         (\<exists>base sz. uid_gid_range j = jailer_uid_gid_range (of_nat base) (of_nat sz) \<and> 0 < sz \<and> sz < 2 ^ 32
            \<and> (base + sz \<le> 2 ^ 32 \<longrightarrow>
                 jailer_available (jailer_pool_new (fst (uid_gid_range j)) (snd (uid_gid_range j))) = sz)))"
proof -
  have num: "of_nat a \<le> (of_nat b :: u8)" if "\<not> b < a" "b \<le> 255" for a b :: nat
    using word_of_nat_le_mono [of a b, where 'a = 8] that by simp
  have num32: "of_nat a \<le> (of_nat b :: u32)" if "\<not> b < a" "b \<le> 2 ^ 32 - 1" for a b :: nat
    using word_of_nat_le_mono [of a b, where 'a = 32] that by simp
  have c1: "cf_vcpu_count c \<le> max_vcpu_count c" "cf_mem_size_mib c \<le> max_mem_size_mib c"
    using assms num num32 env_number_ok
    by (auto simp: from_env_def and_then_ok split: if_splits)
  note t = from_env_parts [OF assms]
  have pos: "secs 1 \<le> x" if "parse_timeout_secs_env env k = Inr (Some x)" for k x
    using parse_timeout_positive [OF that] by (auto elim!: dvdE)
  have c2: "\<forall>x \<in> set (List.map_filter id [idle_timeout c, auto_suspend_timeout c, archive_timeout c]). secs 1 \<le> x"
    using pos t(1-3) by (auto simp: List.map_filter_simps split: option.splits)
  have c3: "\<forall>s d. auto_suspend_timeout c = Some s \<longrightarrow> idle_timeout c = Some d \<longrightarrow> s < d"
    using t(4) by (auto simp: check_suspend_precedes_destroy_def split: if_splits)
  have c4: "\<exists>base sz. uid_gid_range j = jailer_uid_gid_range (of_nat base) (of_nat sz) \<and> 0 < sz \<and> sz < 2 ^ 32
      \<and> (base + sz \<le> 2 ^ 32 \<longrightarrow> jailer_available (jailer_pool_new (fst (uid_gid_range j)) (snd (uid_gid_range j))) = sz)"
    if "cf_jailer c = Some j" for j
    using t(5) that jailer_range_available by (metis jailer_config_ok prod.collapse)
  show ?thesis using c1 c2 c3 c4 by blast
qed

definition sample_env :: environment where
  "sample_env k =
     (if k = ''HOME'' then Some ''/root''
      else if k = ''SANDKILN_IDLE_TIMEOUT_SECS'' then Some ''600''
      else if k = ''SANDKILN_AUTO_SUSPEND_TIMEOUT_SECS'' then Some ''60'' else None)"

theorem config_startup_checks_witness:
  "\<exists>c. from_env sample_env = Inr c \<and> auto_suspend_timeout c = Some (secs 60) \<and> idle_timeout c = Some (secs 600)
     \<and> secs 60 < secs (600 :: nat) \<and> cf_vcpu_count c \<le> max_vcpu_count c"
proof -
  have "is_ok (from_env sample_env)"
    by (simp add: from_env_def env_number_def expect_number_def env_or_def env_path_def expand_home_def
        parse_timeout_secs_env_def jailer_config_from_env_def parse_bool_env_def check_suspend_precedes_destroy_def
        parse_unsigned_def parse_ipv4_def parse_octet_def is_digit_def digit_val_def sample_env_def)
  then obtain c where c: "from_env sample_env = Inr c" by (cases "from_env sample_env") auto
  have "parse_timeout_secs_env sample_env ''SANDKILN_IDLE_TIMEOUT_SECS'' = Inr (Some (secs 600))"
    "parse_timeout_secs_env sample_env ''SANDKILN_AUTO_SUSPEND_TIMEOUT_SECS'' = Inr (Some (secs 60))"
    by (simp_all add: parse_timeout_secs_env_def expect_number_def parse_unsigned_def is_digit_def digit_val_def sample_env_def)
  then show ?thesis using config_startup_checks [OF c] from_env_parts(1,2) [OF c] c by simp
qed

end
