(* ===== verification/LogSession.thy ===== *)
theory LogSession
  imports Prelude
begin

text \<open>
  The state of one streamed background exec session (\<^verbatim>\<open>log_session.rs\<close>): a ring buffer of the
  last megabyte of output, the number of bytes dropped from it, the exit code, and the
  broadcast channel to the clients that are attached.

  The channel is represented by the list of all events sent through it; subscribing gives
  the position from which a receiver reads. A receiver that falls more than
  \<open>BROADCAST_CAPACITY\<close> events behind is told so by the channel and is not modelled further.
\<close>

definition BUFFER_CAP_BYTES :: nat where
  "BUFFER_CAP_BYTES = 1024 * 1024"

definition BROADCAST_CAPACITY :: nat where
  "BROADCAST_CAPACITY = 1024"

datatype log_event = LogData "u8 list" | LogExit int

record log_session =
  lsn_id :: string
  lsn_command :: string
  lsn_args :: "string list"
  started_at :: int
  log_buffer :: "u8 list"
  truncated_bytes :: u64
  log_exit_code :: "int option"
  log_sent :: "log_event list"

definition log_session_new :: "string \<Rightarrow> string \<Rightarrow> string list \<Rightarrow> int \<Rightarrow> log_session" where
  "log_session_new i command args now =
     \<lparr>lsn_id = i, lsn_command = command, lsn_args = args, started_at = now, log_buffer = [],
      truncated_bytes = 0, log_exit_code = None, log_sent = []\<rparr>"

definition log_append :: "u8 list \<Rightarrow> log_session \<Rightarrow> log_session" where
  "log_append dat s =
     (let buffer = log_buffer s @ dat;
          overflow = length buffer - BUFFER_CAP_BYTES;
          s1 = (if BUFFER_CAP_BYTES < length buffer
                then s\<lparr>log_buffer := drop overflow buffer, truncated_bytes := truncated_bytes s + of_nat overflow\<rparr>
                else s\<lparr>log_buffer := buffer\<rparr>)
      in s1\<lparr>log_sent := log_sent s1 @ [LogData dat]\<rparr>)"

definition log_finish :: "int \<Rightarrow> log_session \<Rightarrow> log_session" where
  "log_finish code s = s\<lparr>log_exit_code := Some code, log_sent := log_sent s @ [LogExit code]\<rparr>"

definition log_subscribe :: "log_session \<Rightarrow> u8 list \<times> u64 \<times> int option \<times> nat" where
  "log_subscribe s = (log_buffer s, truncated_bytes s, log_exit_code s, length (log_sent s))"

text \<open>What a receiver that starts at a position gets, and the output bytes among it.\<close>

definition received_from :: "nat \<Rightarrow> log_session \<Rightarrow> log_event list" where
  "received_from pos s = drop pos (log_sent s)"

fun event_bytes :: "log_event \<Rightarrow> u8 list" where
  "event_bytes (LogData d) = d"
| "event_bytes (LogExit _) = []"

section \<open>A session over time\<close>

inductive log_step :: "log_session \<Rightarrow> log_session \<Rightarrow> bool" where
  "log_step s (log_append dat s)"
| "log_step s (log_finish code s)"

inductive_cases log_stepE: "log_step s s'"

abbreviation log_steps :: "log_session \<Rightarrow> log_session \<Rightarrow> bool" where
  "log_steps \<equiv> log_step\<^sup>*\<^sup>*"

definition total_output :: "log_session \<Rightarrow> u8 list" where
  "total_output s = concat (map event_bytes (log_sent s))"

definition log_inv :: "log_session \<Rightarrow> bool" where
  "log_inv s \<longleftrightarrow>
     log_buffer s = drop (length (total_output s) - BUFFER_CAP_BYTES) (total_output s)
     \<and> truncated_bytes s = of_nat (length (total_output s) - BUFFER_CAP_BYTES)"

lemma log_step_fields [simp]:
  "log_sent (log_append d s) = log_sent s @ [LogData d]" "log_exit_code (log_append d s) = log_exit_code s"
  "log_sent (log_finish c s) = log_sent s @ [LogExit c]" "log_exit_code (log_finish c s) = Some c"
  by (simp_all add: log_append_def log_finish_def Let_def)

lemma log_inv_new: "log_inv (log_session_new i c a t)"
  by (simp add: log_inv_def log_session_new_def total_output_def)

lemma log_append_output [simp]: "total_output (log_append d s) = total_output s @ d"
  by (simp add: total_output_def)

lemma log_finish_output [simp]: "total_output (log_finish c s) = total_output s"
  by (simp add: total_output_def)

lemma log_inv_append:
  assumes "log_inv s"
  shows "log_inv (log_append d s)"
proof -
  let ?out = "total_output s" and ?cap = BUFFER_CAP_BYTES
  let ?k = "length ?out - ?cap"
  have b: "log_buffer s @ d = drop ?k (?out @ d)" and t: "truncated_bytes s = of_nat ?k"
    using assms by (simp_all add: log_inv_def)
  have l: "length (log_buffer s @ d) = length ?out + length d - ?k" by (simp add: b)
  show ?thesis
  proof (cases "?cap < length (log_buffer s @ d)")
    case True
    then have "length (log_buffer s @ d) - ?cap + ?k = length ?out + length d - ?cap"
      using l by simp
    then have "drop (length (log_buffer s @ d) - ?cap) (log_buffer s @ d) = drop (length ?out + length d - ?cap) (?out @ d)"
      and "truncated_bytes s + of_nat (length (log_buffer s @ d) - ?cap) = of_nat (length ?out + length d - ?cap)"
      unfolding b by (simp_all add: t drop_drop add.commute flip: of_nat_add)
    then show ?thesis
      using True by (simp add: log_inv_def log_append_def Let_def) (simp add: total_output_def)
  next
    case False
    then have "?k = length ?out + length d - ?cap" using l by simp
    then show ?thesis
      using False b t by (simp add: log_inv_def log_append_def Let_def) (simp add: total_output_def)
  qed
qed

lemma log_inv_finish: "log_inv s \<Longrightarrow> log_inv (log_finish c s)"
  by (simp add: log_inv_def log_finish_def total_output_def)

text \<open>What no step of a session undoes: what was sent stays sent, and the exit code goes with an exit event.\<close>

definition log_sent_inv :: "log_session \<Rightarrow> bool" where
  "log_sent_inv s \<longleftrightarrow> (log_exit_code s = None \<longleftrightarrow> (\<forall>e \<in> set (log_sent s). \<exists>d. e = LogData d))"

interpretation log_buffer: step_invariant log_step log_inv
  by unfold_locales (auto elim!: log_stepE intro: log_inv_append log_inv_finish)

interpretation log_exit: step_invariant log_step log_sent_inv
  by unfold_locales (auto elim!: log_stepE simp: log_sent_inv_def)

interpretation log_events: step_invariant log_step "\<lambda>s. \<exists>more. log_sent s = earlier @ more"
  by unfold_locales (auto elim!: log_stepE)

lemma log_exit_last: "log_steps (log_session_new i c a t) s \<Longrightarrow> log_exit_code s = None \<longleftrightarrow> (\<forall>e \<in> set (log_sent s). \<exists>d. e = LogData d)"
  using log_exit.steps_inv [of "log_session_new i c a t" s] by (simp add: log_sent_inv_def log_session_new_def)

text \<open>
  Whatever a session printed before a client subscribes and whatever it prints after, the
  client misses and repeats nothing: the bytes dropped from the buffer, the replay and the
  live events are together exactly the output; the replay holds the last megabyte, and
  \<^verbatim>\<open>truncated_bytes\<close> counts the bytes that were dropped (modulo \<^verbatim>\<open>2^64\<close>). A client sees
  an exit code exactly when the session has been finished.
\<close>

theorem log_replay_complete:
  assumes "log_steps (log_session_new i c a t) s" "log_steps s s'"
    "log_subscribe s = (replay, truncated, code, pos)"
  shows "\<exists>dropped. total_output s = dropped @ replay \<and> truncated = of_nat (length dropped)
      \<and> length replay = min BUFFER_CAP_BYTES (length (total_output s))
      \<and> total_output s' = dropped @ replay @ concat (map event_bytes (received_from pos s'))
      \<and> (code = None \<longleftrightarrow> (\<forall>e \<in> set (log_sent s). \<exists>d. e = LogData d))"
proof -
  let ?out = "total_output s" and ?k = "length (total_output s) - BUFFER_CAP_BYTES"
  have inv: "log_inv s" using log_buffer.steps_inv [OF assms(1) log_inv_new] .
  have sub: "replay = drop ?k ?out" "truncated = of_nat ?k" "code = log_exit_code s" "pos = length (log_sent s)"
    using assms(3) inv by (simp_all add: log_subscribe_def log_inv_def)
  obtain more where more: "log_sent s' = log_sent s @ more" using log_events.steps_inv [OF assms(2), of "log_sent s"] by auto
  have live: "total_output s' = ?out @ concat (map event_bytes (received_from pos s'))"
    by (simp add: total_output_def received_from_def more sub(4))
  have k: "length (take ?k ?out) = ?k" by simp
  have "length replay = length ?out - ?k" by (simp only: sub(1) length_drop)
  then have r: "length replay = min BUFFER_CAP_BYTES (length ?out)" by linarith
  have "?out = take ?k ?out @ replay" by (simp add: sub(1))
  with live sub(2,3) log_exit_last [OF assms(1)] k r show ?thesis by (metis append.assoc)
qed

theorem log_replay_complete_witness:
  "\<exists>s s'. log_steps (log_session_new ''l'' ''ls'' [] 0) s \<and> log_steps s s'
     \<and> total_output s' = [1, 2] @ [3] \<and> fst (log_subscribe s) = [1, 2]"
proof -
  let ?n = "log_session_new ''l'' ''ls'' [] 0"
  let ?s = "log_append [1, 2] ?n"
  have a: "log_steps ?n ?s" "log_steps ?s (log_append [3] ?s)"
    by (blast intro: run_one log_step.intros)+
  obtain truncated code pos where sub: "log_subscribe ?s = ([1, 2], truncated, code, pos)"
    by (simp add: log_subscribe_def log_append_def log_session_new_def Let_def BUFFER_CAP_BYTES_def)
  from log_replay_complete [OF a sub] obtain dropped where
    "total_output ?s = dropped @ [1, 2]" "length [1 :: u8, 2] = min BUFFER_CAP_BYTES (length (total_output ?s))"
    by blast
  moreover have "total_output ?n = []" by (simp add: total_output_def log_session_new_def)
  ultimately show ?thesis using a sub by (intro exI [of _ ?s] exI [of _ "log_append [3] ?s"]) auto
qed

end
