(* ===== verification/AppState.thy ===== *)
theory AppState
  imports Config Stores Pools History Vm Egress LogSession
begin

text \<open>
  The daemon's shared state (\<^verbatim>\<open>state.rs\<close>) with the records it holds (\<^verbatim>\<open>Sandbox\<close> of
  \<^verbatim>\<open>sandbox.rs\<close>, \<^verbatim>\<open>Snapshot\<close> of \<^verbatim>\<open>snapshot.rs\<close>, \<^verbatim>\<open>RetiredSnapshot\<close> of
  \<^verbatim>\<open>snapshot_history.rs\<close>), and the questions it answers about who holds a drive, a name, an
  image or a tap device.

  One \<open>app\<close> value is the whole daemon at an instant, the outside world included
  (\<open>wld\<close>). Every mutex-protected map of the source is a field; a critical section is a
  function on \<open>app\<close>. Of the metrics, \<open>created_total\<close> is kept; the timing histograms are not
  part of the state. Of the tunnels the ids are kept, those with a waiting receiver (\<open>tunnels\<close>) and
  those registered with the acceptor (\<open>tunnel_registry\<close>, a static map of \<^verbatim>\<open>vmm/src/tunnel.rs\<close>); the
  receivers themselves and the preview client are connection handles.
\<close>

section \<open>State\<close>

record attached_drive =
  ad_drive_id :: string
  ad_read_only :: bool

record mount =
  mt_id :: string
  mt_bucket :: string
  mt_endpoint :: string
  mt_mount_path :: string
  mt_read_only :: bool

type_synonym env_vars = "string hash_map"

record sandbox =
  sb_id :: string
  sb_vm :: vm
  sb_network :: "lease option"
  sb_rootfs_path :: string
  sb_attached_drives :: "attached_drive list"
  sb_image_id :: "string option"
  sb_jail_id :: "u32 option"
  sb_tags :: tags
  sb_created_at :: int
  last_activity :: nat
  source_snapshot_id :: "string option"
  sb_name :: "string option"
  pty_session_count :: u32
  source_pool_id :: "string option"
  sb_egress :: "egress_policy option"
  sb_env :: env_vars
  sb_parent_snapshot_id :: "string option"
  sb_mounts :: "mount list"
  log_sessions :: "log_session hash_map"

record snapshot =
  sn_id :: string
  sn_source_sandbox_id :: string
  sn_snapshot_path :: string
  sn_mem_file_path :: string
  sn_rootfs_path :: string
  sn_network :: lease
  sn_attached_drives :: "attached_drive list"
  sn_image_id :: "string option"
  sn_tags :: tags
  sn_created_at :: int
  sn_name :: "string option"
  forked_into :: "string option"
  archived_at :: "int option"
  sn_egress :: "egress_policy option"
  sn_parent_snapshot_id :: "string option"
  sn_mounts :: "mount list"
  sn_env :: env_vars

record retired_snapshot =
  rt_id :: string
  rt_source_sandbox_id :: string
  rt_snapshot_path :: string
  rt_mem_file_path :: string
  rt_rootfs_path :: string
  rt_network :: network_config
  rt_host_octet :: u8
  rt_attached_drives :: "attached_drive list"
  rt_image_id :: "string option"
  rt_tags :: tags
  rt_created_at :: int
  retired_at :: int
  rt_name :: "string option"
  rt_parent_snapshot_id :: "string option"
  rt_egress :: "egress_policy option"
  rt_mounts :: "mount list"
  rt_env :: env_vars

text \<open>Printing and parsing of JSON text is \<^verbatim>\<open>serde_json\<close>'s: a parameter.\<close>

record json_codec =
  json_text :: "json \<Rightarrow> u8 list"
  json_value :: "u8 list \<Rightarrow> json option"

record app =
  app_config :: config
  app_codec :: json_codec
  network :: network_manager
  drives :: drive_store
  images :: image_store
  jailer_ids :: "jailer_id_pool option"
  sandboxes :: "sandbox hash_map"
  snapshots :: "snapshot hash_map"
  retired_snapshots :: "retired_snapshot hash_map"
  pending_image_boots :: "u32 hash_map"
  created_total :: u64
  history :: history_store
  app_pools :: pools
  pending_tap_restores :: "string list"
  tunnels :: "string list"
  tunnel_registry :: "string list"
  wld :: world

definition app_new :: "config \<Rightarrow> json_codec \<Rightarrow> network_manager \<Rightarrow> drive_store \<Rightarrow> image_store \<Rightarrow> snapshot hash_map \<Rightarrow>
    retired_snapshot hash_map \<Rightarrow> history_store \<Rightarrow> world \<Rightarrow> app" where
  "app_new c cdc net drs imgs snaps retired hist w =
     \<lparr>app_config = c, app_codec = cdc, network = net, drives = drs, images = imgs,
      jailer_ids = map_option (\<lambda>j. jailer_pool_new (fst (uid_gid_range j)) (snd (uid_gid_range j))) (cf_jailer c),
      sandboxes = [], snapshots = snaps, retired_snapshots = retired, pending_image_boots = [],
      created_total = 0, history = hist, app_pools = [], pending_tap_restores = [],
      tunnels = [], tunnel_registry = [], wld = w\<rparr>"

section \<open>Holders\<close>

record drive_hold =
  dh_holder :: string
  dh_read_only :: bool

definition find_hold :: "string \<Rightarrow> string \<Rightarrow> string \<Rightarrow> attached_drive list \<Rightarrow> drive_hold option" where
  "find_hold label i drive_id ds =
     map_option (\<lambda>d. \<lparr>dh_holder = label @ '' '' @ i, dh_read_only = ad_read_only d\<rparr>) (find (\<lambda>d. ad_drive_id d = drive_id) ds)"

definition drive_holders :: "string \<Rightarrow> app \<Rightarrow> drive_hold list" where
  "drive_holders d st =
     List.map_filter (\<lambda>s. find_hold ''sandbox'' (sb_id s) d (sb_attached_drives s)) (hm_values (sandboxes st))
     @ List.map_filter (\<lambda>s. find_hold ''snapshot'' (sn_id s) d (sn_attached_drives s)) (hm_values (snapshots st))
     @ List.map_filter (\<lambda>s. find_hold ''retired snapshot'' (rt_id s) d (rt_attached_drives s)) (hm_values (retired_snapshots st))"

definition can_attach_read_only :: "bool list \<Rightarrow> bool \<Rightarrow> bool" where
  "can_attach_read_only existing requesting_read_only =
     (existing = [] \<or> requesting_read_only \<and> list_all (\<lambda>ro. ro) existing)"

fun join_str :: "string \<Rightarrow> string list \<Rightarrow> string" where
  "join_str sep [] = []"
| "join_str sep [x] = x"
| "join_str sep (x # xs) = x @ sep @ join_str sep xs"

definition describe_drive_holders :: "drive_hold list \<Rightarrow> string" where
  "describe_drive_holders hs =
     join_str '', '' (map (\<lambda>h. if dh_read_only h then dh_holder h @ '' (read-only)'' else dh_holder h) hs)"

definition find_named :: "(string \<times> string option) list \<Rightarrow> string \<Rightarrow> string option" where
  "find_named entries name = map_option fst (find (\<lambda>(i, n). n = Some name) entries)"

definition sandbox_names :: "app \<Rightarrow> (string \<times> string option) list" where
  "sandbox_names st = map (\<lambda>s. (sb_id s, sb_name s)) (hm_values (sandboxes st))"

definition snapshot_names :: "app \<Rightarrow> (string \<times> string option) list" where
  "snapshot_names st = map (\<lambda>s. (sn_id s, sn_name s)) (hm_values (snapshots st))"

definition name_holder :: "string \<Rightarrow> app \<Rightarrow> string option" where
  "name_holder name st =
     (case find_named (sandbox_names st) name of
        Some i \<Rightarrow> Some (''sandbox '' @ i)
      | None \<Rightarrow> map_option (\<lambda>i. ''snapshot '' @ i) (find_named (snapshot_names st) name))"

datatype name_resolution = Live string | HeldSnapshot string

definition resolve_name :: "string \<Rightarrow> app \<Rightarrow> name_resolution option" where
  "resolve_name name st =
     (case find_named (sandbox_names st) name of
        Some i \<Rightarrow> Some (Live i)
      | None \<Rightarrow> map_option HeldSnapshot (find_named (snapshot_names st) name))"

definition first_match :: "'a list \<Rightarrow> string \<Rightarrow> ('a \<Rightarrow> string) \<Rightarrow> ('a \<Rightarrow> bool) \<Rightarrow> string option" where
  "first_match items label i matches = map_option (\<lambda>x. label @ '' '' @ i x) (find matches items)"

definition or_else :: "'a option \<Rightarrow> 'a option \<Rightarrow> 'a option" where
  "or_else a b = (case a of None \<Rightarrow> b | Some x \<Rightarrow> Some x)"

definition image_holder :: "string \<Rightarrow> app \<Rightarrow> string option" where
  "image_holder image_id st =
     (if (case hm_get image_id (pending_image_boots st) of Some cnt \<Rightarrow> 0 < cnt | None \<Rightarrow> False)
      then Some ''a sandbox currently being created''
      else or_else (first_match (hm_values (sandboxes st)) ''sandbox'' sb_id (\<lambda>s. sb_image_id s = Some image_id))
          (or_else (first_match (hm_values (snapshots st)) ''snapshot'' sn_id (\<lambda>s. sn_image_id s = Some image_id))
            (first_match (hm_values (retired_snapshots st)) ''retired snapshot'' rt_id (\<lambda>s. rt_image_id s = Some image_id))))"

definition lease_tap :: "lease \<Rightarrow> string" where
  "lease_tap l = tap_device (lease_config l)"

definition tap_device_holder :: "string \<Rightarrow> app \<Rightarrow> string option" where
  "tap_device_holder tap st =
     or_else (first_match (hm_values (sandboxes st)) ''sandbox'' sb_id
               (\<lambda>s. case sb_network s of Some n \<Rightarrow> lease_tap n = tap | None \<Rightarrow> False))
    (or_else (first_match (hm_values (snapshots st)) ''snapshot'' sn_id (\<lambda>s. lease_tap (sn_network s) = tap))
       (if tap \<in> set (pending_tap_restores st)
        then Some ''another restore already in progress for this checkpoint's network identity'' else None))"

section \<open>Reservations\<close>

definition try_reserve_pending_tap_restore :: "string \<Rightarrow> app \<Rightarrow> bool \<times> app" where
  "try_reserve_pending_tap_restore tap st =
     (tap \<notin> set (pending_tap_restores st),
      st\<lparr>pending_tap_restores := List.insert tap (pending_tap_restores st)\<rparr>)"

definition release_pending_tap_restore :: "string \<Rightarrow> app \<Rightarrow> app" where
  "release_pending_tap_restore tap st = st\<lparr>pending_tap_restores := removeAll tap (pending_tap_restores st)\<rparr>"

definition reserve_pending_image_boot :: "string \<Rightarrow> app \<Rightarrow> app" where
  "reserve_pending_image_boot image_id st =
     (let n = (case hm_get image_id (pending_image_boots st) of Some n \<Rightarrow> n | None \<Rightarrow> 0)
      in st\<lparr>pending_image_boots := hm_insert image_id (n + 1) (pending_image_boots st)\<rparr>)"

definition release_pending_image_boot :: "string \<Rightarrow> app \<Rightarrow> app" where
  "release_pending_image_boot image_id st =
     (case hm_get image_id (pending_image_boots st) of
        None \<Rightarrow> st
      | Some cnt \<Rightarrow>
          if cnt - 1 = 0
          then st\<lparr>pending_image_boots := hm_remove image_id (pending_image_boots st)\<rparr>
          else st\<lparr>pending_image_boots := hm_insert image_id (cnt - 1) (pending_image_boots st)\<rparr>)"

text \<open>Operations of the components, lifted to the daemon.\<close>

definition on_world :: "(world \<Rightarrow> 'a \<times> world) \<Rightarrow> app \<Rightarrow> 'a \<times> app" where
  "on_world f st = (case f (wld st) of (r, w) \<Rightarrow> (r, st\<lparr>wld := w\<rparr>))"

definition app_lease :: "app \<Rightarrow> (io_error, lease) result \<times> app" where
  "app_lease st =
     (case lease_net (network st) (w_sys (wld st)) of
        (r, m, s) \<Rightarrow> (r, st\<lparr>network := m, wld := (wld st)\<lparr>w_sys := s\<rparr>\<rparr>))"

definition app_release :: "lease \<Rightarrow> app \<Rightarrow> app" where
  "app_release l st =
     (case release_net (network st) l (w_sys (wld st)) of
        (m, s) \<Rightarrow> st\<lparr>network := m, wld := (wld st)\<lparr>w_sys := s\<rparr>\<rparr>)"

definition app_apply_egress :: "lease \<Rightarrow> egress_policy \<Rightarrow> app \<Rightarrow> (io_error, unit) result \<times> app" where
  "app_apply_egress l policy st =
     on_world (on_sys (apply_egress (guest_ip (lease_config l)) (lease_tap l) (uplink (network st)) policy)) st"

definition app_remove_egress :: "lease \<Rightarrow> app \<Rightarrow> app" where
  "app_remove_egress l st =
     snd (on_world (on_sys (\<lambda>s. ((), remove_egress (guest_ip (lease_config l)) (lease_tap l) (uplink (network st)) s))) st)"

definition app_remove_file :: "string \<Rightarrow> app \<Rightarrow> app" where
  "app_remove_file p st = snd (on_world (on_fs (remove_file p)) st)"

definition app_remove_dir_all :: "string \<Rightarrow> app \<Rightarrow> app" where
  "app_remove_dir_all p st = snd (on_world (on_fs (remove_dir_all p)) st)"

definition release_jail_id :: "u32 option \<Rightarrow> app \<Rightarrow> app" where
  "release_jail_id i st =
     (case (i, jailer_ids st) of
        (Some u, Some p) \<Rightarrow> st\<lparr>jailer_ids := Some (jailer_release u p)\<rparr>
      | _ \<Rightarrow> st)"

definition release_pool_slot :: "string option \<Rightarrow> app \<Rightarrow> app" where
  "release_pool_slot pid st = st\<lparr>app_pools := release_slot pid (app_pools st)\<rparr>"

section \<open>What the holder queries answer\<close>

lemma map_filter_empty: "List.map_filter f xs = [] \<longleftrightarrow> (\<forall>x \<in> set xs. f x = None)"
  by (induction xs) (auto simp: List.map_filter_simps split: option.splits)

lemma find_none_iff: "find p xs = None \<longleftrightarrow> (\<forall>x \<in> set xs. \<not> p x)"
  by (auto simp: find_None_iff)

lemma or_else_none [simp]: "or_else a b = None \<longleftrightarrow> a = None \<and> b = None"
  by (simp add: or_else_def split: option.splits)

lemma first_match_none [simp]: "first_match xs l i p = None \<longleftrightarrow> (\<forall>x \<in> set xs. \<not> p x)"
  by (simp add: first_match_def find_none_iff)

lemma find_hold_none [simp]: "find_hold l i d ds = None \<longleftrightarrow> d \<notin> ad_drive_id ` set ds"
  by (auto simp: find_hold_def find_none_iff)

lemma find_named_map_none: "find_named (map (\<lambda>s. (f s, g s)) xs) n = None \<longleftrightarrow> (\<forall>s \<in> set xs. g s \<noteq> Some n)"
  by (auto simp: find_named_def find_none_iff)

lemma find_named_map_some:
  assumes "find_named (map (\<lambda>s. (f s, g s)) xs) n = Some i"
  shows "\<exists>s \<in> set xs. f s = i \<and> g s = Some n"
  using assms by (induction xs) (auto simp: find_named_def split: if_splits)

lemmas find_named_simps = find_named_map_none sandbox_names_def snapshot_names_def

lemma drive_free_iff:
  "drive_holders d st = [] \<longleftrightarrow>
     (\<forall>s \<in> set (hm_values (sandboxes st)). d \<notin> ad_drive_id ` set (sb_attached_drives s))
     \<and> (\<forall>s \<in> set (hm_values (snapshots st)). d \<notin> ad_drive_id ` set (sn_attached_drives s))
     \<and> (\<forall>s \<in> set (hm_values (retired_snapshots st)). d \<notin> ad_drive_id ` set (rt_attached_drives s))"
  by (simp add: drive_holders_def map_filter_empty)

lemma name_free_iff:
  "name_holder n st = None \<longleftrightarrow>
     (\<forall>s \<in> set (hm_values (sandboxes st)). sb_name s \<noteq> Some n) \<and> (\<forall>s \<in> set (hm_values (snapshots st)). sn_name s \<noteq> Some n)"
  by (auto simp: name_holder_def find_named_simps split: option.splits) (auto dest!: find_named_map_some)

lemma name_holder_resolve:
  "name_holder n st =
     map_option (\<lambda>r. case r of Live i \<Rightarrow> ''sandbox '' @ i | HeldSnapshot i \<Rightarrow> ''snapshot '' @ i) (resolve_name n st)"
  by (simp add: name_holder_def resolve_name_def option.map_comp comp_def split: option.splits)

lemma resolve_name_live:
  assumes "resolve_name n st = Some (Live i)"
  shows "\<exists>s \<in> set (hm_values (sandboxes st)). sb_id s = i \<and> sb_name s = Some n"
  using assms by (auto simp: resolve_name_def sandbox_names_def split: option.splits dest: find_named_map_some)

lemma resolve_name_held:
  assumes "resolve_name n st = Some (HeldSnapshot i)"
  shows "\<exists>s \<in> set (hm_values (snapshots st)). sn_id s = i \<and> sn_name s = Some n"
    "\<forall>s \<in> set (hm_values (sandboxes st)). sb_name s \<noteq> Some n"
  using assms by (auto simp: resolve_name_def find_named_simps split: option.splits dest: find_named_map_some)

definition image_boots :: "string \<Rightarrow> app \<Rightarrow> nat" where
  "image_boots i st = (case hm_get i (pending_image_boots st) of Some n \<Rightarrow> unat n | None \<Rightarrow> 0)"

lemma image_free_iff:
  "image_holder i st = None \<longleftrightarrow>
     image_boots i st = 0
     \<and> (\<forall>s \<in> set (hm_values (sandboxes st)). sb_image_id s \<noteq> Some i)
     \<and> (\<forall>s \<in> set (hm_values (snapshots st)). sn_image_id s \<noteq> Some i)
     \<and> (\<forall>s \<in> set (hm_values (retired_snapshots st)). rt_image_id s \<noteq> Some i)"
  by (auto simp: image_holder_def image_boots_def word_greater_zero_iff unat_eq_0 split: option.splits)

lemma tap_free_iff:
  "tap_device_holder t st = None \<longleftrightarrow>
     (\<forall>s \<in> set (hm_values (sandboxes st)). \<forall>l. sb_network s = Some l \<longrightarrow> lease_tap l \<noteq> t)
     \<and> (\<forall>s \<in> set (hm_values (snapshots st)). lease_tap (sn_network s) \<noteq> t)
     \<and> t \<notin> set (pending_tap_restores st)"
  by (auto simp: tap_device_holder_def split: option.splits)

lemma reserve_image_boots:
  assumes "image_boots i st < 2 ^ 32 - 1"
  shows "image_boots j (reserve_pending_image_boot i st) = (if j = i then image_boots i st + 1 else image_boots j st)"
  using assms by (auto simp: image_boots_def reserve_pending_image_boot_def Let_def unat_word_ariths split: option.splits)

lemma release_image_boots:
  assumes "0 < image_boots i st"
  shows "image_boots j (release_pending_image_boot i st) = (if j = i then image_boots i st - 1 else image_boots j st)"
proof -
  obtain n where n: "hm_get i (pending_image_boots st) = Some n" "0 < unat n"
    using assms by (auto simp: image_boots_def split: option.splits)
  then have u: "unat (n - 1) = unat n - 1" by (intro unat_minus_one) auto
  show ?thesis
  proof (cases "n - 1 = 0")
    case True
    then have "unat n - 1 = 0" using u by simp
    with True n show ?thesis by (simp add: release_pending_image_boot_def image_boots_def)
  next
    case False
    with n u show ?thesis by (simp add: release_pending_image_boot_def image_boots_def)
  qed
qed

text \<open>
  The daemon calls a resource free exactly when nothing refers to it: a drive when no live
  sandbox, held snapshot or retired checkpoint attaches it; an image when in addition no boot
  from it is in flight; a tap device when no live sandbox or held snapshot leases it and no
  restore is claiming it; a name when no live sandbox or held snapshot carries it. A name that
  resolves resolves to a record with that name, to a snapshot only if no live sandbox has it.
\<close>

theorem free_means_unreferenced:
  "(drive_holders d st = [] \<longleftrightarrow>
     d \<notin> ad_drive_id ` (\<Union>s \<in> set (hm_values (sandboxes st)). set (sb_attached_drives s))
     \<and> d \<notin> ad_drive_id ` (\<Union>s \<in> set (hm_values (snapshots st)). set (sn_attached_drives s))
     \<and> d \<notin> ad_drive_id ` (\<Union>s \<in> set (hm_values (retired_snapshots st)). set (rt_attached_drives s)))
   \<and> (image_holder i st = None \<longleftrightarrow>
     image_boots i st = 0 \<and> Some i \<notin> sb_image_id ` set (hm_values (sandboxes st))
     \<and> Some i \<notin> sn_image_id ` set (hm_values (snapshots st)) \<and> Some i \<notin> rt_image_id ` set (hm_values (retired_snapshots st)))
   \<and> (tap_device_holder t st = None \<longleftrightarrow>
     Some t \<notin> (\<lambda>s. map_option lease_tap (sb_network s)) ` set (hm_values (sandboxes st))
     \<and> t \<notin> (\<lambda>s. lease_tap (sn_network s)) ` set (hm_values (snapshots st)) \<and> t \<notin> set (pending_tap_restores st))
   \<and> (resolve_name n st = None \<longleftrightarrow>
     Some n \<notin> sb_name ` set (hm_values (sandboxes st)) \<and> Some n \<notin> sn_name ` set (hm_values (snapshots st)))
   \<and> (case resolve_name n st of
       None \<Rightarrow> name_holder n st = None
     | Some (Live i) \<Rightarrow> (i, Some n) \<in> (\<lambda>s. (sb_id s, sb_name s)) ` set (hm_values (sandboxes st))
     | Some (HeldSnapshot i) \<Rightarrow> Some n \<notin> sb_name ` set (hm_values (sandboxes st))
         \<and> (i, Some n) \<in> (\<lambda>s. (sn_id s, sn_name s)) ` set (hm_values (snapshots st)))"
proof (intro conjI)
  show "tap_device_holder t st = None \<longleftrightarrow>
     Some t \<notin> (\<lambda>s. map_option lease_tap (sb_network s)) ` set (hm_values (sandboxes st))
     \<and> t \<notin> (\<lambda>s. lease_tap (sn_network s)) ` set (hm_values (snapshots st)) \<and> t \<notin> set (pending_tap_restores st)"
    unfolding tap_free_iff by (auto simp: image_iff eq_commute [of "Some t"])
  show "resolve_name n st = None \<longleftrightarrow>
     Some n \<notin> sb_name ` set (hm_values (sandboxes st)) \<and> Some n \<notin> sn_name ` set (hm_values (snapshots st))"
    using name_free_iff [of n st] by (auto simp: name_holder_resolve image_iff)
  show "case resolve_name n st of
       None \<Rightarrow> name_holder n st = None
     | Some (Live i) \<Rightarrow> (i, Some n) \<in> (\<lambda>s. (sb_id s, sb_name s)) ` set (hm_values (sandboxes st))
     | Some (HeldSnapshot i) \<Rightarrow> Some n \<notin> sb_name ` set (hm_values (sandboxes st))
         \<and> (i, Some n) \<in> (\<lambda>s. (sn_id s, sn_name s)) ` set (hm_values (snapshots st))"
    using resolve_name_live [of n st] resolve_name_held [of n st]
    by (force simp: name_holder_resolve image_iff split: option.splits name_resolution.splits)
qed (auto simp: drive_free_iff image_free_iff image_iff)

end
