(* ===== verification/NameLocks.thy ===== *)
theory NameLocks
  imports Prelude
begin

text \<open>
  The per-name locks (\<^verbatim>\<open>AppState::lock_name\<close> and \<^verbatim>\<open>NameLockGuard::drop\<close> of \<^verbatim>\<open>state.rs\<close>) under
  concurrent callers.

  A lock object is a number (the \<^verbatim>\<open>Arc\<close>'s identity). The map \<open>locks\<close> is \<^verbatim>\<open>name_locks\<close>; a caller
  is a party: it has cloned the \<^verbatim>\<open>Arc\<close> and waits, it holds the guard, or it is in \<^verbatim>\<open>drop\<close>, past
  the code the guard protected, with the mutex itself not yet released. A party owns two
  clones of its \<^verbatim>\<open>Arc\<close> (the field \<^verbatim>\<open>lock\<close> and the one inside the guard or the waiting future),
  the map owns one: \<open>strong_count\<close>. The mutex admits one owner at a time. Each step is one
  critical section of the source.
\<close>

datatype stage = Waiting | Holding | Dropping

record party =
  pt_name :: string
  pt_lock :: nat
  pt_stage :: stage

record lock_state =
  locks :: "nat hash_map"
  next_lock :: nat
  parties :: "(nat \<times> party) list"
  next_party :: nat

definition locks_init :: lock_state where
  "locks_init = \<lparr>locks = [], next_lock = 0, parties = [], next_party = 0\<rparr>"

definition owns_mutex :: "party \<Rightarrow> bool" where
  "owns_mutex p = (pt_stage p = Holding \<or> pt_stage p = Dropping)"

definition strong_count :: "nat \<Rightarrow> lock_state \<Rightarrow> nat" where
  "strong_count l st =
     length (filter (\<lambda>(n, l'). l' = l) (locks st)) + 2 * length (filter (\<lambda>(c, p). pt_lock p = l) (parties st))"

text \<open>\<^verbatim>\<open>lock_name\<close> up to the \<^verbatim>\<open>await\<close>: find or create the name's lock, clone it, queue on it.\<close>

definition lock_name_start :: "string \<Rightarrow> lock_state \<Rightarrow> nat \<times> lock_state" where
  "lock_name_start name st =
     (let (l, st1) = (case hm_get name (locks st) of
                        Some l \<Rightarrow> (l, st)
                      | None \<Rightarrow> (next_lock st, st\<lparr>locks := hm_insert name (next_lock st) (locks st), next_lock := Suc (next_lock st)\<rparr>));
          c = next_party st1
      in (c, st1\<lparr>parties := hm_insert c \<lparr>pt_name = name, pt_lock = l, pt_stage = Waiting\<rparr> (parties st1), next_party := Suc c\<rparr>))"

text \<open>The mutex is free and passes to a waiting party.\<close>

definition lock_name_acquire :: "nat \<Rightarrow> lock_state \<Rightarrow> lock_state option" where
  "lock_name_acquire c st =
     (case hm_get c (parties st) of
        Some p \<Rightarrow>
          if pt_stage p = Waiting \<and> list_all (\<lambda>(c', q). pt_lock q = pt_lock p \<longrightarrow> \<not> owns_mutex q) (parties st)
          then Some (st\<lparr>parties := hm_insert c (p\<lparr>pt_stage := Holding\<rparr>) (parties st)\<rparr>)
          else None
      | None \<Rightarrow> None)"

text \<open>\<^verbatim>\<open>NameLockGuard::drop\<close>: the sweep, under the map's lock.\<close>

definition guard_drop :: "nat \<Rightarrow> lock_state \<Rightarrow> lock_state option" where
  "guard_drop c st =
     (case hm_get c (parties st) of
        Some p \<Rightarrow>
          if pt_stage p = Holding
          then Some (st\<lparr>locks := (if strong_count (pt_lock p) st = 3 then hm_remove (pt_name p) (locks st) else locks st),
                        parties := hm_insert c (p\<lparr>pt_stage := Dropping\<rparr>) (parties st)\<rparr>)
          else None
      | None \<Rightarrow> None)"

text \<open>The guard's fields are dropped after it, or a waiting caller's future is dropped.\<close>

definition party_leave :: "nat \<Rightarrow> lock_state \<Rightarrow> lock_state option" where
  "party_leave c st =
     (case hm_get c (parties st) of
        Some p \<Rightarrow> if pt_stage p = Holding then None else Some (st\<lparr>parties := hm_remove c (parties st)\<rparr>)
      | None \<Rightarrow> None)"

inductive lock_step :: "lock_state \<Rightarrow> lock_state \<Rightarrow> bool" where
  lock_start: "lock_step st (snd (lock_name_start name st))"
| lock_acquire: "lock_name_acquire c st = Some st' \<Longrightarrow> lock_step st st'"
| lock_sweep: "guard_drop c st = Some st' \<Longrightarrow> lock_step st st'"
| lock_leave: "party_leave c st = Some st' \<Longrightarrow> lock_step st st'"

inductive_cases lock_stepE: "lock_step st st'"

abbreviation lock_reach :: "lock_state \<Rightarrow> bool" where
  "lock_reach st \<equiv> lock_step\<^sup>*\<^sup>* locks_init st"

section \<open>Invariant\<close>

text \<open>
  Waiting and holding parties use the lock their name maps to; distinct names map to distinct
  locks, below the allocation counter; at most one party owns each mutex.
\<close>

definition party_ok :: "lock_state \<Rightarrow> nat \<Rightarrow> party \<Rightarrow> bool" where
  "party_ok st c p \<longleftrightarrow>
     c < next_party st \<and> pt_lock p < next_lock st
     \<and> (pt_stage p \<noteq> Dropping \<longrightarrow> hm_get (pt_name p) (locks st) = Some (pt_lock p))
     \<and> (\<forall>n. hm_get n (locks st) = Some (pt_lock p) \<longrightarrow> n = pt_name p)"

definition lock_inv :: "lock_state \<Rightarrow> bool" where
  "lock_inv st \<longleftrightarrow>
     hm_wf (locks st) \<and> hm_wf (parties st)
     \<and> (\<forall>n l. hm_get n (locks st) = Some l \<longrightarrow> l < next_lock st)
     \<and> (\<forall>n n' l. hm_get n (locks st) = Some l \<longrightarrow> hm_get n' (locks st) = Some l \<longrightarrow> n = n')
     \<and> (\<forall>c p. hm_get c (parties st) = Some p \<longrightarrow> party_ok st c p)
     \<and> (\<forall>c p c' q. hm_get c (parties st) = Some p \<longrightarrow> hm_get c' (parties st) = Some q \<longrightarrow>
          pt_lock p = pt_lock q \<longrightarrow> owns_mutex p \<longrightarrow> owns_mutex q \<longrightarrow> c = c')"

lemma hm_two_entries:
  assumes "hm_get c m = Some p" "hm_get c' m = Some q" "c \<noteq> c'" "P p" "P q"
  shows "2 \<le> length (filter (\<lambda>(k, v). P v) m)"
proof -
  have "{(c, p), (c', q)} \<subseteq> set (filter (\<lambda>(k, v). P v) m)"
    using assms by (auto dest: hm_get_in)
  then have "card {(c, p), (c', q)} \<le> card (set (filter (\<lambda>(k, v). P v) m))" by (intro card_mono) auto
  with assms(3) show ?thesis using card_length [of "filter (\<lambda>(k, v). P v) m"] by simp
qed

lemma hm_one_entry: "hm_get c m = Some p \<Longrightarrow> P p \<Longrightarrow> 1 \<le> length (filter (\<lambda>(k, v). P v) m)"
  using hm_get_in [of c m p] by (cases "filter (\<lambda>(k, v). P v) m") (auto simp: filter_empty_conv)

lemma lock_invD:
  assumes "lock_inv st"
  shows "hm_wf (locks st)" "hm_wf (parties st)"
    "hm_get n (locks st) = Some l \<Longrightarrow> l < next_lock st"
    "hm_get n (locks st) = Some l \<Longrightarrow> hm_get n' (locks st) = Some l \<Longrightarrow> n = n'"
    "hm_get c (parties st) = Some p \<Longrightarrow> party_ok st c p"
    "hm_get c (parties st) = Some p \<Longrightarrow> hm_get c' (parties st) = Some q \<Longrightarrow> pt_lock p = pt_lock q \<Longrightarrow>
       owns_mutex p \<Longrightarrow> owns_mutex q \<Longrightarrow> c = c'"
  using assms unfolding lock_inv_def by blast+

lemma lock_invI:
  assumes "hm_wf (locks st)" "hm_wf (parties st)"
    "\<And>n l. hm_get n (locks st) = Some l \<Longrightarrow> l < next_lock st"
    "\<And>n n' l. hm_get n (locks st) = Some l \<Longrightarrow> hm_get n' (locks st) = Some l \<Longrightarrow> n = n'"
    "\<And>c p. hm_get c (parties st) = Some p \<Longrightarrow> party_ok st c p"
    "\<And>c p c' q. hm_get c (parties st) = Some p \<Longrightarrow> hm_get c' (parties st) = Some q \<Longrightarrow> pt_lock p = pt_lock q \<Longrightarrow>
       owns_mutex p \<Longrightarrow> owns_mutex q \<Longrightarrow> c = c'"
  shows "lock_inv st"
  using assms unfolding lock_inv_def by blast

lemma lock_inv_init: "lock_inv locks_init"
  by (simp add: lock_inv_def locks_init_def)

lemma lock_inv_add_lock:
  assumes "lock_inv st" "hm_get name (locks st) = None"
  shows "lock_inv (st\<lparr>locks := hm_insert name (next_lock st) (locks st), next_lock := Suc (next_lock st)\<rparr>)"
proof (rule lock_invI)
  note D = lock_invD [OF assms(1)]
  let ?L = "hm_insert name (next_lock st) (locks st)"
  let ?s = "st\<lparr>locks := ?L, next_lock := Suc (next_lock st)\<rparr>"
  have new: "hm_get n (locks st) \<noteq> Some (next_lock st)" for n using D(3) less_irrefl by blast
  show "l < next_lock ?s" if "hm_get n (locks ?s) = Some l" for n l
    using that D(3) [of n l] by (auto split: if_splits intro: less_SucI)
  show "n = n'" if "hm_get n (locks ?s) = Some l" "hm_get n' (locks ?s) = Some l" for n n' l
    using that D(4) [of n l n'] new by (auto split: if_splits)
  show "party_ok ?s c p" if "hm_get c (parties ?s) = Some p" for c p
    using D(5) [of c p] that assms(2) by (simp add: party_ok_def) (metis option.distinct(1))
  show "c = c'" if "hm_get c (parties ?s) = Some p" "hm_get c' (parties ?s) = Some q" "pt_lock p = pt_lock q" "owns_mutex p" "owns_mutex q"
    for c p c' q by (rule D(6) [of c p c' q]) (use that in simp_all)
qed (use lock_invD(1,2) [OF assms(1)] in simp_all)

lemma lock_inv_add_party:
  assumes "lock_inv st" "hm_get name (locks st) = Some l"
  shows "lock_inv (st\<lparr>parties := hm_insert (next_party st) \<lparr>pt_name = name, pt_lock = l, pt_stage = Waiting\<rparr> (parties st),
    next_party := Suc (next_party st)\<rparr>)"
proof (rule lock_invI)
  note D = lock_invD [OF assms(1)]
  let ?new = "\<lparr>pt_name = name, pt_lock = l, pt_stage = Waiting\<rparr>"
  let ?P = "hm_insert (next_party st) ?new (parties st)"
  let ?s = "st\<lparr>parties := ?P, next_party := Suc (next_party st)\<rparr>"
  show "party_ok ?s c p" if "hm_get c (parties ?s) = Some p" for c p
  proof (cases "c = next_party st")
    case True
    then have "p = ?new" using that by simp
    then show ?thesis using True D(3) [OF assms(2)] assms(2) by (simp add: party_ok_def) (blast intro: D(4))
  next
    case False
    then show ?thesis using that D(5) [of c p] by (simp add: party_ok_def)
  qed
  show "c = c'" if "hm_get c (parties ?s) = Some p" "hm_get c' (parties ?s) = Some q" "pt_lock p = pt_lock q" "owns_mutex p" "owns_mutex q" for c p c' q
  proof -
    have "c \<noteq> next_party st" "c' \<noteq> next_party st" using that by (auto simp: owns_mutex_def split: if_splits)
    then show ?thesis by (intro D(6) [of c p c' q]) (use that in simp_all)
  qed
  show "n = n'" if "hm_get n (locks ?s) = Some l'" "hm_get n' (locks ?s) = Some l'" for n n' l'
    by (rule D(4)) (use that in simp_all)
  show "l' < next_lock ?s" if "hm_get n (locks ?s) = Some l'" for n l'
    using D(3) [of n l'] that by simp
qed (use lock_invD(1,2) [OF assms(1)] in simp_all)

lemma lock_inv_start:
  assumes "lock_inv st"
  shows "lock_inv (snd (lock_name_start name st))"
proof (cases "hm_get name (locks st)")
  case None
  show ?thesis using lock_inv_add_party [OF lock_inv_add_lock [OF assms None], of name] by (simp add: lock_name_start_def None Let_def)
next
  case (Some l)
  show ?thesis using lock_inv_add_party [OF assms Some] by (simp add: lock_name_start_def Some Let_def)
qed

lemma lock_inv_acquire:
  assumes "lock_inv st" "lock_name_acquire c st = Some st'"
  shows "lock_inv st'"
proof -
  note D = lock_invD [OF assms(1)]
  obtain p where p: "hm_get c (parties st) = Some p" "pt_stage p = Waiting"
    and free: "\<And>c' q. hm_get c' (parties st) = Some q \<Longrightarrow> pt_lock q = pt_lock p \<Longrightarrow> \<not> owns_mutex q"
    and st': "st' = st\<lparr>parties := hm_insert c (p\<lparr>pt_stage := Holding\<rparr>) (parties st)\<rparr>"
    using assms(2) by (fastforce simp: lock_name_acquire_def list_all_iff split: option.splits if_splits dest: hm_get_in)
  let ?P = "hm_insert c (p\<lparr>pt_stage := Holding\<rparr>) (parties st)"
  let ?s = "st\<lparr>parties := ?P\<rparr>"
  show ?thesis
    unfolding st'
  proof (rule lock_invI)
    show "party_ok ?s c' q" if "hm_get c' (parties ?s) = Some q" for c' q
    proof (cases "c' = c")
      case True
      then have "q = p\<lparr>pt_stage := Holding\<rparr>" using that by simp
      then show ?thesis using True D(5) [OF p(1)] p(2) by (simp add: party_ok_def)
    next
      case False
      then show ?thesis using that D(5) [of c' q] by (simp add: party_ok_def)
    qed
    show "c' = c''" if "hm_get c' (parties ?s) = Some q" "hm_get c'' (parties ?s) = Some r" "pt_lock q = pt_lock r" "owns_mutex q" "owns_mutex r" for c' q c'' r
    proof -
      have old: "hm_get d (parties st) = Some x \<and> pt_lock x \<noteq> pt_lock p"
        if "hm_get d (parties ?s) = Some x" "owns_mutex x" "d \<noteq> c" for d x
        using that(1,3) free [OF _ _ ] that(2) by (simp; blast)
      have new: "x = p\<lparr>pt_stage := Holding\<rparr>" if "hm_get c (parties ?s) = Some x" for x using that by simp
      show ?thesis
      proof (cases "c' = c \<or> c'' = c")
        case True
        have "pt_lock q = pt_lock p" if "c' = c" using new [of q] \<open>hm_get c' (parties ?s) = Some q\<close> that by auto
        moreover have "pt_lock r = pt_lock p" if "c'' = c" using new [of r] \<open>hm_get c'' (parties ?s) = Some r\<close> that by auto
        ultimately show ?thesis
          using True old [OF that(1,4)] old [OF that(2,5)] that(3) by (cases "c' = c"; cases "c'' = c") simp_all
      next
        case False
        then show ?thesis using old [OF that(1,4)] old [OF that(2,5)] D(6) [of c' q c'' r] that(3-5) by blast
      qed
    qed
    show "n = n'" if "hm_get n (locks ?s) = Some l" "hm_get n' (locks ?s) = Some l" for n n' l
      by (rule D(4)) (use that in simp_all)
    show "l < next_lock ?s" if "hm_get n (locks ?s) = Some l" for n l
      using D(3) [of n l] that by simp
  qed (use D(1,2) in simp_all)
qed

lemma lock_inv_sweep:
  assumes "lock_inv st" "guard_drop c st = Some st'"
  shows "lock_inv st'"
proof -
  note D = lock_invD [OF assms(1)]
  obtain p where p: "hm_get c (parties st) = Some p" "pt_stage p = Holding"
    and st': "st' = st\<lparr>locks := (if strong_count (pt_lock p) st = 3 then hm_remove (pt_name p) (locks st) else locks st),
        parties := hm_insert c (p\<lparr>pt_stage := Dropping\<rparr>) (parties st)\<rparr>"
    using assms(2) by (auto simp: guard_drop_def split: option.splits if_splits)
  define lks where "lks = (if strong_count (pt_lock p) st = 3 then hm_remove (pt_name p) (locks st) else locks st)"
  let ?P = "hm_insert c (p\<lparr>pt_stage := Dropping\<rparr>) (parties st)"
  let ?s = "st\<lparr>locks := lks, parties := ?P\<rparr>"
  have only: "c' = c" if "strong_count (pt_lock p) st = 3" "hm_get c' (parties st) = Some q" "pt_lock q = pt_lock p" for c' q
  proof (rule ccontr)
    assume "c' \<noteq> c"
    then have "2 \<le> length (filter (\<lambda>(c, q). pt_lock q = pt_lock p) (parties st))"
      using hm_two_entries [OF that(2) p(1), of "\<lambda>q. pt_lock q = pt_lock p"] that(3) by simp
    with that(1) show False by (simp add: strong_count_def)
  qed
  have sub: "hm_get n lks = Some l \<Longrightarrow> hm_get n (locks st) = Some l" for n l
    by (auto simp: lks_def split: if_splits)
  have kept: "hm_get (pt_name q) lks = Some (pt_lock q)"
    if "hm_get c' (parties st) = Some q" "pt_stage q \<noteq> Dropping" "c' \<noteq> c" for c' q
  proof -
    have q: "hm_get (pt_name q) (locks st) = Some (pt_lock q)" and "hm_get (pt_name p) (locks st) = Some (pt_lock p)"
      using D(5) [OF that(1)] D(5) [OF p(1)] that(2) p(2) by (simp_all add: party_ok_def)
    then have "strong_count (pt_lock p) st = 3 \<Longrightarrow> pt_name q \<noteq> pt_name p"
      using only [OF _ that(1)] that(3) by auto
    with q show ?thesis by (simp add: lks_def)
  qed
  show ?thesis
    unfolding st' lks_def [symmetric]
  proof (rule lock_invI)
    show "party_ok ?s c' q" if "hm_get c' (parties ?s) = Some q" for c' q
    proof (cases "c' = c")
      case True
      then have "q = p\<lparr>pt_stage := Dropping\<rparr>" using that by simp
      then show ?thesis using True D(5) [OF p(1)] sub by (simp add: party_ok_def)
    next
      case False
      then show ?thesis using that D(5) [of c' q] kept [of c' q] sub by (simp add: party_ok_def)
    qed
    show "c' = c''" if "hm_get c' (parties ?s) = Some q" "hm_get c'' (parties ?s) = Some r" "pt_lock q = pt_lock r" "owns_mutex q" "owns_mutex r" for c' q c'' r
      using that D(6) [of c' q c'' r] D(6) [OF p(1), of c'' r] D(6) [OF _ p(1), of c' q] p(2)
      by (auto simp: owns_mutex_def split: if_splits)
    show "n = n'" if "hm_get n (locks ?s) = Some l" "hm_get n' (locks ?s) = Some l" for n n' l
      using D(4) [of n l n'] sub that by simp
    show "l < next_lock ?s" if "hm_get n (locks ?s) = Some l" for n l
      using D(3) [of n l] sub that by simp
  qed (use D(1,2) in \<open>simp_all add: lks_def\<close>)
qed

lemma lock_inv_leave:
  assumes "lock_inv st" "party_leave c st = Some st'"
  shows "lock_inv st'"
proof -
  note D = lock_invD [OF assms(1)]
  have st': "st' = st\<lparr>parties := hm_remove c (parties st)\<rparr>"
    using assms(2) by (auto simp: party_leave_def split: option.splits if_splits)
  let ?s = "st\<lparr>parties := hm_remove c (parties st)\<rparr>"
  show ?thesis
    unfolding st'
  proof (rule lock_invI)
    show "party_ok ?s c' q" if "hm_get c' (parties ?s) = Some q" for c' q
      using that D(5) [of c' q] by (simp add: party_ok_def split: if_splits)
    show "c' = c''" if "hm_get c' (parties ?s) = Some q" "hm_get c'' (parties ?s) = Some r"
      "pt_lock q = pt_lock r" "owns_mutex q" "owns_mutex r" for c' q c'' r
      by (rule D(6) [of c' q c'' r]) (use that in \<open>simp_all split: if_splits\<close>)
    show "n = n'" if "hm_get n (locks ?s) = Some l" "hm_get n' (locks ?s) = Some l" for n n' l
      by (rule D(4)) (use that in simp_all)
    show "l < next_lock ?s" if "hm_get n (locks ?s) = Some l" for n l
      using D(3) [of n l] that by simp
  qed (use D(1,2) in simp_all)
qed

interpretation callers: step_invariant lock_step lock_inv
  by unfold_locales (auto elim!: lock_stepE intro: lock_inv_start lock_inv_acquire lock_inv_sweep lock_inv_leave)

lemma lock_inv_reach: "lock_reach st \<Longrightarrow> lock_inv st"
  by (rule callers.steps_inv [OF _ lock_inv_init])

text \<open>
  C9. At any moment at most one caller is inside the critical section of a name, however many
  callers start, wait, finish, give up and are swept in between; a name somebody waits for or
  holds is in the map under the very lock it uses; and callers of different names never wait
  for each other: they use different locks.
\<close>

theorem name_lock_exclusive:
  assumes "lock_reach st" "hm_get c (parties st) = Some p" "hm_get c' (parties st) = Some q"
    "pt_stage p = Holding" "pt_stage q \<noteq> Dropping"
  shows "(pt_stage q = Holding \<longrightarrow> pt_name p = pt_name q \<longrightarrow> c = c')
    \<and> hm_get (pt_name q) (locks st) = Some (pt_lock q)
    \<and> (pt_name p \<noteq> pt_name q \<longrightarrow> pt_lock p \<noteq> pt_lock q)"
proof -
  note D = lock_invD [OF lock_inv_reach [OF assms(1)]]
  have l: "hm_get (pt_name p) (locks st) = Some (pt_lock p)" "hm_get (pt_name q) (locks st) = Some (pt_lock q)"
    using D(5) [OF assms(2)] D(5) [OF assms(3)] assms(4,5) by (simp_all add: party_ok_def)
  have "c = c'" if "pt_stage q = Holding" "pt_name p = pt_name q"
    using D(6) [OF assms(2,3)] l assms(4) that by (simp add: owns_mutex_def)
  moreover have "pt_lock p \<noteq> pt_lock q" if "pt_name p \<noteq> pt_name q"
    using D(4) [of "pt_name p" "pt_lock p" "pt_name q"] l that by auto
  ultimately show ?thesis using l(2) by blast
qed

definition two_callers :: lock_state where
  "two_callers = snd (lock_name_start ''a'' (snd (lock_name_start ''a'' locks_init)))"

lemma two_callers_reach: "lock_reach two_callers"
  unfolding two_callers_def by (rule run_step, rule run_one, rule lock_start, rule lock_start)

theorem name_lock_exclusive_witness:
  "\<exists>st p q. lock_reach st \<and> hm_get 0 (parties st) = Some p \<and> pt_stage p = Holding
     \<and> hm_get (Suc 0) (parties st) = Some q \<and> pt_stage q \<noteq> Holding \<and> hm_get ''a'' (locks st) = Some (pt_lock q)"
proof -
  have get: "hm_get 0 (parties two_callers) = Some \<lparr>pt_name = ''a'', pt_lock = 0, pt_stage = Waiting\<rparr>"
    "hm_get (Suc 0) (parties two_callers) = Some \<lparr>pt_name = ''a'', pt_lock = 0, pt_stage = Waiting\<rparr>"
    by (simp_all add: two_callers_def lock_name_start_def locks_init_def Let_def)
  have all: "\<forall>x \<in> set (parties two_callers). pt_stage (snd x) = Waiting"
    by (simp add: two_callers_def lock_name_start_def locks_init_def Let_def hm_insert_def hm_remove_def hm_get_def)
  then have "list_all (\<lambda>(c', q). pt_lock q = 0 \<longrightarrow> \<not> owns_mutex q) (parties two_callers)"
    by (auto simp: list_all_iff owns_mutex_def)
  then obtain st where st: "lock_name_acquire 0 two_callers = Some st"
    by (simp add: lock_name_acquire_def get)
  have r: "lock_reach st" by (rule run_step, rule two_callers_reach, rule lock_acquire, rule st)
  have p: "hm_get 0 (parties st) = Some \<lparr>pt_name = ''a'', pt_lock = 0, pt_stage = Holding\<rparr>"
    and q: "hm_get (Suc 0) (parties st) = Some \<lparr>pt_name = ''a'', pt_lock = 0, pt_stage = Waiting\<rparr>"
    using st by (auto simp: lock_name_acquire_def get split: if_splits)
  from name_lock_exclusive [OF r p q] r p q show ?thesis by auto
qed

end
