(* ===== verification/SnapStore.thy ===== *)
theory SnapStore
  imports AppState
begin

text \<open>
  Snapshots and retired checkpoints on disk (\<^verbatim>\<open>snapshot.rs\<close>, \<^verbatim>\<open>snapshot_history.rs\<close>): the
  directory layout, the metadata files and their JSON shape, the atomic write, moving a
  snapshot's files, and the scans that rebuild both maps when the daemon starts. The
  temporary directory is \<^verbatim>\<open>/tmp\<close> (\<^verbatim>\<open>TMPDIR\<close> unset). A scan logs why it skips a directory; the
  log lines are not modelled.
\<close>

section \<open>Paths\<close>

definition temp_dir :: string where
  "temp_dir = ''/tmp''"

definition snapshots_root :: string where
  "snapshots_root = path_join temp_dir ''sandkiln-snapshots''"

definition snapshot_dir :: "string \<Rightarrow> string" where
  "snapshot_dir i = path_join snapshots_root i"

definition meta_path :: "string \<Rightarrow> string" where
  "meta_path dir = path_join dir ''meta.json''"

definition state_path :: "string \<Rightarrow> string" where
  "state_path dir = path_join dir ''state.snap''"

definition mem_path :: "string \<Rightarrow> string" where
  "mem_path dir = path_join dir ''mem.bin''"

definition archive_snapshot_dir :: "string \<Rightarrow> string \<Rightarrow> string" where
  "archive_snapshot_dir archive_root i = path_join archive_root i"

definition retired_root :: string where
  "retired_root = path_join temp_dir ''sandkiln-snapshot-history''"

definition retired_dir :: "string \<Rightarrow> string" where
  "retired_dir i = path_join retired_root i"

text \<open>\<^verbatim>\<open>Path::parent\<close>, of the paths the daemon builds (they end in a plain component).\<close>

definition parent_path :: "string \<Rightarrow> string option" where
  "parent_path p = drop_last_component p"

section \<open>Metadata\<close>

record snapshot_meta =
  sm_id :: string
  sm_source_sandbox_id :: string
  sm_rootfs_path :: string
  sm_network :: network_config
  sm_host_octet :: u8
  sm_attached_drives :: "attached_drive list"
  sm_image_id :: "string option"
  sm_tags :: tags
  sm_created_at_unix :: u64
  sm_name :: "string option"
  sm_archived_at_unix :: "u64 option"
  sm_egress :: "egress_policy option"
  sm_parent_snapshot_id :: "string option"
  sm_mounts :: "mount list"
  sm_env :: env_vars

record retired_meta =
  rm_id :: string
  rm_source_sandbox_id :: string
  rm_rootfs_path :: string
  rm_network :: network_config
  rm_host_octet :: u8
  rm_attached_drives :: "attached_drive list"
  rm_image_id :: "string option"
  rm_tags :: tags
  rm_created_at_unix :: u64
  rm_retired_at_unix :: u64
  rm_name :: "string option"
  rm_parent_snapshot_id :: "string option"
  rm_egress :: "egress_policy option"
  rm_mounts :: "mount list"
  rm_env :: env_vars

definition opt_json :: "('a \<Rightarrow> json) \<Rightarrow> 'a option \<Rightarrow> json" where
  "opt_json f x = (case x of None \<Rightarrow> JNull | Some y \<Rightarrow> f y)"

fun jopt :: "(json \<Rightarrow> 'a option) \<Rightarrow> json \<Rightarrow> 'a option option" where
  "jopt f JNull = Some None"
| "jopt f j = map_option Some (f j)"

text \<open>A field of an \<^verbatim>\<open>Option\<close> type that is missing reads as \<^verbatim>\<open>None\<close>, with or without the attribute.\<close>

definition joptional :: "string \<Rightarrow> (json \<Rightarrow> 'a option) \<Rightarrow> (string \<times> json) list \<Rightarrow> 'a option option" where
  "joptional k f kvs = jdef k None (jopt f) kvs"

definition attached_drive_json :: "attached_drive \<Rightarrow> json" where
  "attached_drive_json d = JObj [(''drive_id'', JStr (ad_drive_id d)), (''read_only'', JBool (ad_read_only d))]"

definition attached_drive_of_json :: "json \<Rightarrow> attached_drive option" where
  "attached_drive_of_json j = do {
     kvs \<leftarrow> jobj j; i \<leftarrow> jreq ''drive_id'' jstr kvs; r \<leftarrow> jreq ''read_only'' jbool kvs;
     Some \<lparr>ad_drive_id = i, ad_read_only = r\<rparr> }"

definition mount_json :: "mount \<Rightarrow> json" where
  "mount_json m =
     JObj [(''id'', JStr (mt_id m)), (''bucket'', JStr (mt_bucket m)), (''endpoint'', JStr (mt_endpoint m)),
           (''mount_path'', JStr (mt_mount_path m)), (''read_only'', JBool (mt_read_only m))]"

definition mount_of_json :: "json \<Rightarrow> mount option" where
  "mount_of_json j = do {
     kvs \<leftarrow> jobj j; i \<leftarrow> jreq ''id'' jstr kvs; b \<leftarrow> jreq ''bucket'' jstr kvs; e \<leftarrow> jreq ''endpoint'' jstr kvs;
     p \<leftarrow> jreq ''mount_path'' jstr kvs; r \<leftarrow> jreq ''read_only'' jbool kvs;
     Some \<lparr>mt_id = i, mt_bucket = b, mt_endpoint = e, mt_mount_path = p, mt_read_only = r\<rparr> }"

definition egress_mode_json :: "egress_mode \<Rightarrow> json" where
  "egress_mode_json m = JStr (case m of AllowAll \<Rightarrow> ''allow_all'' | DenyAll \<Rightarrow> ''deny_all'')"

definition egress_mode_of_json :: "json \<Rightarrow> egress_mode option" where
  "egress_mode_of_json j =
     (case jstr j of
        Some s \<Rightarrow> if s = ''allow_all'' then Some AllowAll else if s = ''deny_all'' then Some DenyAll else None
      | None \<Rightarrow> None)"

definition egress_policy_json :: "egress_policy \<Rightarrow> json" where
  "egress_policy_json p =
     JObj [(''mode'', egress_mode_json (eg_mode p)), (''allow_cidrs'', JArr (map JStr (allow_cidrs p))),
           (''deny_cidrs'', JArr (map JStr (deny_cidrs p)))]"

definition egress_policy_of_json :: "json \<Rightarrow> egress_policy option" where
  "egress_policy_of_json j = do {
     kvs \<leftarrow> jobj j; m \<leftarrow> jreq ''mode'' egress_mode_of_json kvs; a \<leftarrow> jreq ''allow_cidrs'' (jlist jstr) kvs;
     d \<leftarrow> jreq ''deny_cidrs'' (jlist jstr) kvs;
     Some \<lparr>eg_mode = m, allow_cidrs = a, deny_cidrs = d\<rparr> }"

definition ipv4_of_json :: "json \<Rightarrow> ipv4 option" where
  "ipv4_of_json j = Option.bind (jstr j) parse_ipv4"

text \<open>The four network fields that both metadata files have, flat in the object.\<close>

definition network_fields_json :: "network_config \<Rightarrow> (string \<times> json) list" where
  "network_fields_json c =
     [(''tap_device'', JStr (tap_device c)), (''guest_ip'', JStr (show_ipv4 (guest_ip c))),
      (''gateway_ip'', JStr (show_ipv4 (nc_gateway_ip c))), (''guest_mac'', JStr (guest_mac c))]"

definition network_fields_of_json :: "(string \<times> json) list \<Rightarrow> network_config option" where
  "network_fields_of_json kvs = do {
     t \<leftarrow> jreq ''tap_device'' jstr kvs; ip \<leftarrow> jreq ''guest_ip'' ipv4_of_json kvs;
     gw \<leftarrow> jreq ''gateway_ip'' ipv4_of_json kvs; mac \<leftarrow> jreq ''guest_mac'' jstr kvs;
     Some \<lparr>tap_device = t, guest_ip = ip, nc_gateway_ip = gw, guest_mac = mac\<rparr> }"

definition snapshot_meta_json :: "snapshot_meta \<Rightarrow> json" where
  "snapshot_meta_json m =
     JObj ([(''id'', JStr (sm_id m)), (''source_sandbox_id'', JStr (sm_source_sandbox_id m)),
            (''rootfs_path'', JStr (sm_rootfs_path m))]
       @ network_fields_json (sm_network m)
       @ [(''host_octet'', jword (sm_host_octet m)),
          (''attached_drives'', JArr (map attached_drive_json (sm_attached_drives m))),
          (''image_id'', opt_json JStr (sm_image_id m)), (''tags'', jmap (sm_tags m)),
          (''created_at_unix'', jword (sm_created_at_unix m)), (''name'', opt_json JStr (sm_name m)),
          (''archived_at_unix'', opt_json jword (sm_archived_at_unix m)),
          (''egress'', opt_json egress_policy_json (sm_egress m)),
          (''parent_snapshot_id'', opt_json JStr (sm_parent_snapshot_id m)),
          (''mounts'', JArr (map mount_json (sm_mounts m))), (''env'', jmap (sm_env m))])"

definition snapshot_meta_of_json :: "json \<Rightarrow> snapshot_meta option" where
  "snapshot_meta_of_json j = do {
     kvs \<leftarrow> jobj j; i \<leftarrow> jreq ''id'' jstr kvs; src \<leftarrow> jreq ''source_sandbox_id'' jstr kvs;
     rootfs \<leftarrow> jreq ''rootfs_path'' jstr kvs; net \<leftarrow> network_fields_of_json kvs;
     octet \<leftarrow> jreq ''host_octet'' unjword kvs; ds \<leftarrow> jreq ''attached_drives'' (jlist attached_drive_of_json) kvs;
     img \<leftarrow> joptional ''image_id'' jstr kvs; tg \<leftarrow> jreq ''tags'' unjmap kvs;
     created \<leftarrow> jreq ''created_at_unix'' unjword kvs; name \<leftarrow> joptional ''name'' jstr kvs;
     archived \<leftarrow> joptional ''archived_at_unix'' unjword kvs; eg \<leftarrow> joptional ''egress'' egress_policy_of_json kvs;
     parent \<leftarrow> joptional ''parent_snapshot_id'' jstr kvs; ms \<leftarrow> jdef ''mounts'' [] (jlist mount_of_json) kvs;
     env \<leftarrow> jdef ''env'' [] unjmap kvs;
     Some \<lparr>sm_id = i, sm_source_sandbox_id = src, sm_rootfs_path = rootfs, sm_network = net, sm_host_octet = octet,
       sm_attached_drives = ds, sm_image_id = img, sm_tags = tg, sm_created_at_unix = created, sm_name = name,
       sm_archived_at_unix = archived, sm_egress = eg, sm_parent_snapshot_id = parent, sm_mounts = ms, sm_env = env\<rparr> }"

definition retired_meta_json :: "retired_meta \<Rightarrow> json" where
  "retired_meta_json m =
     JObj ([(''id'', JStr (rm_id m)), (''source_sandbox_id'', JStr (rm_source_sandbox_id m)),
            (''rootfs_path'', JStr (rm_rootfs_path m))]
       @ network_fields_json (rm_network m)
       @ [(''host_octet'', jword (rm_host_octet m)),
          (''attached_drives'', JArr (map attached_drive_json (rm_attached_drives m))),
          (''image_id'', opt_json JStr (rm_image_id m)), (''tags'', jmap (rm_tags m)),
          (''created_at_unix'', jword (rm_created_at_unix m)), (''retired_at_unix'', jword (rm_retired_at_unix m)),
          (''name'', opt_json JStr (rm_name m)), (''parent_snapshot_id'', opt_json JStr (rm_parent_snapshot_id m)),
          (''egress'', opt_json egress_policy_json (rm_egress m)),
          (''mounts'', JArr (map mount_json (rm_mounts m))), (''env'', jmap (rm_env m))])"

definition retired_meta_of_json :: "json \<Rightarrow> retired_meta option" where
  "retired_meta_of_json j = do {
     kvs \<leftarrow> jobj j; i \<leftarrow> jreq ''id'' jstr kvs; src \<leftarrow> jreq ''source_sandbox_id'' jstr kvs;
     rootfs \<leftarrow> jreq ''rootfs_path'' jstr kvs; net \<leftarrow> network_fields_of_json kvs;
     octet \<leftarrow> jreq ''host_octet'' unjword kvs; ds \<leftarrow> jreq ''attached_drives'' (jlist attached_drive_of_json) kvs;
     img \<leftarrow> joptional ''image_id'' jstr kvs; tg \<leftarrow> jreq ''tags'' unjmap kvs;
     created \<leftarrow> jreq ''created_at_unix'' unjword kvs; ret \<leftarrow> jreq ''retired_at_unix'' unjword kvs;
     name \<leftarrow> joptional ''name'' jstr kvs; parent \<leftarrow> joptional ''parent_snapshot_id'' jstr kvs;
     eg \<leftarrow> joptional ''egress'' egress_policy_of_json kvs; ms \<leftarrow> jdef ''mounts'' [] (jlist mount_of_json) kvs;
     env \<leftarrow> jdef ''env'' [] unjmap kvs;
     Some \<lparr>rm_id = i, rm_source_sandbox_id = src, rm_rootfs_path = rootfs, rm_network = net, rm_host_octet = octet,
       rm_attached_drives = ds, rm_image_id = img, rm_tags = tg, rm_created_at_unix = created,
       rm_retired_at_unix = ret, rm_name = name, rm_parent_snapshot_id = parent, rm_egress = eg,
       rm_mounts = ms, rm_env = env\<rparr> }"

section \<open>Writing\<close>

text \<open>
  \<^verbatim>\<open>write_atomically\<close>. An error while the temporary file is written leaves it behind; only a
  failed rename removes it. The fsync of the directory is best effort.
\<close>

definition tmp_of :: "string \<Rightarrow> string" where
  "tmp_of path = path @ ''.tmp''"

definition sync_parent :: "string \<Rightarrow> fs \<Rightarrow> fs" where
  "sync_parent path f = (case parent_path path of Some d \<Rightarrow> snd (sync_all d f) | None \<Rightarrow> f)"

definition write_atomically :: "string \<Rightarrow> u8 list \<Rightarrow> fs \<Rightarrow> (io_error, unit) result \<times> fs" where
  "write_atomically path contents f =
     (let tmp = tmp_of path in
      case create_file tmp f of (Inl e, f1) \<Rightarrow> (Inl e, f1) | (Inr _, f1) \<Rightarrow>
     (case write_all tmp contents f1 of (Inl e, f2) \<Rightarrow> (Inl e, f2) | (Inr _, f2) \<Rightarrow>
     (case sync_all tmp f2 of (Inl e, f3) \<Rightarrow> (Inl e, f3) | (Inr _, f3) \<Rightarrow>
     (case rename tmp path f3 of
        (Inl e, f4) \<Rightarrow> (Inl e, snd (remove_file tmp f4))
      | (Inr _, f4) \<Rightarrow> (Inr (), sync_parent path f4)))))"

definition epoch_secs :: "int \<Rightarrow> u64" where
  "epoch_secs t = of_int (unix_secs t)"

definition time_of_secs :: "u64 \<Rightarrow> int" where
  "time_of_secs n = uint n * 1000000000"

definition meta_of_snapshot :: "snapshot \<Rightarrow> snapshot_meta" where
  "meta_of_snapshot s =
     \<lparr>sm_id = sn_id s, sm_source_sandbox_id = sn_source_sandbox_id s, sm_rootfs_path = sn_rootfs_path s,
      sm_network = lease_config (sn_network s), sm_host_octet = host_octet (sn_network s),
      sm_attached_drives = sn_attached_drives s, sm_image_id = sn_image_id s, sm_tags = sn_tags s,
      sm_created_at_unix = epoch_secs (sn_created_at s), sm_name = sn_name s,
      sm_archived_at_unix = map_option epoch_secs (archived_at s), sm_egress = sn_egress s,
      sm_parent_snapshot_id = sn_parent_snapshot_id s, sm_mounts = sn_mounts s, sm_env = sn_env s\<rparr>"

definition snapshot_persist :: "json_codec \<Rightarrow> snapshot \<Rightarrow> string \<Rightarrow> fs \<Rightarrow> (io_error, unit) result \<times> fs" where
  "snapshot_persist cdc s dir f =
     write_atomically (meta_path dir) (json_text cdc (snapshot_meta_json (meta_of_snapshot s))) f"

definition meta_of_retired :: "retired_snapshot \<Rightarrow> retired_meta" where
  "meta_of_retired r =
     \<lparr>rm_id = rt_id r, rm_source_sandbox_id = rt_source_sandbox_id r, rm_rootfs_path = rt_rootfs_path r,
      rm_network = rt_network r, rm_host_octet = rt_host_octet r, rm_attached_drives = rt_attached_drives r,
      rm_image_id = rt_image_id r, rm_tags = rt_tags r, rm_created_at_unix = epoch_secs (rt_created_at r),
      rm_retired_at_unix = epoch_secs (retired_at r), rm_name = rt_name r,
      rm_parent_snapshot_id = rt_parent_snapshot_id r, rm_egress = rt_egress r, rm_mounts = rt_mounts r, rm_env = rt_env r\<rparr>"

definition retired_persist :: "json_codec \<Rightarrow> retired_snapshot \<Rightarrow> string \<Rightarrow> fs \<Rightarrow> (io_error, unit) result \<times> fs" where
  "retired_persist cdc r dir f =
     write_atomically (meta_path dir) (json_text cdc (retired_meta_json (meta_of_retired r))) f"

section \<open>Moving\<close>

definition move_file :: "string \<Rightarrow> string \<Rightarrow> fs \<Rightarrow> (io_error, unit) result \<times> fs" where
  "move_file src dst f =
     (case rename src dst f of
        (Inr _, f1) \<Rightarrow> (Inr (), f1)
      | (Inl _, f1) \<Rightarrow>
     (case copy_file src dst f1 of
        (Inl e, f2) \<Rightarrow> (Inl e, f2)
      | (Inr _, f2) \<Rightarrow> remove_file src f2))"

definition move_snapshot_files :: "snapshot \<Rightarrow> string \<Rightarrow> fs \<Rightarrow> (io_error, unit) result \<times> snapshot \<times> fs" where
  "move_snapshot_files s dest_dir f =
     (case create_dir_all dest_dir f of
        (Inl e, f1) \<Rightarrow> (Inl e, s, f1)
      | (Inr _, f1) \<Rightarrow>
     (case move_file (sn_snapshot_path s) (state_path dest_dir) f1 of
        (Inl e, f2) \<Rightarrow> (Inl e, s, f2)
      | (Inr _, f2) \<Rightarrow>
     (let s1 = s\<lparr>sn_snapshot_path := state_path dest_dir\<rparr> in
      case move_file (sn_mem_file_path s1) (mem_path dest_dir) f2 of
        (Inl e, f3) \<Rightarrow> (Inl e, s1, f3)
      | (Inr _, f3) \<Rightarrow> (Inr (), s1\<lparr>sn_mem_file_path := mem_path dest_dir\<rparr>, f3))))"

section \<open>Reading back\<close>

definition dir_complete :: "string \<Rightarrow> fs \<Rightarrow> bool" where
  "dir_complete dir f = (is_file (meta_path dir) f \<and> is_file (state_path dir) f \<and> is_file (mem_path dir) f)"

definition load_meta :: "json_codec \<Rightarrow> (json \<Rightarrow> 'm option) \<Rightarrow> ('m \<Rightarrow> string) \<Rightarrow> string \<Rightarrow> string \<Rightarrow> fs \<Rightarrow> 'm option \<times> fs" where
  "load_meta cdc of_json meta_id dir i f =
     (if \<not> dir_complete dir f then (None, f)
      else case read_file (meta_path dir) f of
        (Inl _, f1) \<Rightarrow> (None, f1)
      | (Inr bytes, f1) \<Rightarrow>
          (case Option.bind (json_value cdc bytes) of_json of
             None \<Rightarrow> (None, f1)
           | Some m \<Rightarrow> (if meta_id m = i then Some m else None, f1)))"

definition snapshot_of_meta :: "snapshot_meta \<Rightarrow> string \<Rightarrow> lease \<Rightarrow> snapshot" where
  "snapshot_of_meta m dir l =
     \<lparr>sn_id = sm_id m, sn_source_sandbox_id = sm_source_sandbox_id m, sn_snapshot_path = state_path dir,
      sn_mem_file_path = mem_path dir, sn_rootfs_path = sm_rootfs_path m, sn_network = l,
      sn_attached_drives = sm_attached_drives m, sn_image_id = sm_image_id m, sn_tags = sm_tags m,
      sn_created_at = time_of_secs (sm_created_at_unix m), sn_name = sm_name m, forked_into = None,
      archived_at = map_option time_of_secs (sm_archived_at_unix m), sn_egress = sm_egress m,
      sn_parent_snapshot_id = sm_parent_snapshot_id m, sn_mounts = sm_mounts m, sn_env = sm_env m\<rparr>"

definition load_one :: "json_codec \<Rightarrow> string \<Rightarrow> string \<Rightarrow> network_manager \<times> fs \<Rightarrow> snapshot option \<times> network_manager \<times> fs" where
  "load_one cdc dir i x =
     (case x of (net, f) \<Rightarrow>
     (case load_meta cdc snapshot_meta_of_json sm_id dir i f of
        (None, f1) \<Rightarrow> (None, net, f1)
      | (Some m, f1) \<Rightarrow>
          (case reserve net (sm_network m) (sm_host_octet m) of
             ((l, _), net1) \<Rightarrow> (Some (snapshot_of_meta m dir l), net1, f1))))"

definition retired_of_meta :: "retired_meta \<Rightarrow> string \<Rightarrow> retired_snapshot" where
  "retired_of_meta m dir =
     \<lparr>rt_id = rm_id m, rt_source_sandbox_id = rm_source_sandbox_id m, rt_snapshot_path = state_path dir,
      rt_mem_file_path = mem_path dir, rt_rootfs_path = rm_rootfs_path m, rt_network = rm_network m,
      rt_host_octet = rm_host_octet m, rt_attached_drives = rm_attached_drives m, rt_image_id = rm_image_id m,
      rt_tags = rm_tags m, rt_created_at = time_of_secs (rm_created_at_unix m),
      retired_at = time_of_secs (rm_retired_at_unix m), rt_name = rm_name m,
      rt_parent_snapshot_id = rm_parent_snapshot_id m, rt_egress = rm_egress m, rt_mounts = rm_mounts m, rt_env = rm_env m\<rparr>"

definition retired_load_one :: "json_codec \<Rightarrow> string \<Rightarrow> string \<Rightarrow> fs \<Rightarrow> retired_snapshot option \<times> fs" where
  "retired_load_one cdc dir i f =
     (case load_meta cdc retired_meta_of_json rm_id dir i f of
        (None, f1) \<Rightarrow> (None, f1)
      | (Some m, f1) \<Rightarrow> (Some (retired_of_meta m dir), f1))"

text \<open>One pass over the entries of a root: a directory that loads goes into the map under its name.\<close>

fun scan_entries :: "(string \<Rightarrow> string \<Rightarrow> 'x \<times> fs \<Rightarrow> 'r option \<times> 'x \<times> fs) \<Rightarrow> string \<Rightarrow> (io_error, string) result list \<Rightarrow>
    'r hash_map \<times> 'x \<times> fs \<Rightarrow> 'r hash_map \<times> 'x \<times> fs" where
  "scan_entries ld root [] x = x"
| "scan_entries ld root (Inl _ # es) x = scan_entries ld root es x"
| "scan_entries ld root (Inr i # es) (found, net, f) =
     (let dir = path_join root i in
      if \<not> is_dir dir f then scan_entries ld root es (found, net, f)
      else case ld dir i (net, f) of
             (Some s, net1, f1) \<Rightarrow> scan_entries ld root es (hm_insert i s found, net1, f1)
           | (None, net1, f1) \<Rightarrow> scan_entries ld root es (found, net1, f1))"

definition scan_root :: "json_codec \<Rightarrow> string \<Rightarrow> snapshot hash_map \<times> network_manager \<times> fs \<Rightarrow> snapshot hash_map \<times> network_manager \<times> fs" where
  "scan_root cdc root x =
     (case x of (found, net, f) \<Rightarrow>
      case read_dir root f of
        (Inl _, f1) \<Rightarrow> (found, net, f1)
      | (Inr es, f1) \<Rightarrow> scan_entries (load_one cdc) root es (found, net, f1))"

definition reconcile :: "json_codec \<Rightarrow> string \<Rightarrow> network_manager \<Rightarrow> fs \<Rightarrow> snapshot hash_map \<times> network_manager \<times> fs" where
  "reconcile cdc archive_root net f = scan_root cdc archive_root (scan_root cdc snapshots_root ([], net, f))"

definition reconcile_retired :: "json_codec \<Rightarrow> fs \<Rightarrow> retired_snapshot hash_map \<times> fs" where
  "reconcile_retired cdc f =
     (case read_dir retired_root f of
        (Inl _, f1) \<Rightarrow> ([], f1)
      | (Inr es, f1) \<Rightarrow>
          (case scan_entries (\<lambda>dir i (u, g). case retired_load_one cdc dir i g of (r, g1) \<Rightarrow> (r, u, g1)) retired_root es ([], (), f1) of
             (found, _, f2) \<Rightarrow> (found, f2)))"

section \<open>Metadata round trips\<close>

lemma jlist_map [codec]: "(\<And>x. f (g x) = Some x) \<Longrightarrow> jlist f (JArr (map g xs)) = Some xs"
  by (induction xs) auto

lemma jopt_jstr [codec]: "jopt jstr (opt_json JStr x) = Some x"
  by (cases x) (simp_all add: opt_json_def)

lemma jopt_word [codec]: "jopt unjword (opt_json jword x) = Some (x :: 'a::len word option)"
  by (cases x) (simp_all add: opt_json_def jword_def unjword_jword [unfolded jword_def])

lemma attached_drive_round [codec]: "attached_drive_of_json (attached_drive_json d) = Some d"
  by (simp add: attached_drive_of_json_def attached_drive_json_def codec)

lemma mount_round [codec]: "mount_of_json (mount_json m) = Some m"
  by (simp add: mount_of_json_def mount_json_def codec)

lemma egress_mode_round [codec]: "egress_mode_of_json (egress_mode_json m) = Some m"
  by (cases m) (simp_all add: egress_mode_of_json_def egress_mode_json_def)

lemma egress_policy_round [codec]: "egress_policy_of_json (egress_policy_json p) = Some p"
  by (simp add: egress_policy_of_json_def egress_policy_json_def codec)

lemma jopt_egress [codec]: "jopt egress_policy_of_json (opt_json egress_policy_json x) = Some x"
proof (cases x)
  case (Some p)
  have "jopt f (egress_policy_json p) = map_option Some (f (egress_policy_json p))" for f :: "json \<Rightarrow> egress_policy option"
    by (simp add: egress_policy_json_def)
  with Some show ?thesis by (simp add: opt_json_def codec)
qed (simp add: opt_json_def)

lemma ipv4_round [codec]: "ipv4_of_json (JStr (show_ipv4 a)) = Some a"
  by (simp add: ipv4_of_json_def parse_show_ipv4)

lemma snapshot_meta_round:
  assumes "hm_wf (sm_tags m)" "hm_wf (sm_env m)"
  shows "snapshot_meta_of_json (snapshot_meta_json m) = Some m"
  using assms
  by (simp add: snapshot_meta_of_json_def snapshot_meta_json_def network_fields_json_def network_fields_of_json_def
      joptional_def codec)

lemma retired_meta_round:
  assumes "hm_wf (rm_tags m)" "hm_wf (rm_env m)"
  shows "retired_meta_of_json (retired_meta_json m) = Some m"
  using assms
  by (simp add: retired_meta_of_json_def retired_meta_json_def network_fields_json_def network_fields_of_json_def
      joptional_def codec)

interpretation snapshot_metas: json_type snapshot_meta_json snapshot_meta_of_json "\<lambda>m. hm_wf (sm_tags m) \<and> hm_wf (sm_env m)"
  by unfold_locales (simp add: snapshot_meta_round)

interpretation retired_metas: json_type retired_meta_json retired_meta_of_json "\<lambda>m. hm_wf (rm_tags m) \<and> hm_wf (rm_env m)"
  by unfold_locales (simp add: retired_meta_round)

text \<open>A metadata file from before a \<^verbatim>\<open>serde(default)\<close> field existed still reads: the field is empty.\<close>

lemma old_meta_defaults:
  assumes "snapshot_meta_of_json (JObj kvs) = Some m"
    "\<forall>k \<in> {''image_id'', ''name'', ''archived_at_unix'', ''egress'', ''parent_snapshot_id'', ''mounts'', ''env''}. map_of kvs k = None"
  shows "sm_image_id m = None \<and> sm_name m = None \<and> sm_archived_at_unix m = None \<and> sm_egress m = None
    \<and> sm_parent_snapshot_id m = None \<and> sm_mounts m = [] \<and> sm_env m = []"
  using assms by (auto simp: snapshot_meta_of_json_def joptional_def jdef_def split: Option.bind_splits)

section \<open>Times\<close>

text \<open>What is left of a time on disk: whole seconds, nothing before the epoch.\<close>

definition whole_secs :: "int \<Rightarrow> int" where
  "whole_secs t = unix_secs t * 1000000000"

lemma time_of_epoch_secs: "unix_secs t < 2 ^ 64 \<Longrightarrow> time_of_secs (epoch_secs t) = whole_secs t"
  by (simp add: time_of_secs_def epoch_secs_def whole_secs_def unix_secs_def uint_word_of_int_eq take_bit_int_eq_self
      pos_imp_zdiv_nonneg_iff)

section \<open>The atomic write\<close>

lemma rename_file_cases:
  assumes "rename a b f = (r, f')" "node_at a f = Some (FileNode d n)"
  obtains (failed) e where "r = Inl e" "fs_nodes f' = fs_nodes f"
  | (moved) "r = Inr ()" "resolve b \<noteq> []"
      "node_at b f' = Some (FileNode d n)" "\<And>q. resolve q \<noteq> resolve a \<Longrightarrow> resolve q \<noteq> resolve b \<Longrightarrow> node_at q f' = node_at q f"
      "resolve a \<noteq> resolve b \<Longrightarrow> node_at a f' = None"
proof -
  obtain o' f1 where t: "fs_try (OpRename a b) f = (o', f1)" by (cases "fs_try (OpRename a b) f")
  then have n1: "fs_nodes f1 = fs_nodes f" by (simp add: fs_try_eq)
  note same = node_at_cong [OF n1]
  have ra: "resolve a \<noteq> []" using assms(2) by (auto simp: node_at_def split: if_splits)
  show thesis
  proof (cases o')
    case (Some e)
    then show thesis using assms(1) t n1 by (intro failed [of "fault_err e"]) (auto simp: rename_def)
  next
    case None
    show thesis
    proof (cases "can_create b f1")
      case True
      then have rb: "resolve b \<noteq> []" by (rule can_create_resolve)
      have f': "r = Inr ()" "f' = put_node b (FileNode d n) (if resolve a = resolve b then f1 else del_node a f1)"
        using assms t None True by (simp_all add: rename_def same)
      show thesis
        by (rule moved) (use f' rb ra same in \<open>auto simp: fs_simps\<close>)
    next
      case False
      then show thesis using assms t None n1 by (intro failed [of no_entry]) (auto simp: rename_def same)
    qed
  qed
qed

lemma sync_all_nodes: "fs_nodes (snd (sync_all p f)) = fs_nodes f"
  by (auto simp: sync_all_def fs_try_def split: option.splits)

lemma sync_parent_nodes: "fs_nodes (sync_parent p f) = fs_nodes f"
  by (simp add: sync_parent_def sync_all_nodes split: option.splits)

lemma write_all_other:
  assumes "resolve p \<noteq> []"
  shows "resolve q \<noteq> resolve p \<Longrightarrow> node_at q (snd (write_all p bs f)) = node_at q f"
    "fst (write_all p bs f) = Inr () \<Longrightarrow> node_at p (snd (write_all p bs f)) = Some (FileNode bs (length bs))"
  using assms
  by (auto simp: write_all_def fs_try_def fs_simps split: option.splits) (auto simp: node_at_def put_node_def)

lemma create_file_other:
  assumes "create_file p f = (r, f')"
  shows "resolve q \<noteq> resolve p \<Longrightarrow> node_at q f' = node_at q f"
    "r = Inr () \<Longrightarrow> resolve p \<noteq> [] \<and> node_at p f' = Some (FileNode [] 0)"
  using assms can_create_resolve [of p]
  by (auto simp: create_file_def fs_try_def fs_simps split: option.splits if_splits) (auto simp: node_at_def put_node_def)

lemma remove_file_elsewhere:
  assumes "resolve q \<noteq> resolve p"
  shows "node_at q (snd (remove_file p f)) = node_at q f"
  using assms is_file_resolve [of p "snd (fs_try (OpRemoveFile p) f)"]
  by (auto simp: remove_file_def fs_simps node_at_cong [OF conjunct1 [OF fs_try_eq]] split: option.splits prod.splits if_splits)

lemma meta_tmp: "tmp_of (meta_path dir) = path_join dir ''meta.json.tmp''"
  by (simp add: tmp_of_def meta_path_def path_join_def)

lemma plain_names [simp]:
  "plain_component ''meta.json''" "plain_component ''meta.json.tmp''" "plain_component ''state.snap''" "plain_component ''mem.bin''"
  by code_simp+

lemma dir_files [simp]:
  "resolve (meta_path d) = resolve d @ [''meta.json'']" "resolve (state_path d) = resolve d @ [''state.snap'']"
  "resolve (mem_path d) = resolve d @ [''mem.bin'']" "resolve (tmp_of (meta_path d)) = resolve d @ [''meta.json.tmp'']"
  by (simp_all add: resolve_join meta_tmp) (simp_all add: resolve_join meta_path_def state_path_def mem_path_def)

lemma write_atomically_cases:
  assumes "write_atomically path bs f = (r, f')" "resolve (tmp_of path) \<noteq> resolve path"
  obtains (failed) e where "r = Inl e" "\<And>q. resolve q \<noteq> resolve (tmp_of path) \<Longrightarrow> node_at q f' = node_at q f"
  | (written) "r = Inr ()" "node_at path f' = Some (FileNode bs (length bs))" "node_at (tmp_of path) f' = None"
      "\<And>q. resolve q \<noteq> resolve (tmp_of path) \<Longrightarrow> resolve q \<noteq> resolve path \<Longrightarrow> node_at q f' = node_at q f"
proof -
  let ?tmp = "tmp_of path"
  obtain r1 f1 where c: "create_file ?tmp f = (r1, f1)" by (cases "create_file ?tmp f")
  note other1 = create_file_other(1) [OF c]
  show thesis
  proof (cases r1)
    case (Inl e)
    then show thesis using assms(1) c other1 by (intro failed [of e]) (auto simp: write_atomically_def)
  next
    case r1: (Inr u)
    obtain r2 f2 where w: "write_all ?tmp bs f1 = (r2, f2)" by (cases "write_all ?tmp bs f1")
    have tmp: "resolve ?tmp \<noteq> []" using create_file_other(2) [OF c] r1 by simp
    have other2: "resolve q \<noteq> resolve ?tmp \<Longrightarrow> node_at q f2 = node_at q f" for q
      using write_all_other(1) [OF tmp, of q bs f1] other1 w by simp
    show thesis
    proof (cases r2)
      case (Inl e)
      then show thesis using assms(1) c r1 w other2 by (intro failed [of e]) (auto simp: write_atomically_def)
    next
      case r2: (Inr u)
      have node2: "node_at ?tmp f2 = Some (FileNode bs (length bs))" using write_all_other(2) [OF tmp, of bs f1] w r2 by simp
      obtain r3 f3 where s: "sync_all ?tmp f2 = (r3, f3)" by (cases "sync_all ?tmp f2")
      then have n3: "fs_nodes f3 = fs_nodes f2" using sync_all_nodes [of ?tmp f2] by simp
      note same3 = node_at_cong [OF n3]
      show thesis
      proof (cases r3)
        case (Inl e)
        then show thesis using assms(1) c r1 w r2 s other2 same3 by (intro failed [of e]) (auto simp: write_atomically_def)
      next
        case r3: (Inr u)
        obtain r4 f4 where m: "rename ?tmp path f3 = (r4, f4)" by (cases "rename ?tmp path f3")
        have node3: "node_at ?tmp f3 = Some (FileNode bs (length bs))" using node2 same3 by simp
        from m node3 show thesis
        proof (cases rule: rename_file_cases)
          case (failed e)
          then have "r = Inl e" "f' = snd (remove_file ?tmp f4)"
            using assms(1) c r1 w r2 s r3 m by (simp_all add: write_atomically_def Let_def)
          then show thesis
            using remove_file_elsewhere [of _ ?tmp f4] other2 same3 node_at_cong [OF failed(2)] by (intro that(1) [of e]) simp_all
        next
          case moved
          then have f': "r = Inr ()" "f' = sync_parent path f4"
            using assms(1) c r1 w r2 s r3 m by (simp_all add: write_atomically_def Let_def)
          note same4 = node_at_cong [OF sync_parent_nodes]
          show thesis
            by (rule that(2)) (use f' moved other2 same3 assms(2) same4 in auto)
        qed
      qed
    qed
  qed
qed

text \<open>
  C10. The metadata write is all or nothing: whichever of its system calls fails, and however
  much of the temporary file was written by then, the file at the target is what it was before
  on an error and the complete new contents on success, with no temporary file left then; no
  other file changes in either case.
\<close>

theorem write_atomically_all_or_nothing:
  assumes "write_atomically path bs f = (r, f')" "resolve (tmp_of path) \<noteq> resolve path"
  shows "(case r of
      Inl e \<Rightarrow> node_at path f' = node_at path f
    | Inr _ \<Rightarrow> node_at path f' = Some (FileNode bs (length bs)) \<and> node_at (tmp_of path) f' = None)
    \<and> (resolve q \<noteq> resolve path \<longrightarrow> resolve q \<noteq> resolve (tmp_of path) \<longrightarrow> node_at q f' = node_at q f)"
  using assms
proof (cases rule: write_atomically_cases)
  case (failed e)
  then show ?thesis using assms(2) failed(2) [of path] by simp
qed auto

definition torn_disk :: fs where
  "torn_disk =
     \<lparr>fs_nodes = [([''d''], DirNode), ([''d'', ''meta.json''], FileNode [1, 2, 3] 3)],
      fs_faults = (\<lambda>_ op. case op of OpWrite _ \<Rightarrow> Some \<lparr>fault_err = io_other ''No space left on device'' [],
                     fault_written = Some 1, fault_kept = (\<lambda>_. True)\<rparr> | _ \<Rightarrow> None),
      fs_ops = [], cmd_effect = (\<lambda>_ ns. ns)\<rparr>"

theorem write_atomically_all_or_nothing_witness:
  "\<exists>e f'. write_atomically (meta_path ''/d'') [7, 8] torn_disk = (Inl e, f')
     \<and> node_at ''/d/meta.json'' f' = Some (FileNode [1, 2, 3] 3)"
proof -
  have "\<not> is_ok (fst (write_atomically (meta_path ''/d'') [7, 8] torn_disk))" by code_simp
  then obtain e f' where w: "write_atomically (meta_path ''/d'') [7, 8] torn_disk = (Inl e, f')"
    by (cases "write_atomically (meta_path ''/d'') [7, 8] torn_disk"; cases "fst (write_atomically (meta_path ''/d'') [7, 8] torn_disk)") auto
  have "meta_path ''/d'' = ''/d/meta.json''" "node_at ''/d/meta.json'' torn_disk = Some (FileNode [1, 2, 3] 3)"
    by code_simp+
  moreover have "resolve (tmp_of (meta_path ''/d'')) \<noteq> resolve (meta_path ''/d'')" by simp
  ultimately show ?thesis using write_atomically_all_or_nothing [OF w] w by auto
qed

section \<open>A snapshot survives a restart\<close>

definition fs_ok :: "fs \<Rightarrow> bool" where
  "fs_ok f \<longleftrightarrow> (\<forall>ops op. fs_faults f ops op = None)"

lemma fs_ok_ops [simp]: "fs_ok (f\<lparr>fs_ops := x\<rparr>) = fs_ok f"
  by (simp add: fs_ok_def)

definition restored_snapshot :: "snapshot \<Rightarrow> string \<Rightarrow> snapshot" where
  "restored_snapshot s dir =
     s\<lparr>sn_snapshot_path := state_path dir, sn_mem_file_path := mem_path dir, sn_created_at := whole_secs (sn_created_at s),
       forked_into := None, archived_at := map_option whole_secs (archived_at s)\<rparr>"

lemma snapshot_of_meta_of_snapshot:
  assumes "unix_secs (sn_created_at s) < 2 ^ 64" "\<And>t. archived_at s = Some t \<Longrightarrow> unix_secs t < 2 ^ 64"
  shows "snapshot_of_meta (meta_of_snapshot s) dir (sn_network s) = restored_snapshot s dir"
  using assms by (cases "archived_at s")
    (simp_all add: snapshot_of_meta_def meta_of_snapshot_def restored_snapshot_def time_of_epoch_secs)

lemma read_file_ok:
  assumes "fs_ok f" "node_at p f = Some (FileNode bs (length bs))"
  shows "read_file p f = (Inr bs, f\<lparr>fs_ops := fs_ops f @ [OpRead p]\<rparr>)"
  using assms by (auto simp: read_file_def fs_try_def fs_ok_def node_at_def split: if_splits)

lemma remove_first_gone: "distinct xs \<Longrightarrow> y \<notin> set (fst (remove_first (\<lambda>x. x = y) xs))"
  by (induction xs) (auto split: prod.splits)

lemma remove_first_sub: "set (fst (remove_first p xs)) \<subseteq> set xs"
  by (induction xs) (auto split: prod.splits)

lemma remove_first_distinct: "distinct xs \<Longrightarrow> distinct (fst (remove_first p xs))"
proof (induction xs)
  case (Cons x xs)
  then show ?case using remove_first_sub [of p xs] by (auto split: prod.splits)
qed simp

lemma reserve_net:
  assumes "reserve m c h = ((l, b1, b2), m')"
  shows "l = \<lparr>lease_config = c, host_octet = h\<rparr>" "set (free_taps m') \<subseteq> set (free_taps m)" "set (free_hosts m') \<subseteq> set (free_hosts m)"
    "distinct (free_taps m) \<Longrightarrow> distinct (free_taps m') \<and> tap_device c \<notin> set (free_taps m')"
    "distinct (free_hosts m) \<Longrightarrow> distinct (free_hosts m') \<and> h \<notin> set (free_hosts m')"
proof -
  have m': "l = \<lparr>lease_config = c, host_octet = h\<rparr>" "free_taps m' = fst (remove_first (\<lambda>t. t = tap_device c) (free_taps m))"
    "free_hosts m' = fst (remove_first (\<lambda>x. x = h) (free_hosts m))"
    using assms by (auto simp: reserve_def Let_def split: prod.splits)
  show "l = \<lparr>lease_config = c, host_octet = h\<rparr>" "set (free_taps m') \<subseteq> set (free_taps m)" "set (free_hosts m') \<subseteq> set (free_hosts m)"
    using m' remove_first_sub by metis+
  show "distinct (free_taps m) \<Longrightarrow> distinct (free_taps m') \<and> tap_device c \<notin> set (free_taps m')"
    "distinct (free_hosts m) \<Longrightarrow> distinct (free_hosts m') \<and> h \<notin> set (free_hosts m')"
    using m' remove_first_gone remove_first_distinct by metis+
qed

lemma write_atomically_ok:
  assumes "fs_ok f" "is_dir dir f" "\<not> is_dir (meta_path dir) f" "\<not> is_dir (tmp_of (meta_path dir)) f"
  shows "\<exists>f'. write_atomically (meta_path dir) bs f = (Inr (), f') \<and> fs_ok f'"
proof -
  let ?p = "meta_path dir" and ?t = "tmp_of (meta_path dir)"
  define f1 where "f1 = put_node ?t (FileNode [] 0) (f\<lparr>fs_ops := fs_ops f @ [OpCreate ?t]\<rparr>)"
  define f2 where "f2 = put_node ?t (FileNode bs (length bs)) (f1\<lparr>fs_ops := fs_ops f1 @ [OpWrite ?t]\<rparr>)"
  define f3 where "f3 = f2\<lparr>fs_ops := fs_ops f2 @ [OpSync ?t]\<rparr>"
  have dir: "parent_is_dir (resolve dir @ [x]) g" if "fs_nodes g = fs_nodes f" for g x
    using assms(2) that by (auto simp: parent_is_dir_def is_dir_def node_at_def split: if_splits)
  have put: "parent_is_dir (resolve dir @ [x]) (put_node ?t n g) = parent_is_dir (resolve dir @ [x]) g" for g x n
    by (simp add: parent_is_dir_def put_node_def)
  have ok: "fs_ok f1" "fs_ok f2" "fs_ok f3" using assms(1) by (simp_all add: fs_ok_def f1_def f2_def f3_def)
  have c: "create_file ?t f = (Inr (), f1)"
    using assms dir [of "f\<lparr>fs_ops := fs_ops f @ [OpCreate ?t]\<rparr>"]
    by (simp add: create_file_def fs_try_def fs_ok_def can_create_def is_dir_def node_at_def f1_def)
  have w: "write_all ?t bs f1 = (Inr (), f2)" "sync_all ?t f2 = (Inr (), f3)"
    using ok by (simp_all add: write_all_def sync_all_def fs_try_def fs_ok_def f2_def f3_def)
  have pd: "parent_is_dir (resolve ?p) (f3\<lparr>fs_ops := x\<rparr>)" for x
    using put [of "''meta.json''"] dir [of f "''meta.json''"] by (simp add: f3_def f2_def f1_def parent_is_dir_def put_node_def)
  have nd: "\<not> is_dir ?p (f3\<lparr>fs_ops := x\<rparr>)" for x
    using assms(3) by (simp add: f3_def f2_def f1_def is_dir_def node_at_def put_node_def)
  have nt: "node_at ?t (f3\<lparr>fs_ops := x\<rparr>) = Some (FileNode bs (length bs))" for x
    by (simp add: f3_def f2_def node_at_def put_node_def)
  obtain f4 where r: "rename ?t ?p f3 = (Inr (), f4)" "fs_faults f4 = fs_faults f3"
    using ok(3) pd nd nt by (simp add: rename_def fs_try_def fs_ok_def can_create_def)
  have "write_atomically ?p bs f = (Inr (), sync_parent ?p f4)"
    using c w r by (simp add: write_atomically_def Let_def)
  moreover have "fs_faults (sync_parent ?p f4) = fs_faults f4"
    by (auto simp: sync_parent_def sync_all_def fs_try_def split: option.splits)
  ultimately show ?thesis using ok(3) r(2) by (simp add: fs_ok_def)
qed

text \<open>
  C21. A snapshot whose metadata was written into a directory that holds its state and memory
  files is read back by the next start of the daemon with everything it had (drives, image,
  tags, name, egress policy, parent, mounts, environment, network identity); only times are
  cut to whole seconds and a live fork is forgotten. Its tap device and its address are
  taken out of the free pools.
\<close>

theorem snapshot_survives_restart:
  assumes json_text_law: "\<And>j. json_value cdc (json_text cdc j) = Some j"
    and "snapshot_persist cdc s dir f = (Inr (), f1)" "is_file (state_path dir) f" "is_file (mem_path dir) f"
    and "hm_wf (sn_tags s)" "hm_wf (sn_env s)" "unix_secs (sn_created_at s) < 2 ^ 64"
      "\<And>t. archived_at s = Some t \<Longrightarrow> unix_secs t < 2 ^ 64"
    and "fs_ok f1" "distinct (free_taps net)" "distinct (free_hosts net)"
  shows "case load_one cdc dir (sn_id s) (net, f1) of
     (r, net', _) \<Rightarrow> r = Some (restored_snapshot s dir)
       \<and> lease_tap (sn_network s) \<notin> set (free_taps net') \<and> host_octet (sn_network s) \<notin> set (free_hosts net')"
proof -
  let ?m = "meta_of_snapshot s"
  have meta: "node_at (meta_path dir) f1 =
      Some (FileNode (json_text cdc (snapshot_meta_json ?m)) (length (json_text cdc (snapshot_meta_json ?m))))"
    and other: "\<And>q. resolve q \<noteq> resolve dir @ [''meta.json''] \<Longrightarrow> resolve q \<noteq> resolve dir @ [''meta.json.tmp''] \<Longrightarrow> node_at q f1 = node_at q f"
    using assms(2) by (auto simp: snapshot_persist_def elim!: write_atomically_cases)
  have "is_file (state_path dir) f1" "is_file (mem_path dir) f1"
    using assms(3,4) other [of "state_path dir"] other [of "mem_path dir"] by (simp_all add: is_file_node)
  with meta have "dir_complete dir f1" by (simp add: dir_complete_def is_file_node)
  moreover have "snapshot_meta_of_json (snapshot_meta_json ?m) = Some ?m"
    by (rule snapshot_metas.round) (use assms(5,6) in \<open>simp_all add: meta_of_snapshot_def\<close>)
  moreover have "sm_id ?m = sn_id s" by (simp add: meta_of_snapshot_def)
  ultimately have load: "load_meta cdc snapshot_meta_of_json sm_id dir (sn_id s) f1 =
      (Some ?m, f1\<lparr>fs_ops := fs_ops f1 @ [OpRead (meta_path dir)]\<rparr>)"
    using read_file_ok [OF assms(9) meta] json_text_law by (simp add: load_meta_def)
  obtain l b1 b2 net' where r: "reserve net (sm_network ?m) (sm_host_octet ?m) = ((l, b1, b2), net')"
    by (cases "reserve net (sm_network ?m) (sm_host_octet ?m)") auto
  have "l = sn_network s" using reserve_net(1) [OF r] by (simp add: meta_of_snapshot_def)
  moreover have "lease_tap (sn_network s) \<notin> set (free_taps net')" "host_octet (sn_network s) \<notin> set (free_hosts net')"
    using reserve_net(4,5) [OF r] assms(10,11) by (simp_all add: meta_of_snapshot_def lease_tap_def)
  ultimately show ?thesis
    using load r snapshot_of_meta_of_snapshot [OF assms(7,8)] by (simp add: load_one_def)
qed

definition sample_codec :: json_codec where
  "sample_codec = \<lparr>json_text = unary_print, json_value = unary_parse\<rparr>"

definition snap_disk :: fs where
  "snap_disk =
     \<lparr>fs_nodes = [([''d''], DirNode), ([''d'', ''state.snap''], FileNode [1] 1), ([''d'', ''mem.bin''], FileNode [2] 1)],
      fs_faults = (\<lambda>_ _. None), fs_ops = [], cmd_effect = (\<lambda>_ ns. ns)\<rparr>"

definition sample_lease :: lease where
  "sample_lease = \<lparr>lease_config = \<lparr>tap_device = ''sk-tap0'', guest_ip = Ipv4 172 16 0 2, nc_gateway_ip = Ipv4 172 16 0 1,
     guest_mac = ''AA:FC:00:00:02:02''\<rparr>, host_octet = 2\<rparr>"

definition sample_snapshot :: snapshot where
  "sample_snapshot =
     \<lparr>sn_id = ''d'', sn_source_sandbox_id = ''s'', sn_snapshot_path = ''/d/state.snap'', sn_mem_file_path = ''/d/mem.bin'',
      sn_rootfs_path = ''/tmp/r'', sn_network = sample_lease, sn_attached_drives = [], sn_image_id = None,
      sn_tags = [(''k'', ''v'')], sn_created_at = 5500000000, sn_name = Some ''n'', forked_into = Some ''f'', archived_at = None,
      sn_egress = None, sn_parent_snapshot_id = None, sn_mounts = [], sn_env = []\<rparr>"

theorem snapshot_survives_restart_witness:
  "\<exists>f1. snapshot_persist sample_codec sample_snapshot ''/d'' snap_disk = (Inr (), f1)
     \<and> fst (load_one sample_codec ''/d'' ''d'' (sample_manager, f1))
       = Some (sample_snapshot\<lparr>sn_created_at := 5000000000, forked_into := None\<rparr>)"
proof -
  have "fs_ok snap_disk" "is_dir ''/d'' snap_disk" "\<not> is_dir (meta_path ''/d'') snap_disk"
    "\<not> is_dir (tmp_of (meta_path ''/d'')) snap_disk"
    by (simp add: fs_ok_def snap_disk_def) code_simp+
  then obtain f1 where p: "snapshot_persist sample_codec sample_snapshot ''/d'' snap_disk = (Inr (), f1)" and ok: "fs_ok f1"
    using write_atomically_ok unfolding snapshot_persist_def by blast
  have files: "is_file (state_path ''/d'') snap_disk" "is_file (mem_path ''/d'') snap_disk" by code_simp+
  have law: "json_value sample_codec (json_text sample_codec j) = Some j" for j
    by (simp add: sample_codec_def unary_parse_def unary_print_def numeral_3_eq_3)
  have "restored_snapshot sample_snapshot ''/d'' = sample_snapshot\<lparr>sn_created_at := 5000000000, forked_into := None\<rparr>"
    by (simp add: restored_snapshot_def sample_snapshot_def whole_secs_def unix_secs_def state_path_def mem_path_def path_join_def)
  moreover have "distinct (free_taps sample_manager)" "distinct (free_hosts sample_manager)"
    by (simp_all add: sample_manager_def network_new_def distinct_host_octets)
  ultimately show ?thesis
    using snapshot_survives_restart [of sample_codec sample_snapshot "''/d''" snap_disk f1 sample_manager, OF law p files _ _ _ _ ok] p
    by (simp add: sample_snapshot_def hm_wf_def unix_secs_def split: prod.splits)
qed

section \<open>The scan at startup\<close>

text \<open>What a directory of a root holds, without any system call in between.\<close>

definition disk_snapshot :: "json_codec \<Rightarrow> string \<Rightarrow> string \<Rightarrow> fs \<Rightarrow> snapshot option" where
  "disk_snapshot cdc root i f =
     (let dir = path_join root i in
      if is_dir root f \<and> i \<in> set (child_names root f) \<and> is_dir dir f \<and> dir_complete dir f
      then (case node_at (meta_path dir) f of
              Some (FileNode d l) \<Rightarrow>
                (case Option.bind (json_value cdc (take l (d @ replicate (l - length d) 0))) snapshot_meta_of_json of
                   Some m \<Rightarrow> if sm_id m = i
                     then Some (snapshot_of_meta m dir \<lparr>lease_config = sm_network m, host_octet = sm_host_octet m\<rparr>) else None
                 | None \<Rightarrow> None)
            | _ \<Rightarrow> None)
      else None)"

definition same_disk :: "fs \<Rightarrow> fs \<Rightarrow> bool" where
  "same_disk f g \<longleftrightarrow> fs_nodes g = fs_nodes f \<and> fs_faults g = fs_faults f"

lemma same_diskD:
  assumes "same_disk f g"
  shows "node_at p g = node_at p f" "is_dir p g = is_dir p f" "is_file p g = is_file p f" "fs_ok g = fs_ok f"
    "dir_complete d g = dir_complete d f" "child_names r g = child_names r f"
proof -
  have n: "node_at q g = node_at q f" for q using assms by (simp add: same_disk_def node_at_def)
  show "node_at p g = node_at p f" "is_dir p g = is_dir p f" "is_file p g = is_file p f" "dir_complete d g = dir_complete d f"
    by (simp_all add: n is_dir_def is_file_def dir_complete_def)
  show "fs_ok g = fs_ok f" "child_names r g = child_names r f"
    using assms by (simp_all add: same_disk_def fs_ok_def child_names_def)
qed

lemma disk_snapshot_same: "same_disk f g \<Longrightarrow> disk_snapshot cdc root i g = disk_snapshot cdc root i f"
  by (simp add: disk_snapshot_def same_diskD Let_def)

lemma same_disk_refl [simp]: "same_disk f f"
  by (simp add: same_disk_def)

lemma load_one_disk:
  assumes "fs_ok f" "is_dir root f" "i \<in> set (child_names root f)" "is_dir (path_join root i) f"
    "load_one cdc (path_join root i) i (net, f) = (r, net', f')"
  shows "r = disk_snapshot cdc root i f" "same_disk f f'"
    "set (free_taps net') \<subseteq> set (free_taps net)" "set (free_hosts net') \<subseteq> set (free_hosts net)"
    "distinct (free_taps net) \<Longrightarrow> distinct (free_taps net')" "distinct (free_hosts net) \<Longrightarrow> distinct (free_hosts net')"
    "r = Some s \<Longrightarrow> distinct (free_taps net) \<Longrightarrow> distinct (free_hosts net) \<Longrightarrow>
       lease_tap (sn_network s) \<notin> set (free_taps net') \<and> host_octet (sn_network s) \<notin> set (free_hosts net')"
proof -
  let ?dir = "path_join root i"
  obtain m f1 where l: "load_meta cdc snapshot_meta_of_json sm_id ?dir i f = (m, f1)"
    by (cases "load_meta cdc snapshot_meta_of_json sm_id ?dir i f")
  have m: "disk_snapshot cdc root i f =
      map_option (\<lambda>m. snapshot_of_meta m ?dir \<lparr>lease_config = sm_network m, host_octet = sm_host_octet m\<rparr>) m \<and> same_disk f f1"
  proof (cases "dir_complete ?dir f")
    case True
    then obtain d n where d: "node_at (meta_path ?dir) f = Some (FileNode d n)" by (auto simp: dir_complete_def is_file_node)
    let ?g = "f\<lparr>fs_ops := fs_ops f @ [OpRead (meta_path ?dir)]\<rparr>"
    have g: "same_disk f ?g" by (simp add: same_disk_def)
    have rf: "read_file (meta_path ?dir) f = (Inr (take n (d @ replicate (n - length d) 0)), ?g)"
      using d assms(1) same_diskD(1) [OF g, of "meta_path ?dir"] by (simp add: read_file_def fs_try_def fs_ok_def)
    show ?thesis
      using l True rf d assms(2-4) g
      by (cases "Option.bind (json_value cdc (take n (d @ replicate (n - length d) 0))) snapshot_meta_of_json")
        (auto simp: load_meta_def disk_snapshot_def)
  next
    case False
    with l assms(2-4) show ?thesis by (auto simp: load_meta_def disk_snapshot_def)
  qed
  consider (none) "r = None" "m = None" "net' = net" "f' = f1"
    | (some) m0 l b1 b2 where "m = Some m0" "reserve net (sm_network m0) (sm_host_octet m0) = ((l, b1, b2), net')"
        "r = Some (snapshot_of_meta m0 ?dir l)" "f' = f1"
    using assms(5) l by (auto simp: load_one_def split: option.splits prod.splits)
  then have "r = disk_snapshot cdc root i f \<and> same_disk f f'
    \<and> set (free_taps net') \<subseteq> set (free_taps net) \<and> set (free_hosts net') \<subseteq> set (free_hosts net)
    \<and> (distinct (free_taps net) \<longrightarrow> distinct (free_taps net')) \<and> (distinct (free_hosts net) \<longrightarrow> distinct (free_hosts net'))
    \<and> (r = Some s \<longrightarrow> distinct (free_taps net) \<longrightarrow> distinct (free_hosts net) \<longrightarrow>
         lease_tap (sn_network s) \<notin> set (free_taps net') \<and> host_octet (sn_network s) \<notin> set (free_hosts net'))"
  proof cases
    case some
    note R = reserve_net [OF some(2)]
    have net: "sn_network (snapshot_of_meta m0 ?dir l) = l" by (simp add: snapshot_of_meta_def)
    show ?thesis using m some(1,3,4) R net by (auto simp: lease_tap_def)
  qed (use m in simp)
  then show "r = disk_snapshot cdc root i f" "same_disk f f'"
    "set (free_taps net') \<subseteq> set (free_taps net)" "set (free_hosts net') \<subseteq> set (free_hosts net)"
    "distinct (free_taps net) \<Longrightarrow> distinct (free_taps net')" "distinct (free_hosts net) \<Longrightarrow> distinct (free_hosts net')"
    "r = Some s \<Longrightarrow> distinct (free_taps net) \<Longrightarrow> distinct (free_hosts net) \<Longrightarrow>
       lease_tap (sn_network s) \<notin> set (free_taps net') \<and> host_octet (sn_network s) \<notin> set (free_hosts net')"
    by blast+
qed

text \<open>The taps and octets of found snapshots are not free.\<close>

definition reserved_ok :: "snapshot hash_map \<Rightarrow> network_manager \<Rightarrow> bool" where
  "reserved_ok found net \<longleftrightarrow>
     distinct (free_taps net) \<and> distinct (free_hosts net)
     \<and> (\<forall>i s. hm_get i found = Some s \<longrightarrow> lease_tap (sn_network s) \<notin> set (free_taps net) \<and> host_octet (sn_network s) \<notin> set (free_hosts net))"

lemma scan_entries_disk:
  assumes "fs_ok f" "is_dir root f" "set names \<subseteq> set (child_names root f)" "reserved_ok found net"
    "scan_entries (load_one cdc) root (map Inr names) (found, net, f) = (found', net', f')"
  shows "same_disk f f'" "reserved_ok found' net'"
    "hm_get i found' = (case (if i \<in> set names then disk_snapshot cdc root i f else None) of Some s \<Rightarrow> Some s | None \<Rightarrow> hm_get i found)"
proof -
  have "same_disk f f' \<and> reserved_ok found' net' \<and>
    (\<forall>i. hm_get i found' = (case (if i \<in> set names then disk_snapshot cdc root i f else None) of Some s \<Rightarrow> Some s | None \<Rightarrow> hm_get i found))"
    using assms
  proof (induction names arbitrary: found net f)
    case Nil
    then show ?case by simp
  next
    case (Cons n ns)
    show ?case
    proof (cases "is_dir (path_join root n) f")
      case False
      then have "scan_entries (load_one cdc) root (map Inr ns) (found, net, f) = (found', net', f')"
        and "disk_snapshot cdc root n f = None"
        using Cons.prems(5) by (simp_all add: Let_def disk_snapshot_def)
      then show ?thesis using Cons.IH [OF Cons.prems(1,2) _ Cons.prems(4)] Cons.prems(3) by (auto split: option.splits)
    next
      case True
      obtain r net1 f1 where l: "load_one cdc (path_join root n) n (net, f) = (r, net1, f1)"
        by (cases "load_one cdc (path_join root n) n (net, f)")
      have "n \<in> set (child_names root f)" using Cons.prems(3) by simp
      note L = load_one_disk [OF Cons.prems(1,2) this True l]
      note S = same_diskD [OF L(2)]
      let ?found1 = "case r of Some s \<Rightarrow> hm_insert n s found | None \<Rightarrow> found"
      have rest: "scan_entries (load_one cdc) root (map Inr ns) (?found1, net1, f1) = (found', net', f')"
        using Cons.prems(5) True l by (simp add: Let_def split: option.splits)
      have res: "reserved_ok ?found1 net1"
        using Cons.prems(4) L(3-7) by (auto simp: reserved_ok_def subset_iff split: option.splits)
      have "same_disk f1 f' \<and> reserved_ok found' net' \<and> (\<forall>i. hm_get i found' =
          (case (if i \<in> set ns then disk_snapshot cdc root i f1 else None) of Some s \<Rightarrow> Some s | None \<Rightarrow> hm_get i ?found1))"
        using Cons.IH [OF _ _ _ res rest] Cons.prems(1-3) S by simp
      then show ?thesis
        using L(1,2) disk_snapshot_same [OF L(2)] by (auto simp: same_disk_def split: option.splits)
    qed
  qed
  then show "same_disk f f'" "reserved_ok found' net'"
    "hm_get i found' = (case (if i \<in> set names then disk_snapshot cdc root i f else None) of Some s \<Rightarrow> Some s | None \<Rightarrow> hm_get i found)"
    by blast+
qed

lemma scan_root_disk:
  assumes "fs_ok f" "reserved_ok found net" "scan_root cdc root (found, net, f) = (found', net', f')"
  shows "same_disk f f'" "reserved_ok found' net'"
    "hm_get i found' = (case disk_snapshot cdc root i f of Some s \<Rightarrow> Some s | None \<Rightarrow> hm_get i found)"
proof -
  obtain rd f1 where r: "read_dir root f = (rd, f1)" by (cases "read_dir root f")
  have s1: "same_disk f f1" using r by (auto simp: read_dir_def fs_try_def same_disk_def split: option.splits if_splits)
  note S = same_diskD [OF s1]
  have "same_disk f f' \<and> reserved_ok found' net' \<and>
    (\<forall>i. hm_get i found' = (case disk_snapshot cdc root i f of Some s \<Rightarrow> Some s | None \<Rightarrow> hm_get i found))"
  proof (cases "is_dir root f")
    case True
    have "fs_faults f1 = fs_faults f" using s1 by (simp add: same_disk_def)
    then have rd: "rd = Inr (map Inr (child_names root f))"
      using r True assms(1) by (simp add: read_dir_def fs_try_def fs_ok_def is_dir_def node_at_def child_names_def split: if_splits)
    then have "scan_entries (load_one cdc) root (map Inr (child_names root f)) (found, net, f1) = (found', net', f')"
      using assms(3) r by (simp add: scan_root_def)
    note E = scan_entries_disk [OF _ _ _ assms(2) this]
    have "same_disk f1 f'" "reserved_ok found' net'" using E(1,2) assms(1) True S by simp_all
    moreover have "hm_get i found' = (case disk_snapshot cdc root i f of Some s \<Rightarrow> Some s | None \<Rightarrow> hm_get i found)" for i
    proof -
      have out: "i \<notin> set (child_names root f) \<Longrightarrow> disk_snapshot cdc root i f = None" by (simp add: disk_snapshot_def)
      show ?thesis
        using E(3) [of i] assms(1) True S disk_snapshot_same [OF s1, of cdc root i] out
        by (cases "i \<in> set (child_names root f)") simp_all
    qed
    ultimately show ?thesis using s1 by (auto simp: same_disk_def)
  next
    case False
    then have "\<exists>e. rd = Inl e" "\<And>i. disk_snapshot cdc root i f = None"
      using r by (auto simp: read_dir_def fs_try_def disk_snapshot_def is_dir_def node_at_def split: option.splits if_splits)
    with assms(2,3) r s1 show ?thesis by (auto simp: scan_root_def)
  qed
  then show "same_disk f f'" "reserved_ok found' net'"
    "hm_get i found' = (case disk_snapshot cdc root i f of Some s \<Rightarrow> Some s | None \<Rightarrow> hm_get i found)"
    by blast+
qed

text \<open>
  C22. On a disk whose reads succeed, the scan at startup finds exactly the complete, parsable
  snapshot directories of the two roots whose metadata carries the directory's own name, an
  archived one in preference to a hot one of the same id, however the file system orders the
  entries; and no found snapshot's tap device or address is left in the free pools, so that no
  new sandbox can be given the network identity frozen in a snapshot.
\<close>

theorem reconcile_exact:
  assumes "fs_ok f" "distinct (free_taps net)" "distinct (free_hosts net)"
    "reconcile cdc archive_root net f = (found, net', f')"
  shows "hm_get i found =
      (case disk_snapshot cdc archive_root i f of Some s \<Rightarrow> Some s | None \<Rightarrow> disk_snapshot cdc snapshots_root i f)
    \<and> (hm_get i found = Some s \<longrightarrow>
         lease_tap (sn_network s) \<notin> set (free_taps net') \<and> host_octet (sn_network s) \<notin> set (free_hosts net'))"
proof -
  obtain found1 net1 f1 where s1: "scan_root cdc snapshots_root ([], net, f) = (found1, net1, f1)"
    by (cases "scan_root cdc snapshots_root ([], net, f)")
  have "reserved_ok [] net" using assms(2,3) by (simp add: reserved_ok_def)
  note A = scan_root_disk [OF assms(1) this s1]
  have "scan_root cdc archive_root (found1, net1, f1) = (found, net', f')"
    using assms(4) s1 by (simp add: reconcile_def)
  note B = scan_root_disk [OF _ A(2) this, unfolded same_diskD(4) [OF A(1)], OF assms(1)]
  show ?thesis
    using A(3) [of i] B(2) B(3) [of i] disk_snapshot_same [OF A(1)] by (auto simp: reserved_ok_def split: option.splits)
qed

definition restart_disk :: fs where
  "restart_disk =
     (let text = json_text sample_codec (snapshot_meta_json (meta_of_snapshot sample_snapshot)); d = [''tmp'', ''sandkiln-snapshots''] in
     \<lparr>fs_nodes = [([''tmp''], DirNode), (d, DirNode), (d @ [''d''], DirNode), (d @ [''half''], DirNode),
        (d @ [''d'', ''meta.json''], FileNode text (length text)), (d @ [''d'', ''state.snap''], FileNode [1] 1),
        (d @ [''d'', ''mem.bin''], FileNode [2] 1), (d @ [''half'', ''meta.json''], FileNode text (length text))],
      fs_faults = (\<lambda>_ _. None), fs_ops = [], cmd_effect = (\<lambda>_ ns. ns)\<rparr>)"

theorem reconcile_exact_witness:
  "case reconcile sample_codec ''/archive'' sample_manager restart_disk of (found, net, f) \<Rightarrow>
     (\<exists>s. hm_get ''d'' found = Some s \<and> sn_name s = Some ''n'') \<and> hm_get ''half'' found = None
     \<and> ''sk-tap0'' \<notin> set (free_taps net)"
proof -
  obtain found net f where r: "reconcile sample_codec ''/archive'' sample_manager restart_disk = (found, net, f)"
    by (cases "reconcile sample_codec ''/archive'' sample_manager restart_disk")
  have ok: "fs_ok restart_disk" by (simp add: fs_ok_def restart_disk_def Let_def)
  have fr: "distinct (free_taps sample_manager)" "distinct (free_hosts sample_manager)"
    by (simp_all add: sample_manager_def network_new_def distinct_host_octets)
  have law: "json_value sample_codec (json_text sample_codec j) = Some j" for j
    by (simp add: sample_codec_def unary_parse_def unary_print_def numeral_3_eq_3)
  have m: "snapshot_meta_of_json (snapshot_meta_json (meta_of_snapshot sample_snapshot)) = Some (meta_of_snapshot sample_snapshot)"
    by (rule snapshot_metas.round) (simp_all add: meta_of_snapshot_def sample_snapshot_def hm_wf_def)
  note disk_defs = disk_snapshot_def restart_disk_def Let_def child_names_def is_dir_def node_at_def hm_get_def
    dir_complete_def is_file_def snapshots_root_def temp_dir_def meta_path_def state_path_def mem_path_def path_join_def resolve_def
  have "disk_snapshot sample_codec ''/archive'' i restart_disk = None" for i
    by (simp add: disk_defs)
  moreover have "disk_snapshot sample_codec snapshots_root ''half'' restart_disk = None"
    by (simp add: disk_defs)
  moreover obtain s where "disk_snapshot sample_codec snapshots_root ''d'' restart_disk = Some s" "sn_name s = Some ''n''"
      "lease_tap (sn_network s) = ''sk-tap0''"
    using law m by (simp add: disk_defs) (simp add: meta_of_snapshot_def sample_snapshot_def snapshot_of_meta_def lease_tap_def sample_lease_def)
  ultimately show ?thesis
    using reconcile_exact [OF ok fr r, of "''d''" s] reconcile_exact [OF ok fr r, of "''half''"] r by auto
qed

end
