(* ===== verification/SnapMove.thy ===== *)
theory SnapMove
  imports SnapStore
begin

text \<open>
  What moving a snapshot's files guarantees (\<^verbatim>\<open>move_file\<close> and \<^verbatim>\<open>move_snapshot_files\<close> of
  \<^verbatim>\<open>snapshot.rs\<close>), for every pattern of failing file operations: archiving, retiring and
  restoring a checkpoint all rest on it.
\<close>

lemma copy_file_cases:
  assumes "copy_file a b f = (r, f')" "node_at a f = Some (FileNode d n)" "resolve a \<noteq> resolve b"
  shows "node_at a f' = Some (FileNode d n)"
    "r = Inr () \<Longrightarrow> node_at b f' = Some (FileNode d n)"
    "resolve q \<noteq> resolve b \<Longrightarrow> node_at q f' = node_at q f"
proof -
  obtain o' f1 where t: "fs_try (OpCopy a b) f = (o', f1)" by (cases "fs_try (OpCopy a b) f")
  have n: "node_at q f1 = node_at q f" for q using t by (intro node_at_cong) (simp add: fs_try_eq)
  show "node_at a f' = Some (FileNode d n)" "r = Inr () \<Longrightarrow> node_at b f' = Some (FileNode d n)"
    "resolve q \<noteq> resolve b \<Longrightarrow> node_at q f' = node_at q f"
    using assms t n can_create_resolve [of b f1]
    by (auto simp: copy_file_def fs_simps split: option.splits if_splits)
qed

lemma remove_file_cases:
  assumes "remove_file p f = (r, f')"
  shows "r = Inl e \<Longrightarrow> node_at q f' = node_at q f" "resolve q \<noteq> resolve p \<Longrightarrow> node_at q f' = node_at q f"
proof -
  obtain o' f1 where t: "fs_try (OpRemoveFile p) f = (o', f1)" by (cases "fs_try (OpRemoveFile p) f")
  have n: "node_at q f1 = node_at q f" for q using t by (intro node_at_cong) (simp add: fs_try_eq)
  show "r = Inl e \<Longrightarrow> node_at q f' = node_at q f" "resolve q \<noteq> resolve p \<Longrightarrow> node_at q f' = node_at q f"
    using assms t n is_file_resolve [of p f1]
    by (auto simp: remove_file_def fs_simps split: option.splits if_splits)
qed

text \<open>A move either leaves the source as it was, or the destination holds its bytes; nothing else changes.\<close>

lemma move_file_cases:
  assumes "move_file a b f = (r, f')" "node_at a f = Some (FileNode d n)" "resolve a \<noteq> resolve b"
  shows "case r of Inl _ \<Rightarrow> node_at a f' = Some (FileNode d n) | Inr _ \<Rightarrow> node_at b f' = Some (FileNode d n)"
    "resolve q \<noteq> resolve a \<Longrightarrow> resolve q \<noteq> resolve b \<Longrightarrow> node_at q f' = node_at q f"
proof -
  obtain r1 f1 where rn: "rename a b f = (r1, f1)" by (cases "rename a b f")
  have "(case r of Inl _ \<Rightarrow> node_at a f' = Some (FileNode d n) | Inr _ \<Rightarrow> node_at b f' = Some (FileNode d n))
    \<and> (\<forall>q. resolve q \<noteq> resolve a \<longrightarrow> resolve q \<noteq> resolve b \<longrightarrow> node_at q f' = node_at q f)"
    using rn assms(2)
  proof (cases rule: rename_file_cases)
    case moved
    then show ?thesis using assms(1) rn by (auto simp: move_file_def)
  next
    case (failed e)
    have n1: "node_at q f1 = node_at q f" for q by (rule node_at_cong [OF failed(2)])
    obtain r2 f2 where cp: "copy_file a b f1 = (r2, f2)" by (cases "copy_file a b f1")
    note C = copy_file_cases [OF cp _ assms(3), unfolded n1, OF assms(2)]
    show ?thesis
    proof (cases r2)
      case (Inl e2)
      then show ?thesis using assms(1) rn failed(1) cp C by (auto simp: move_file_def)
    next
      case (Inr u)
      then have rm: "remove_file a f2 = (r, f')" using assms(1) rn failed(1) cp by (simp add: move_file_def)
      note R = remove_file_cases [OF rm]
      show ?thesis
      proof (cases r)
        case Inl
        then show ?thesis using R(1) C(1,3) by auto
      next
        case (Inr v)
        have "r2 = Inr ()" using \<open>r2 = Inr u\<close> by simp
        then show ?thesis using Inr R(2) C(2,3) assms(3) by auto
      qed
    qed
  qed
  then show "case r of Inl _ \<Rightarrow> node_at a f' = Some (FileNode d n) | Inr _ \<Rightarrow> node_at b f' = Some (FileNode d n)"
    "resolve q \<noteq> resolve a \<Longrightarrow> resolve q \<noteq> resolve b \<Longrightarrow> node_at q f' = node_at q f"
    by blast+
qed

lemma create_dir_all_keeps_files:
  assumes "create_dir_all p f = (r, f')" "node_at q f = Some (FileNode d n)"
  shows "node_at q f' = Some (FileNode d n)"
proof -
  have fold: "hm_get k (fold (\<lambda>q ns. hm_insert q DirNode ns) qs ns) = (if k \<in> set qs then Some DirNode else hm_get k ns)"
    for k qs and ns :: nodes
    by (induction qs arbitrary: ns) auto
  obtain o' f1 where t: "fs_try (OpCreateDir p) f = (o', f1)" by (cases "fs_try (OpCreateDir p) f")
  have n: "fs_nodes f1 = fs_nodes f" using t by (simp add: fs_try_eq)
  then have n1: "node_at q f1 = node_at q f" by (rule node_at_cong)
  have q: "resolve q \<noteq> []" "hm_get (resolve q) (fs_nodes f) = Some (FileNode d n)"
    using assms(2) by (auto simp: node_at_def split: if_splits)
  show ?thesis
    using assms(1) t n n1 assms(2) q
    by (auto simp: create_dir_all_def Let_def node_at_def fold list_ex_iff dest: spec [of _ "resolve q"] split: option.splits if_splits)
qed


text \<open>The rename crosses file systems and the copy of the memory file is cut short.\<close>

definition full_disk :: fs where
  "full_disk = snap_disk\<lparr>fs_faults := \<lambda>ops op. case op of
       OpRename _ _ \<Rightarrow> Some \<lparr>fault_err = IoError CrossesDevices (Msg '''' []), fault_written = None, fault_kept = (\<lambda>_. True)\<rparr>
     | OpCopy a _ \<Rightarrow> if a = ''/d/mem.bin'' then Some \<lparr>fault_err = io_other ''no space'' [], fault_written = Some 0, fault_kept = (\<lambda>_. True)\<rparr> else None
     | _ \<Rightarrow> None\<rparr>"


end
