(* ===== verification/Lifecycle.thy ===== *)
theory Lifecycle
  imports SnapMove
begin

text \<open>
  How a sandbox becomes a snapshot and comes back: \<^verbatim>\<open>routes_snapshot.rs\<close>,
  \<^verbatim>\<open>routes_snapshot_history.rs\<close> and the stop and destroy half of \<^verbatim>\<open>routes_sandbox.rs\<close>. Each
  handler is one function on the daemon's state: a request that runs to its end without
  another one in between (the name locks, where interleaving matters most, have their own
  step relation in \<open>NameLocks\<close>). A failed \<^verbatim>\<open>expect\<close> is an error value of its own
  (\<open>SnapPanic\<close>); log lines are not modelled.
\<close>

section \<open>Operations on the daemon that several handlers share\<close>

text \<open>\<^verbatim>\<open>clone_rootfs\<close>: a program run for its exit status.\<close>

definition clone_rootfs :: "string \<Rightarrow> string \<Rightarrow> sys \<times> fs \<Rightarrow> (io_error, unit) result \<times> sys \<times> fs" where
  "clone_rootfs src dst w =
     (case run_on_disk (Command ''cp'' [''--reflink=auto'', src, dst] []) w of
        (Inl e, w1) \<Rightarrow> (Inl e, w1)
      | (Inr o1, w1) \<Rightarrow>
          if out_success o1 then (Inr (), w1) else (Inl (io_other ''cp --reflink=auto failed'' [src, dst]), w1))"

definition app_clone_rootfs :: "string \<Rightarrow> string \<Rightarrow> app \<Rightarrow> (io_error, unit) result \<times> app" where
  "app_clone_rootfs src dst st = on_world (on_disk (clone_rootfs src dst)) st"

definition rootfs_path_for :: "string \<Rightarrow> string" where
  "rootfs_path_for i = path_join temp_dir (''sandkiln-rootfs-'' @ i @ ''.ext4'')"

definition app_uuid :: "app \<Rightarrow> string \<times> app" where
  "app_uuid st = on_world new_uuid st"

definition app_now :: "app \<Rightarrow> int" where
  "app_now st = system_now (wld st)"

definition app_stop :: "vm \<Rightarrow> app \<Rightarrow> app" where
  "app_stop v st = snd (on_world (vm_stop v) st)"

text \<open>A history statement that fails is only logged.\<close>

definition app_record_ended :: "string \<Rightarrow> end_reason \<Rightarrow> string option \<Rightarrow> app \<Rightarrow> app" where
  "app_record_ended i reason snap st = st\<lparr>history := snd (record_ended (history st) i (app_now st) reason snap)\<rparr>"

definition drop_sandbox :: "string \<Rightarrow> app \<Rightarrow> app" where
  "drop_sandbox i st = st\<lparr>sandboxes := hm_remove i (sandboxes st)\<rparr>"

definition put_sandbox :: "string \<Rightarrow> sandbox \<Rightarrow> app \<Rightarrow> app" where
  "put_sandbox i s st = st\<lparr>sandboxes := hm_insert i s (sandboxes st)\<rparr>"

definition drop_snapshot :: "string \<Rightarrow> app \<Rightarrow> app" where
  "drop_snapshot i st = st\<lparr>snapshots := hm_remove i (snapshots st)\<rparr>"

definition put_snapshot :: "string \<Rightarrow> snapshot \<Rightarrow> app \<Rightarrow> app" where
  "put_snapshot i s st = st\<lparr>snapshots := hm_insert i s (snapshots st)\<rparr>"

definition set_fork :: "string \<Rightarrow> string option \<Rightarrow> app \<Rightarrow> app" where
  "set_fork i f st = st\<lparr>snapshots := hm_modify i (\<lambda>s. s\<lparr>forked_into := f\<rparr>) (snapshots st)\<rparr>"

definition put_retired :: "retired_snapshot \<Rightarrow> app \<Rightarrow> app" where
  "put_retired r st = st\<lparr>retired_snapshots := hm_insert (rt_id r) r (retired_snapshots st)\<rparr>"

text \<open>After a resume, fork or restore the policy is applied again; a failure is only logged.\<close>

definition reapply_egress :: "lease \<Rightarrow> egress_policy option \<Rightarrow> app \<Rightarrow> app" where
  "reapply_egress l eg st = (case eg of None \<Rightarrow> st | Some p \<Rightarrow> snd (app_apply_egress l p st))"

section \<open>Snapshot and stop\<close>

datatype snapshot_blocked = Jailed | ForkedFrom string

definition check_snapshottable :: "bool \<Rightarrow> string option \<Rightarrow> (snapshot_blocked, unit) result" where
  "check_snapshottable jailed source =
     (if jailed then Inl Jailed else case source of Some src \<Rightarrow> Inl (ForkedFrom src) | None \<Rightarrow> Inr ())"

datatype snapshot_stop_error = SnapNotFound | SnapBlocked snapshot_blocked | SnapIo io_error | SnapPanic message

definition app_error_of_stop :: "snapshot_stop_error \<Rightarrow> app_error" where
  "app_error_of_stop e =
     (case e of
        SnapNotFound \<Rightarrow> SandboxNotFound ''''
      | SnapBlocked Jailed \<Rightarrow> BadRequest (Msg ''snapshotting a jailed sandbox is not supported yet'' [])
      | SnapBlocked (ForkedFrom src) \<Rightarrow> Conflict (Msg ''this sandbox was forked from snapshot {source}'' [src, src])
      | SnapIo err \<Rightarrow> Internal err
      | SnapPanic m \<Rightarrow> Internal (IoError OtherKind m))"

text \<open>The blocking task: whatever pause and snapshot do, the process is stopped after them.\<close>

definition snapshot_task :: "vm \<Rightarrow> string \<Rightarrow> string \<Rightarrow> string \<Rightarrow> app \<Rightarrow> (io_error, unit) result \<times> app" where
  "snapshot_task v dir snapshot_path mem_file_path st =
     (case on_world (on_fs (create_dir_all dir)) st of
        (Inl e, st1) \<Rightarrow> (Inl e, st1)
      | (Inr _, st1) \<Rightarrow>
     (case on_world (vm_pause v) st1 of
        (Inl e, st2) \<Rightarrow> (Inl e, app_stop v st2)
      | (Inr _, st2) \<Rightarrow>
     (case on_world (vm_snapshot v mem_file_path snapshot_path) st2 of
        (r, st3) \<Rightarrow> (r, app_stop v st3))))"

definition snapshot_of_sandbox :: "sandbox \<Rightarrow> lease \<Rightarrow> string \<Rightarrow> string \<Rightarrow> int \<Rightarrow> snapshot" where
  "snapshot_of_sandbox s l snapshot_id source now =
     \<lparr>sn_id = snapshot_id, sn_source_sandbox_id = source, sn_snapshot_path = state_path (snapshot_dir snapshot_id),
      sn_mem_file_path = mem_path (snapshot_dir snapshot_id), sn_rootfs_path = sb_rootfs_path s, sn_network = l,
      sn_attached_drives = sb_attached_drives s, sn_image_id = sb_image_id s, sn_tags = sb_tags s,
      sn_created_at = now, sn_name = sb_name s, forked_into = None, archived_at = None, sn_egress = sb_egress s,
      sn_parent_snapshot_id = sb_parent_snapshot_id s, sn_mounts = sb_mounts s, sn_env = sb_env s\<rparr>"

definition snapshot_and_stop :: "string \<Rightarrow> app \<Rightarrow> (snapshot_stop_error, string) result \<times> app" where
  "snapshot_and_stop i st =
     (case hm_get i (sandboxes st) of None \<Rightarrow> (Inl SnapNotFound, st) | Some s \<Rightarrow>
     (case check_snapshottable (is_jailed (sb_vm s)) (source_snapshot_id s) of
        Inl b \<Rightarrow> (Inl (SnapBlocked b), st)
      | Inr _ \<Rightarrow>
     (let st1 = release_pool_slot (source_pool_id s) (drop_sandbox i st) in
      case sb_network s of
        None \<Rightarrow> (Inl (SnapPanic (Msg ''non-fork sandboxes always hold a network lease'' [])), st1)
      | Some l \<Rightarrow>
     (let (snapshot_id, st2) = app_uuid st1; dir = snapshot_dir snapshot_id in
      case snapshot_task (sb_vm s) dir (state_path dir) (mem_path dir) st2 of
        (Inl e, st3) \<Rightarrow>
          (Inl (SnapIo e),
           app_remove_file (sb_rootfs_path s) (app_release l (app_remove_egress l (app_remove_dir_all dir st3))))
      | (Inr _, st3) \<Rightarrow>
     (let snap = snapshot_of_sandbox s l snapshot_id i (app_now st3) in
      case on_world (on_fs (snapshot_persist (app_codec st3) snap dir)) st3 of
        (Inl e, st4) \<Rightarrow>
          (Inl (SnapIo e), app_remove_file (sb_rootfs_path s) (app_release l (app_remove_dir_all dir st4)))
      | (Inr _, st4) \<Rightarrow>
          (Inr snapshot_id, app_record_ended i Snapshotted (Some snapshot_id) (put_snapshot snapshot_id snap st4)))))))"

definition snapshot_sandbox :: "string \<Rightarrow> app \<Rightarrow> (app_error, json) result \<times> app" where
  "snapshot_sandbox i st =
     (case snapshot_and_stop i st of
        (Inl SnapNotFound, st1) \<Rightarrow> (Inl (SandboxNotFound i), st1)
      | (Inl e, st1) \<Rightarrow> (Inl (app_error_of_stop e), st1)
      | (Inr sid, st1) \<Rightarrow> (Inr (JObj [(''snapshot_id'', JStr sid)]), st1))"

section \<open>Stop and destroy\<close>

datatype stop_outcome = StopSnapshotted string | StopDestroyed

datatype stop_error = StopNotFound | CannotPreserve snapshot_blocked | StopIo io_error

definition cannot_preserve_error :: "snapshot_blocked \<Rightarrow> app_error" where
  "cannot_preserve_error r =
     (case r of
        Jailed \<Rightarrow> Conflict (Msg ''this sandbox is jailed'' [])
      | ForkedFrom src \<Rightarrow> Conflict (Msg ''this sandbox was forked from snapshot {source} and cannot be independently snapshotted'' [src]))"

definition parse_flag :: "string \<Rightarrow> string \<Rightarrow> string hash_map \<Rightarrow> (message, bool) result" where
  "parse_flag key err params =
     (case hm_get key params of
        None \<Rightarrow> Inr True
      | Some v \<Rightarrow> if v = ''true'' then Inr True else if v = ''false'' then Inr False else Inl (Msg err [v]))"

definition parse_keep :: "string hash_map \<Rightarrow> (message, bool) result" where
  "parse_keep params = parse_flag ''keep'' ''invalid 'keep' query parameter'' params"

definition destroy_sandbox_by_id :: "string \<Rightarrow> app \<Rightarrow> (stop_error, stop_outcome) result \<times> app" where
  "destroy_sandbox_by_id i st =
     (case hm_get i (sandboxes st) of None \<Rightarrow> (Inl StopNotFound, st) | Some s \<Rightarrow>
     (let st1 = release_pool_slot (source_pool_id s) (drop_sandbox i st);
          st2 = app_stop (sb_vm s) st1;
          st3 = (case sb_network s of None \<Rightarrow> st2 | Some l \<Rightarrow> app_release l (app_remove_egress l st2));
          st4 = release_jail_id (sb_jail_id s) (app_remove_file (sb_rootfs_path s) st3);
          st5 = (case source_snapshot_id s of None \<Rightarrow> st4 | Some sid \<Rightarrow> set_fork sid None st4)
      in (Inr StopDestroyed, app_record_ended i Destroyed None st5)))"

definition stop_sandbox_by_id :: "string \<Rightarrow> bool \<Rightarrow> app \<Rightarrow> (stop_error, stop_outcome) result \<times> app" where
  "stop_sandbox_by_id i keep st =
     (if keep then
        case snapshot_and_stop i st of
          (Inr sid, st1) \<Rightarrow> (Inr (StopSnapshotted sid), st1)
        | (Inl SnapNotFound, st1) \<Rightarrow> (Inl StopNotFound, st1)
        | (Inl (SnapIo e), st1) \<Rightarrow> (Inl (StopIo e), st1)
        | (Inl (SnapPanic m), st1) \<Rightarrow> (Inl (StopIo (IoError OtherKind m)), st1)
        | (Inl (SnapBlocked (ForkedFrom _)), st1) \<Rightarrow> destroy_sandbox_by_id i st1
        | (Inl (SnapBlocked Jailed), st1) \<Rightarrow> (Inl (CannotPreserve Jailed), st1)
      else destroy_sandbox_by_id i st)"

datatype http_ok = NoContent | OkJson json

definition stop_sandbox :: "string \<Rightarrow> string hash_map \<Rightarrow> app \<Rightarrow> (app_error, http_ok) result \<times> app" where
  "stop_sandbox i params st =
     (case parse_keep params of Inl m \<Rightarrow> (Inl (BadRequest m), st) | Inr keep \<Rightarrow>
     (case stop_sandbox_by_id i keep st of
        (Inl StopNotFound, st1) \<Rightarrow> (Inl (SandboxNotFound i), st1)
      | (Inl (CannotPreserve r), st1) \<Rightarrow> (Inl (cannot_preserve_error r), st1)
      | (Inl (StopIo e), st1) \<Rightarrow> (Inl (Internal e), st1)
      | (Inr out, st1) \<Rightarrow>
          (Inr (if \<not> keep then NoContent
                else case out of
                  StopSnapshotted sid \<Rightarrow> OkJson (JObj [(''kept'', JBool True), (''snapshot_id'', JStr sid)])
                | StopDestroyed \<Rightarrow> OkJson (JObj [(''kept'', JBool False), (''snapshot_id'', JNull)])), st1)))"

section \<open>Resume\<close>

definition app_resume_vm :: "string \<Rightarrow> string \<Rightarrow> app \<Rightarrow> (io_error, vm) result \<times> app" where
  "app_resume_vm snapshot_path mem_file_path st =
     on_world (vm_resume \<lparr>rc_firecracker_bin = cf_firecracker_bin (app_config st), rc_snapshot_path = snapshot_path,
                           rc_mem_file_path = mem_file_path\<rparr>) st"

definition check_no_live_fork :: "string option \<Rightarrow> string \<Rightarrow> string \<Rightarrow> (app_error, unit) result" where
  "check_no_live_fork forked snapshot_id action =
     (case forked of
        Some holder \<Rightarrow> Inl (Conflict (Msg ''snapshot {} has a live fork'' [snapshot_id, holder, action]))
      | None \<Rightarrow> Inr ())"

definition cleanup_old_snapshot_dir :: "string option \<Rightarrow> app \<Rightarrow> app" where
  "cleanup_old_snapshot_dir d st = (case d of None \<Rightarrow> st | Some dir \<Rightarrow> app_remove_dir_all dir st)"

definition retired_of_snapshot :: "snapshot \<Rightarrow> string \<Rightarrow> int \<Rightarrow> retired_snapshot" where
  "retired_of_snapshot s dest now =
     \<lparr>rt_id = sn_id s, rt_source_sandbox_id = sn_source_sandbox_id s, rt_snapshot_path = state_path dest,
      rt_mem_file_path = mem_path dest, rt_rootfs_path = sn_rootfs_path s, rt_network = lease_config (sn_network s),
      rt_host_octet = host_octet (sn_network s), rt_attached_drives = sn_attached_drives s, rt_image_id = sn_image_id s,
      rt_tags = sn_tags s, rt_created_at = sn_created_at s, retired_at = now, rt_name = sn_name s,
      rt_parent_snapshot_id = sn_parent_snapshot_id s, rt_egress = sn_egress s, rt_mounts = sn_mounts s, rt_env = sn_env s\<rparr>"

definition retire_snapshot_files :: "string \<Rightarrow> snapshot \<Rightarrow> string option \<Rightarrow> app \<Rightarrow>
    (io_error, string \<times> retired_snapshot) result \<times> app" where
  "retire_snapshot_files new_id s old_dir st =
     (let new_rootfs = rootfs_path_for new_id in
      case app_clone_rootfs (sn_rootfs_path s) new_rootfs st of
        (Inl e, st1) \<Rightarrow> (Inl e, st1)
      | (Inr _, st1) \<Rightarrow>
     (let dest = retired_dir (sn_id s) in
      case on_world (on_fs (create_dir_all dest)) st1 of
        (Inl e, st2) \<Rightarrow> (Inl e, app_remove_file new_rootfs st2)
      | (Inr _, st2) \<Rightarrow>
     (case on_world (on_fs (move_file (sn_snapshot_path s) (state_path dest))) st2 of
        (Inl e, st3) \<Rightarrow>
          (Inl e, app_remove_dir_all dest (app_remove_file (state_path dest) (app_remove_file new_rootfs st3)))
      | (Inr _, st3) \<Rightarrow>
     (case on_world (on_fs (move_file (sn_mem_file_path s) (mem_path dest))) st3 of
        (Inl e, st4) \<Rightarrow> (Inl e, app_remove_file new_rootfs st4)
      | (Inr _, st4) \<Rightarrow>
     (let r = retired_of_snapshot s dest (app_now st4);
          st5 = snd (on_world (on_fs (retired_persist (app_codec st4) r dest)) st4)
      in (Inr (new_rootfs, r), cleanup_old_snapshot_dir old_dir st5))))))"

definition resumed_sandbox :: "string \<Rightarrow> vm \<Rightarrow> string \<Rightarrow> string \<Rightarrow> snapshot \<Rightarrow> int \<Rightarrow> nat \<Rightarrow> sandbox" where
  "resumed_sandbox new_id v rootfs sid s now instant =
     \<lparr>sb_id = new_id, sb_vm = v, sb_network = Some (sn_network s), sb_rootfs_path = rootfs,
      sb_attached_drives = sn_attached_drives s, sb_image_id = sn_image_id s, sb_jail_id = None, sb_tags = sn_tags s,
      sb_created_at = now, last_activity = instant, source_snapshot_id = None, sb_name = sn_name s,
      pty_session_count = 0, source_pool_id = None, sb_egress = sn_egress s, sb_env = sn_env s,
      sb_parent_snapshot_id = Some sid, sb_mounts = sn_mounts s, log_sessions = []\<rparr>"

text \<open>What is decided about the checkpoint's data once the process runs: the rootfs of the new sandbox.\<close>

definition settle_checkpoint :: "bool \<Rightarrow> string \<Rightarrow> snapshot \<Rightarrow> string option \<Rightarrow> app \<Rightarrow> string \<times> app" where
  "settle_checkpoint retain_history new_id s old_dir st =
     (if retain_history then
        case retire_snapshot_files new_id s old_dir st of
          (Inr (new_rootfs, r), st1) \<Rightarrow> (new_rootfs, put_retired r st1)
        | (Inl _, st1) \<Rightarrow> (sn_rootfs_path s, cleanup_old_snapshot_dir old_dir st1)
      else (sn_rootfs_path s, cleanup_old_snapshot_dir old_dir st))"

definition resume_snapshot_by_id :: "string \<Rightarrow> bool \<Rightarrow> app \<Rightarrow> (app_error, string) result \<times> app" where
  "resume_snapshot_by_id sid retain_history st =
     (case hm_get sid (snapshots st) of None \<Rightarrow> (Inl (SandboxNotFound sid), st) | Some s \<Rightarrow>
     (case check_no_live_fork (forked_into s) sid ''resuming'' of Inl e \<Rightarrow> (Inl e, st) | Inr _ \<Rightarrow>
     (let (new_id, st1) = app_uuid (drop_snapshot sid st); old_dir = parent_path (sn_snapshot_path s) in
      case app_resume_vm (sn_snapshot_path s) (sn_mem_file_path s) st1 of
        (Inl e, st2) \<Rightarrow> (Inl (Internal e), put_snapshot sid s st2)
      | (Inr v, st2) \<Rightarrow>
     (case settle_checkpoint retain_history new_id s old_dir st2 of
        (rootfs, st3) \<Rightarrow>
          (Inr new_id,
           reapply_egress (sn_network s) (sn_egress s)
             (put_sandbox new_id (resumed_sandbox new_id v rootfs sid s (app_now st3) (w_now (wld st3))) st3))))))"

definition parse_retain_history :: "string hash_map \<Rightarrow> (message, bool) result" where
  "parse_retain_history params = parse_flag ''retain_history'' ''invalid 'retain_history' query parameter'' params"

definition resume_snapshot :: "string \<Rightarrow> string hash_map \<Rightarrow> app \<Rightarrow> (app_error, json) result \<times> app" where
  "resume_snapshot sid params st =
     (case parse_retain_history params of Inl m \<Rightarrow> (Inl (BadRequest m), st) | Inr retain \<Rightarrow>
     (case resume_snapshot_by_id sid retain st of
        (Inl e, st1) \<Rightarrow> (Inl e, st1)
      | (Inr i, st1) \<Rightarrow> (Inr (JObj [(''id'', JStr i)]), st1)))"

section \<open>Fork\<close>

definition forked_sandbox :: "string \<Rightarrow> vm \<Rightarrow> string \<Rightarrow> string \<Rightarrow> snapshot \<Rightarrow> int \<Rightarrow> nat \<Rightarrow> sandbox" where
  "forked_sandbox new_id v rootfs sid s now instant =
     \<lparr>sb_id = new_id, sb_vm = v, sb_network = None, sb_rootfs_path = rootfs,
      sb_attached_drives = sn_attached_drives s, sb_image_id = sn_image_id s, sb_jail_id = None, sb_tags = sn_tags s,
      sb_created_at = now, last_activity = instant, source_snapshot_id = Some sid, sb_name = sn_name s,
      pty_session_count = 0, source_pool_id = None, sb_egress = None, sb_env = sn_env s,
      sb_parent_snapshot_id = Some sid, sb_mounts = sn_mounts s, log_sessions = []\<rparr>"

definition fork_snapshot :: "string \<Rightarrow> app \<Rightarrow> (app_error, string) result \<times> app" where
  "fork_snapshot sid st =
     (let (new_id, st0) = app_uuid st in
      case hm_get sid (snapshots st0) of None \<Rightarrow> (Inl (SandboxNotFound sid), st0) | Some s \<Rightarrow>
     (case check_no_live_fork (forked_into s) sid ''forking'' of Inl e \<Rightarrow> (Inl e, st0) | Inr _ \<Rightarrow>
     (let st1 = set_fork sid (Some new_id) st0 in
      case app_resume_vm (sn_snapshot_path s) (sn_mem_file_path s) st1 of
        (Inl e, st2) \<Rightarrow> (Inl (Internal e), set_fork sid None st2)
      | (Inr v, st2) \<Rightarrow>
     (let new_rootfs = rootfs_path_for new_id in
      case app_clone_rootfs (sn_rootfs_path s) new_rootfs st2 of
        (Inl e, st3) \<Rightarrow> (Inl (Internal e), set_fork sid None (app_stop v st3))
      | (Inr _, st3) \<Rightarrow>
     (case hm_get sid (snapshots st3) of
        None \<Rightarrow> (Inl (Internal (io_other ''reserved by this call above'' [])), st3)
      | Some s3 \<Rightarrow>
          (Inr new_id,
           reapply_egress (sn_network s3) (sn_egress s3)
             (put_sandbox new_id (forked_sandbox new_id v new_rootfs sid s3 (app_now st3) (w_now (wld st3))) st3)))))))"

section \<open>Delete and archive\<close>

definition delete_snapshot_by_id :: "string \<Rightarrow> app \<Rightarrow> (app_error, unit) result \<times> app" where
  "delete_snapshot_by_id sid st =
     (case hm_get sid (snapshots st) of None \<Rightarrow> (Inl (SandboxNotFound sid), st) | Some s \<Rightarrow>
     (case check_no_live_fork (forked_into s) sid ''deleting'' of Inl e \<Rightarrow> (Inl e, st) | Inr _ \<Rightarrow>
     (let st1 = app_release (sn_network s) (app_remove_egress (sn_network s) (drop_snapshot sid st))
      in (Inr (), cleanup_old_snapshot_dir (parent_path (sn_snapshot_path s)) (app_remove_file (sn_rootfs_path s) st1)))))"

definition delete_snapshot :: "string \<Rightarrow> app \<Rightarrow> (app_error, http_ok) result \<times> app" where
  "delete_snapshot sid st =
     (case delete_snapshot_by_id sid st of (Inl e, st1) \<Rightarrow> (Inl e, st1) | (Inr _, st1) \<Rightarrow> (Inr NoContent, st1))"

datatype archive_error = ArchiveNotFound | ArchiveForked | ArchiveIo io_error

definition archive_task :: "snapshot \<Rightarrow> string \<Rightarrow> string option \<Rightarrow> app \<Rightarrow> (io_error, unit) result \<times> snapshot \<times> app" where
  "archive_task s dest old_dir st =
     (case on_world (on_fs (\<lambda>f. case move_snapshot_files s dest f of (r, s1, f1) \<Rightarrow> ((r, s1), f1))) st of
        ((r, s1), st1) \<Rightarrow>
     (case r of
        Inl e \<Rightarrow> (Inl e, s1, st1)
      | Inr _ \<Rightarrow>
     (let s2 = s1\<lparr>archived_at := Some (app_now st1)\<rparr> in
      case on_world (on_fs (snapshot_persist (app_codec st1) s2 dest)) st1 of
        (Inl e, st2) \<Rightarrow> (Inl e, s2, st2)
      | (Inr _, st2) \<Rightarrow> (Inr (), s2, cleanup_old_snapshot_dir old_dir st2))))"

definition archive_snapshot_by_id :: "string \<Rightarrow> string \<Rightarrow> app \<Rightarrow> (archive_error, unit) result \<times> app" where
  "archive_snapshot_by_id sid archive_root st =
     (case hm_get sid (snapshots st) of None \<Rightarrow> (Inl ArchiveNotFound, st) | Some s \<Rightarrow>
     (if forked_into s \<noteq> None then (Inl ArchiveForked, st)
      else case archive_task s (archive_snapshot_dir archive_root sid) (parent_path (sn_snapshot_path s)) (drop_snapshot sid st) of
        (Inl e, s1, st1) \<Rightarrow> (Inl (ArchiveIo e), put_snapshot sid s1 st1)
      | (Inr _, s1, st1) \<Rightarrow> (Inr (), put_snapshot sid s1 st1)))"

section \<open>Restore and delete retired checkpoints\<close>

definition restored_sandbox :: "string \<Rightarrow> vm \<Rightarrow> lease \<Rightarrow> string \<Rightarrow> retired_snapshot \<Rightarrow> int \<Rightarrow> nat \<Rightarrow> sandbox" where
  "restored_sandbox new_id v l rootfs r now instant =
     \<lparr>sb_id = new_id, sb_vm = v, sb_network = Some l, sb_rootfs_path = rootfs,
      sb_attached_drives = rt_attached_drives r, sb_image_id = rt_image_id r, sb_jail_id = None, sb_tags = rt_tags r,
      sb_created_at = now, last_activity = instant, source_snapshot_id = None, sb_name = rt_name r,
      pty_session_count = 0, source_pool_id = None, sb_egress = rt_egress r, sb_env = rt_env r,
      sb_parent_snapshot_id = Some (rt_id r), sb_mounts = rt_mounts r, log_sessions = []\<rparr>"

text \<open>The body of the restore, between the reservation of the tap device and its release.\<close>

definition restore_reserved :: "retired_snapshot \<Rightarrow> app \<Rightarrow> (app_error, string) result \<times> app" where
  "restore_reserved r st =
     (case (case rt_name r of None \<Rightarrow> None | Some n \<Rightarrow> map_option (Pair n) (name_holder n st)) of
        Some (n, holder) \<Rightarrow> (Inl (Conflict (Msg ''checkpoint {}'s name {} is currently claimed by {}'' [rt_id r, n, holder])), st)
      | None \<Rightarrow>
     (let (new_id, st1) = app_uuid st; new_rootfs = rootfs_path_for new_id in
      case app_clone_rootfs (rt_rootfs_path r) new_rootfs st1 of
        (Inl e, st2) \<Rightarrow> (Inl (Internal e), st2)
      | (Inr _, st2) \<Rightarrow>
     (case app_resume_vm (rt_snapshot_path r) (rt_mem_file_path r) st2 of
        (Inl e, st3) \<Rightarrow> (Inl (Internal e), app_remove_file new_rootfs st3)
      | (Inr v, st3) \<Rightarrow>
     (case reserve (network st3) (rt_network r) (rt_host_octet r) of
        ((l, _), net) \<Rightarrow>
     (let st4 = st3\<lparr>network := net\<rparr> in
      (Inr new_id,
       reapply_egress l (rt_egress r)
         (put_sandbox new_id (restored_sandbox new_id v l new_rootfs r (app_now st4) (w_now (wld st4))) st4)))))))"

definition restore_snapshot_history_by_id :: "string \<Rightarrow> app \<Rightarrow> (app_error, string) result \<times> app" where
  "restore_snapshot_history_by_id i st =
     (case hm_get i (retired_snapshots st) of None \<Rightarrow> (Inl (SandboxNotFound i), st) | Some r \<Rightarrow>
     (let tap = tap_device (rt_network r) in
      case tap_device_holder tap st of
        Some holder \<Rightarrow> (Inl (Conflict (Msg ''checkpoint {}'s network identity is currently in use by {}'' [i, holder])), st)
      | None \<Rightarrow>
     (case try_reserve_pending_tap_restore tap st of
        (False, st1) \<Rightarrow> (Inl (Conflict (Msg ''another restore is already in progress for checkpoint {}'' [i])), st1)
      | (True, st1) \<Rightarrow>
          (case restore_reserved r st1 of (res, st2) \<Rightarrow> (res, release_pending_tap_restore tap st2)))))"

definition restore_snapshot_history :: "string \<Rightarrow> app \<Rightarrow> (app_error, json) result \<times> app" where
  "restore_snapshot_history i st =
     (case restore_snapshot_history_by_id i st of
        (Inl e, st1) \<Rightarrow> (Inl e, st1) | (Inr j, st1) \<Rightarrow> (Inr (JObj [(''id'', JStr j)]), st1))"

definition delete_snapshot_history :: "string \<Rightarrow> app \<Rightarrow> (app_error, http_ok) result \<times> app" where
  "delete_snapshot_history i st =
     (case hm_get i (retired_snapshots st) of None \<Rightarrow> (Inl (SandboxNotFound i), st) | Some r \<Rightarrow>
     (let st1 = app_remove_file (rt_rootfs_path r) (st\<lparr>retired_snapshots := hm_remove i (retired_snapshots st)\<rparr>)
      in (Inr NoContent, cleanup_old_snapshot_dir (parent_path (rt_snapshot_path r)) st1)))"

section \<open>Listings\<close>

definition query_matches :: "string \<Rightarrow> string option \<Rightarrow> string hash_map \<Rightarrow> bool" where
  "query_matches key v query = (case hm_get key query of None \<Rightarrow> True | Some wanted \<Rightarrow> v = Some wanted)"

definition snapshot_summary :: "snapshot \<Rightarrow> json" where
  "snapshot_summary s =
     JObj [(''id'', JStr (sn_id s)), (''source_sandbox_id'', JStr (sn_source_sandbox_id s)),
           (''created_at_unix'', jword (epoch_secs (sn_created_at s))), (''tags'', jmap (sn_tags s)),
           (''forked_into'', opt_json JStr (forked_into s)), (''name'', opt_json JStr (sn_name s)),
           (''archived_at_unix'', opt_json jword (map_option epoch_secs (archived_at s))),
           (''parent_snapshot_id'', opt_json JStr (sn_parent_snapshot_id s))]"

definition list_snapshots :: "string hash_map \<Rightarrow> app \<Rightarrow> json" where
  "list_snapshots query st =
     JObj [(''snapshots'', JArr (map snapshot_summary
       (filter (\<lambda>s. query_matches ''parent_snapshot_id'' (sn_parent_snapshot_id s) query)
         (filter (\<lambda>s. query_matches ''source_sandbox_id'' (Some (sn_source_sandbox_id s)) query)
           (hm_values (snapshots st))))))]"

definition retired_summary :: "retired_snapshot \<Rightarrow> json" where
  "retired_summary r =
     JObj [(''id'', JStr (rt_id r)), (''source_sandbox_id'', JStr (rt_source_sandbox_id r)),
           (''created_at_unix'', jword (epoch_secs (rt_created_at r))),
           (''retired_at_unix'', jword (epoch_secs (retired_at r))), (''tags'', jmap (rt_tags r)),
           (''name'', opt_json JStr (rt_name r)), (''parent_snapshot_id'', opt_json JStr (rt_parent_snapshot_id r))]"

definition list_snapshot_history :: "string hash_map \<Rightarrow> app \<Rightarrow> json" where
  "list_snapshot_history query st =
     JObj [(''checkpoints'', JArr (map retired_summary
       (filter (\<lambda>r. query_matches ''parent_snapshot_id'' (rt_parent_snapshot_id r) query)
         (filter (\<lambda>r. query_matches ''source_sandbox_id'' (Some (rt_source_sandbox_id r)) query)
           (hm_values (retired_snapshots st))))))]"

end
