(* ===== verification/Creation.thy ===== *)
theory Creation
  imports Lifecycle
begin

text \<open>
  How a sandbox comes into being: the request and its validation, a cold boot, a claim on a
  pre-warmed pool, the replenisher that fills the pools, and the routes that go through a name
  (\<^verbatim>\<open>routes_sandbox.rs\<close>, \<^verbatim>\<open>pool_claim.rs\<close>, \<^verbatim>\<open>pool_replenisher.rs\<close>,
  \<^verbatim>\<open>routes_sandbox_name.rs\<close>). The rootfs copy and the network lease, two threads in the code,
  touch disjoint state and run one after the other here. With no other request in between, a
  request that must queue on a full pool waits out its timeout.
\<close>

section \<open>Requests\<close>

record rate_limit_request =
  bandwidth_bytes_per_sec :: "u64 option"
  ops_per_sec :: "u64 option"

datatype egress_mode_request = ReqAllowAll | ReqDenyAll

record egress_policy_request =
  er_mode :: egress_mode_request
  er_allow_cidrs :: "string list"
  er_deny_cidrs :: "string list"

record drive_attachment =
  da_id :: string
  da_read_only :: bool

record create_request =
  cr_name :: "string option"
  cr_tags :: tags
  cr_drives :: "drive_attachment list"
  cr_vcpu_count :: "u8 option"
  cr_mem_size_mib :: "u32 option"
  cr_image_id :: "string option"
  cr_rate_limit :: "rate_limit_request option"
  cr_egress :: "egress_policy_request option"
  cr_env :: env_vars

definition default_request :: create_request where
  "default_request =
     \<lparr>cr_name = None, cr_tags = [], cr_drives = [], cr_vcpu_count = None, cr_mem_size_mib = None,
      cr_image_id = None, cr_rate_limit = None, cr_egress = None, cr_env = []\<rparr>"

definition drive_attachment_of_json :: "json \<Rightarrow> drive_attachment option" where
  "drive_attachment_of_json j = do {
     kvs \<leftarrow> jobj j; i \<leftarrow> jreq ''id'' jstr kvs; ro \<leftarrow> jdef ''read_only'' False jbool kvs;
     Some \<lparr>da_id = i, da_read_only = ro\<rparr> }"

definition rate_limit_of_json :: "json \<Rightarrow> rate_limit_request option" where
  "rate_limit_of_json j = do {
     kvs \<leftarrow> jobj j; b \<leftarrow> joptional ''bandwidth_bytes_per_sec'' unjword kvs; p \<leftarrow> joptional ''ops_per_sec'' unjword kvs;
     Some \<lparr>bandwidth_bytes_per_sec = b, ops_per_sec = p\<rparr> }"

definition egress_mode_request_of_json :: "json \<Rightarrow> egress_mode_request option" where
  "egress_mode_request_of_json j =
     (case jstr j of
        Some s \<Rightarrow> if s = ''allow_all'' then Some ReqAllowAll else if s = ''deny_all'' then Some ReqDenyAll else None
      | None \<Rightarrow> None)"

definition egress_request_of_json :: "json \<Rightarrow> egress_policy_request option" where
  "egress_request_of_json j = do {
     kvs \<leftarrow> jobj j; m \<leftarrow> jreq ''mode'' egress_mode_request_of_json kvs;
     a \<leftarrow> jdef ''allow_cidrs'' [] (jlist jstr) kvs; d \<leftarrow> jdef ''deny_cidrs'' [] (jlist jstr) kvs;
     Some \<lparr>er_mode = m, er_allow_cidrs = a, er_deny_cidrs = d\<rparr> }"

definition create_request_of_json :: "json \<Rightarrow> create_request option" where
  "create_request_of_json j = do {
     kvs \<leftarrow> jobj j; n \<leftarrow> joptional ''name'' jstr kvs; tg \<leftarrow> jdef ''tags'' [] unjmap kvs;
     ds \<leftarrow> jdef ''drives'' [] (jlist drive_attachment_of_json) kvs; v \<leftarrow> joptional ''vcpu_count'' unjword kvs;
     m \<leftarrow> joptional ''mem_size_mib'' unjword kvs; img \<leftarrow> joptional ''image_id'' jstr kvs;
     rl \<leftarrow> joptional ''rate_limit'' rate_limit_of_json kvs; eg \<leftarrow> joptional ''egress'' egress_request_of_json kvs;
     env \<leftarrow> jdef ''env'' [] unjmap kvs;
     Some \<lparr>cr_name = n, cr_tags = tg, cr_drives = ds, cr_vcpu_count = v, cr_mem_size_mib = m, cr_image_id = img,
       cr_rate_limit = rl, cr_egress = eg, cr_env = env\<rparr> }"

section \<open>Validation\<close>

definition resolve_resource_override :: "'a::len word option \<Rightarrow> 'a word \<Rightarrow> 'a word \<Rightarrow> string \<Rightarrow> (message, 'a word) result" where
  "resolve_resource_override requested dflt maximum field =
     (case requested of
        None \<Rightarrow> Inr dflt
      | Some v \<Rightarrow>
          if v = 0 then Inl (Msg ''{} must be greater than 0'' [field])
          else if maximum < v
          then Inl (Msg ''{} {} exceeds the configured maximum of {}'' [field, show_nat (unat v), show_nat (unat maximum)])
          else Inr v)"

definition to_bucket :: "string \<Rightarrow> u64 option \<Rightarrow> (message, token_bucket option) result" where
  "to_bucket field v =
     (case v of
        None \<Rightarrow> Inr None
      | Some n \<Rightarrow>
          if n = 0 then Inl (Msg ''rate_limit.{} must be greater than 0'' [field])
          else Inr (Some \<lparr>tb_size = n, one_time_burst = None, refill_time = 1000\<rparr>))"

definition resolve_rate_limit :: "rate_limit_request option \<Rightarrow> (message, rate_limiter option) result" where
  "resolve_rate_limit requested =
     (case requested of None \<Rightarrow> Inr None | Some req \<Rightarrow>
     (if bandwidth_bytes_per_sec req = None \<and> ops_per_sec req = None
      then Inl (Msg ''rate_limit must set at least one of bandwidth_bytes_per_sec/ops_per_sec'' [])
      else and_then (to_bucket ''bandwidth_bytes_per_sec'' (bandwidth_bytes_per_sec req)) (\<lambda>b.
           and_then (to_bucket ''ops_per_sec'' (ops_per_sec req)) (\<lambda>p.
             Inr (Some \<lparr>bandwidth = b, rl_ops = p\<rparr>)))))"

fun validate_cidrs :: "string list \<Rightarrow> (message, unit) result" where
  "validate_cidrs [] = Inr ()"
| "validate_cidrs (c # cs) = and_then (validate_cidr c) (\<lambda>_. validate_cidrs cs)"

definition resolve_egress_policy :: "egress_policy_request option \<Rightarrow> (message, egress_policy option) result" where
  "resolve_egress_policy requested =
     (case requested of None \<Rightarrow> Inr None | Some req \<Rightarrow>
        and_then (validate_cidrs (er_allow_cidrs req @ er_deny_cidrs req)) (\<lambda>_.
          Inr (Some \<lparr>eg_mode = (case er_mode req of ReqAllowAll \<Rightarrow> AllowAll | ReqDenyAll \<Rightarrow> DenyAll),
                     allow_cidrs = er_allow_cidrs req, deny_cidrs = er_deny_cidrs req\<rparr>)))"

fun first_duplicate_go :: "string list \<Rightarrow> string list \<Rightarrow> string option" where
  "first_duplicate_go seen [] = None"
| "first_duplicate_go seen (x # xs) = (if x \<in> set seen then Some x else first_duplicate_go (x # seen) xs)"

definition first_duplicate :: "string list \<Rightarrow> string option" where
  "first_duplicate xs = first_duplicate_go [] xs"

definition validate_name :: "string \<Rightarrow> (message, unit) result" where
  "validate_name n =
     (if n \<noteq> [] \<and> length n \<le> 64 \<and> list_all (\<lambda>c. is_ascii_alphanumeric c \<or> c = CHR ''-'' \<or> c = CHR ''_'') n
      then Inr () else Inl (Msg ''invalid name'' [n]))"

section \<open>Cold boot\<close>

definition drive_config_of :: "drive_store \<Rightarrow> drive_attachment \<Rightarrow> drive_config" where
  "drive_config_of ds d =
     \<lparr>dc_drive_id = ''drive_'' @ map (\<lambda>c. if c = CHR ''-'' then CHR ''_'' else c) (da_id d),
      dc_path_on_host = drive_path_for ds (da_id d), dc_read_only = da_read_only d\<rparr>"

definition sandbox_metadata :: "string \<Rightarrow> create_request \<Rightarrow> json" where
  "sandbox_metadata i req =
     JObj [(''id'', JStr i), (''name'', opt_json JStr (cr_name req)), (''tags'', jmap (cr_tags req))]"

definition lease_jail :: "app \<Rightarrow> (io_error, u32 option) result \<times> app" where
  "lease_jail st =
     (case jailer_ids st of
        None \<Rightarrow> (Inr None, st)
      | Some p \<Rightarrow>
          (case jailer_lease p of
             (Inl e, p1) \<Rightarrow> (Inl e, st\<lparr>jailer_ids := Some p1\<rparr>)
           | (Inr i, p1) \<Rightarrow> (Inr (Some i), st\<lparr>jailer_ids := Some p1\<rparr>)))"

definition jail_for :: "u32 option \<Rightarrow> app \<Rightarrow> jail_launch option" where
  "jail_for jail_id st =
     (case (jail_id, cf_jailer (app_config st)) of
        (Some i, Some j) \<Rightarrow> Some \<lparr>jailer_bin = jc_jailer_bin j, chroot_base_dir = jc_chroot_base_dir j, jl_uid = i, jl_gid = i\<rparr>
      | _ \<Rightarrow> None)"

record boot_params =
  bp_rootfs :: string
  bp_source :: string
  bp_vcpu_count :: u8
  bp_mem_size_mib :: u32
  bp_drives :: "drive_config list"
  bp_rate_limit :: "rate_limiter option"
  bp_egress :: "egress_policy option"
  bp_metadata :: json

definition boot_config :: "boot_params \<Rightarrow> lease \<Rightarrow> u32 option \<Rightarrow> app \<Rightarrow> vm_config" where
  "boot_config b l jail_id st =
     \<lparr>vc_firecracker_bin = cf_firecracker_bin (app_config st), vc_kernel_path = cf_kernel_path (app_config st),
      vc_rootfs_path = bp_rootfs b, vc_vcpu_count = bp_vcpu_count b, vc_mem_size_mib = bp_mem_size_mib b,
      vc_network = Some (lease_config l), extra_drives = bp_drives b, vc_jail = jail_for jail_id st,
      vc_rate_limit = bp_rate_limit b, vc_metadata = Some (bp_metadata b)\<rparr>"

text \<open>The blocking task of a cold create. Both results are taken before either is looked at.\<close>

definition cold_boot_task :: "boot_params \<Rightarrow> app \<Rightarrow> (io_error, vm \<times> lease \<times> u32 option) result \<times> app" where
  "cold_boot_task b st =
     (case app_clone_rootfs (bp_source b) (bp_rootfs b) st of (copy_result, st1) \<Rightarrow>
     (case app_lease st1 of (lease_result, st2) \<Rightarrow>
     (case copy_result of Inl e \<Rightarrow> (Inl e, st2) | Inr _ \<Rightarrow>
     (case lease_result of Inl e \<Rightarrow> (Inl e, st2) | Inr l \<Rightarrow>
     (case lease_jail st2 of (Inl e, st3) \<Rightarrow> (Inl e, app_release l st3) | (Inr jail_id, st3) \<Rightarrow>
     (case on_world (vm_boot (boot_config b l jail_id st3)) st3 of
        (Inl e, st4) \<Rightarrow> (Inl e, release_jail_id jail_id (app_release l st4))
      | (Inr v, st4) \<Rightarrow>
     (case bp_egress b of None \<Rightarrow> (Inr (v, l, jail_id), st4) | Some policy \<Rightarrow>
     (case app_apply_egress l policy st4 of
        (Inl e, st5) \<Rightarrow> (Inl e, release_jail_id jail_id (app_release l (app_stop v st5)))
      | (Inr _, st5) \<Rightarrow> (Inr (v, l, jail_id), st5)))))))))"

text \<open>A history statement that fails is only logged.\<close>

definition app_record_created :: "string \<Rightarrow> create_request \<Rightarrow> int \<Rightarrow> app \<Rightarrow> app" where
  "app_record_created i req created st =
     st\<lparr>history := snd (record_created (history st) i (cr_name req) (cr_tags req) (cr_image_id req) created)\<rparr>"

definition record_sandbox_created :: "app \<Rightarrow> app" where
  "record_sandbox_created st = st\<lparr>created_total := created_total st + 1\<rparr>"

definition created_sandbox :: "string \<Rightarrow> create_request \<Rightarrow> vm \<Rightarrow> lease \<Rightarrow> u32 option \<Rightarrow> string option \<Rightarrow> egress_policy option \<Rightarrow>
    int \<Rightarrow> nat \<Rightarrow> sandbox" where
  "created_sandbox i req v l jail_id pool_id egress created instant =
     \<lparr>sb_id = i, sb_vm = v, sb_network = Some l, sb_rootfs_path = rootfs_path_for i,
      sb_attached_drives = map (\<lambda>d. \<lparr>ad_drive_id = da_id d, ad_read_only = da_read_only d\<rparr>) (cr_drives req),
      sb_image_id = cr_image_id req, sb_jail_id = jail_id, sb_tags = cr_tags req, sb_created_at = created,
      last_activity = instant, source_snapshot_id = None, sb_name = cr_name req, pty_session_count = 0,
      source_pool_id = pool_id, sb_egress = egress, sb_env = cr_env req, sb_parent_snapshot_id = None,
      sb_mounts = [], log_sessions = []\<rparr>"

definition release_image_boot :: "string option \<Rightarrow> app \<Rightarrow> app" where
  "release_image_boot img st = (case img of None \<Rightarrow> st | Some i \<Rightarrow> release_pending_image_boot i st)"

definition reserve_image_boot :: "string option \<Rightarrow> app \<Rightarrow> app" where
  "reserve_image_boot img st = (case img of None \<Rightarrow> st | Some i \<Rightarrow> reserve_pending_image_boot i st)"

text \<open>
  The two guards, the image boot's and the pool slot's, drop at the end of every path; the
  pool's is committed on success.
\<close>

definition create_sandbox_cold :: "create_request \<Rightarrow> string option \<Rightarrow> u8 \<Rightarrow> u32 \<Rightarrow> rate_limiter option \<Rightarrow>
    egress_policy option \<Rightarrow> app \<Rightarrow> (app_error, string) result \<times> app" where
  "create_sandbox_cold req pool_id vcpu_count mem_size_mib rate_limit egress st =
     (if (case cr_image_id req of Some img \<Rightarrow> \<not> image_exists (images st) img (w_fs (wld st)) | None \<Rightarrow> False)
      then (Inl (ImageNotFound (the (cr_image_id req))), release_pool_slot pool_id st)
      else
     (let st1 = reserve_image_boot (cr_image_id req) st;
          base = (case cr_image_id req of Some img \<Rightarrow> image_path_for (images st1) img | None \<Rightarrow> base_rootfs_path (app_config st1));
          (i, st2) = app_uuid st1;
          b = \<lparr>bp_rootfs = rootfs_path_for i, bp_source = base, bp_vcpu_count = vcpu_count, bp_mem_size_mib = mem_size_mib,
               bp_drives = map (drive_config_of (drives st2)) (cr_drives req), bp_rate_limit = rate_limit,
               bp_egress = egress, bp_metadata = sandbox_metadata i req\<rparr>
      in case cold_boot_task b st2 of
           (Inl e, st3) \<Rightarrow> (Inl (Internal e), release_pool_slot pool_id (release_image_boot (cr_image_id req) st3))
         | (Inr (v, l, jail_id), st3) \<Rightarrow>
             (let created = app_now st3;
                  st4 = app_record_created i req created st3;
                  s = created_sandbox i req v l jail_id pool_id egress created (w_now (wld st4))
              in (Inr i, release_image_boot (cr_image_id req) (record_sandbox_created (put_sandbox i s st4))))))"

section \<open>Claiming from a pool\<close>

definition UPDATE_METADATA_MAX_ATTEMPTS :: nat where
  "UPDATE_METADATA_MAX_ATTEMPTS = 10"

definition UPDATE_METADATA_RETRY_DELAY :: nat where
  "UPDATE_METADATA_RETRY_DELAY = ms 300"

fun update_metadata_retry :: "nat \<Rightarrow> vm \<Rightarrow> json \<Rightarrow> world \<Rightarrow> (io_error, unit) result \<times> world" where
  "update_metadata_retry 0 v md w = (Inl (io_other ''no attempt left'' []), w)"
| "update_metadata_retry (Suc n) v md w =
     (case update_metadata v md w of
        (Inr _, w1) \<Rightarrow> (Inr (), w1)
      | (Inl e, w1) \<Rightarrow>
          if n = 0 then (Inl e, w1)
          else update_metadata_retry n v md (w1\<lparr>w_now := w_now w1 + UPDATE_METADATA_RETRY_DELAY\<rparr>))"

definition destroy_unhealthy_claim :: "string \<Rightarrow> app \<Rightarrow> app" where
  "destroy_unhealthy_claim i st =
     (case hm_get i (sandboxes st) of None \<Rightarrow> st | Some s \<Rightarrow>
     (let st1 = drop_sandbox i st;
          st2 = (case sb_network s of None \<Rightarrow> st1 | Some l \<Rightarrow> app_release l st1)
      in snd (on_world (vm_force_stop (sb_vm s)) (app_remove_file (sb_rootfs_path s) st2))))"

definition claimed_update :: "create_request \<Rightarrow> string \<Rightarrow> egress_policy option \<Rightarrow> int \<Rightarrow> sandbox \<Rightarrow> sandbox" where
  "claimed_update req pool_id egress created s =
     s\<lparr>sb_tags := cr_tags req, sb_name := cr_name req, sb_created_at := created, sb_egress := egress,
       sb_env := cr_env req, source_pool_id := Some pool_id\<rparr>"

definition claim_from_pool :: "string \<Rightarrow> string \<Rightarrow> create_request \<Rightarrow> egress_policy option \<Rightarrow> app \<Rightarrow>
    (app_error, string) result \<times> app" where
  "claim_from_pool snapshot_id pool_id req egress st =
     (case resume_snapshot_by_id snapshot_id True st of (Inl e, st1) \<Rightarrow> (Inl e, st1) | (Inr i, st1) \<Rightarrow>
     (case hm_get i (sandboxes st1) of
        None \<Rightarrow> (Inl (Internal (io_other ''resume_snapshot_by_id above just inserted this id'' [])), st1)
      | Some s \<Rightarrow>
     (case on_world (vm_call (sb_vm s) (Exec ''true'' [] [])) st1 of
        (Inl _, st2) \<Rightarrow>
          (Inl (Internal (io_other ''pool-claimed sandbox failed its post-resume health check'' [])), destroy_unhealthy_claim i st2)
      | (Inr _, st2) \<Rightarrow>
     (let created = app_now st2 in
      case (case (egress, sb_network s) of (Some p, Some l) \<Rightarrow> app_apply_egress l p st2 | _ \<Rightarrow> (Inr (), st2)) of
        (Inl e, st3) \<Rightarrow> (Inl (Internal e), destroy_unhealthy_claim i st3)
      | (Inr _, st3) \<Rightarrow>
     (let st4 = snd (on_world (update_metadata_retry UPDATE_METADATA_MAX_ATTEMPTS (sb_vm s) (sandbox_metadata i req)) st3);
          st5 = st4\<lparr>sandboxes := hm_modify i (claimed_update req pool_id egress created) (sandboxes st4)\<rparr>
      in (Inr i, record_sandbox_created (app_record_created i req created st5)))))))"

definition request_pool_key :: "create_request \<Rightarrow> u8 \<Rightarrow> u32 \<Rightarrow> pool_key" where
  "request_pool_key req v m = \<lparr>pk_image_id = cr_image_id req, pk_vcpu_count = v, pk_mem_size_mib = m\<rparr>"

definition app_resolve_pool_claim :: "pool_key \<Rightarrow> app \<Rightarrow> (app_error, pool_claim) result \<times> app" where
  "app_resolve_pool_claim key st =
     (let now = w_now (wld st) div 1000000; late = now + POOL_QUEUE_TIMEOUT in
      case resolve_pool_claim key now [(app_pools st, now), (app_pools st, late)] of
        Resolved c ps \<Rightarrow> (Inr c, st\<lparr>app_pools := ps\<rparr>)
      | _ \<Rightarrow> (Inl (ServiceUnavailable (Msg ''matching pool is at its configured max_count'' [])),
              st\<lparr>wld := (wld st)\<lparr>w_now := w_now (wld st) + ms POOL_QUEUE_TIMEOUT\<rparr>\<rparr>))"

section \<open>Creating\<close>

fun missing_drive :: "drive_store \<Rightarrow> drive_attachment list \<Rightarrow> fs \<Rightarrow> string option" where
  "missing_drive ds [] f = None"
| "missing_drive ds (d # as) f = (if drive_exists ds (da_id d) f then missing_drive ds as f else Some (da_id d))"

fun drive_conflict :: "drive_attachment list \<Rightarrow> app \<Rightarrow> (string \<times> drive_hold list) option" where
  "drive_conflict [] st = None"
| "drive_conflict (d # ds) st =
     (let hs = drive_holders (da_id d) st in
      if can_attach_read_only (map dh_read_only hs) (da_read_only d) then drive_conflict ds st else Some (da_id d, hs))"

text \<open>The bounded loop over warm claims: its last argument counts the attempts left.\<close>

fun claim_loop :: "create_request \<Rightarrow> pool_key \<Rightarrow> rate_limiter option \<Rightarrow> egress_policy option \<Rightarrow> nat \<Rightarrow> app \<Rightarrow>
    (app_error, string) result \<times> app" where
  "claim_loop req key rl eg 0 st = create_sandbox_cold req None (pk_vcpu_count key) (pk_mem_size_mib key) rl eg st"
| "claim_loop req key rl eg (Suc n) st =
     (case app_resolve_pool_claim key st of
        (Inl e, st1) \<Rightarrow> (Inl e, st1)
      | (Inr (Warm pool_id snapshot_id), st1) \<Rightarrow>
          (case claim_from_pool snapshot_id pool_id req eg st1 of
             (Inr i, st2) \<Rightarrow> (Inr i, st2)
           | (Inl _, st2) \<Rightarrow> claim_loop req key rl eg n (release_pool_slot (Some pool_id) st2))
      | (Inr (ColdSlot pool_id), st1) \<Rightarrow>
          create_sandbox_cold req (Some pool_id) (pk_vcpu_count key) (pk_mem_size_mib key) rl eg st1
      | (Inr NoPool, st1) \<Rightarrow> create_sandbox_cold req None (pk_vcpu_count key) (pk_mem_size_mib key) rl eg st1)"

definition check_request :: "create_request \<Rightarrow> app \<Rightarrow> (app_error, unit) result" where
  "check_request req st =
     (case first_duplicate (map da_id (cr_drives req)) of
        Some d \<Rightarrow> Inl (BadRequest (Msg ''drive listed more than once: {}'' [d]))
      | None \<Rightarrow>
     (case missing_drive (drives st) (cr_drives req) (w_fs (wld st)) of
        Some d \<Rightarrow> Inl (DriveNotFound d)
      | None \<Rightarrow>
     (case drive_conflict (cr_drives req) st of
        Some (d, hs) \<Rightarrow> Inl (Conflict (Msg ''drive {} is already attached to {}'' [d, describe_drive_holders hs]))
      | None \<Rightarrow> Inr ())))"

definition bad_request :: "(message, 'a) result \<Rightarrow> (app_error, 'a) result" where
  "bad_request r = (case r of Inl m \<Rightarrow> Inl (BadRequest m) | Inr x \<Rightarrow> Inr x)"

definition resolve_request :: "create_request \<Rightarrow> app \<Rightarrow>
    (app_error, u8 \<times> u32 \<times> rate_limiter option \<times> egress_policy option) result" where
  "resolve_request req st =
     and_then (bad_request (resolve_resource_override (cr_vcpu_count req) (cf_vcpu_count (app_config st))
                 (max_vcpu_count (app_config st)) ''vcpu_count'')) (\<lambda>v.
     and_then (bad_request (resolve_resource_override (cr_mem_size_mib req) (cf_mem_size_mib (app_config st))
                 (max_mem_size_mib (app_config st)) ''mem_size_mib'')) (\<lambda>m.
     and_then (bad_request (resolve_rate_limit (cr_rate_limit req))) (\<lambda>rl.
     and_then (bad_request (resolve_egress_policy (cr_egress req))) (\<lambda>eg. Inr (v, m, rl, eg)))))"

definition create_sandbox_core :: "create_request \<Rightarrow> app \<Rightarrow> (app_error, string) result \<times> app" where
  "create_sandbox_core req st =
     (case check_request req st of Inl e \<Rightarrow> (Inl e, st) | Inr _ \<Rightarrow>
     (case resolve_request req st of Inl e \<Rightarrow> (Inl e, st) | Inr (v, m, rl, eg) \<Rightarrow>
     (if cr_drives req = [] \<and> cr_rate_limit req = None
      then claim_loop req (request_pool_key req v m) rl eg MAX_POOL_CLAIM_ATTEMPTS st
      else create_sandbox_cold req None v m rl eg st)))"

text \<open>The name is free while the name lock is held; here nothing else runs.\<close>

definition check_name_free :: "string option \<Rightarrow> app \<Rightarrow> (app_error, unit) result" where
  "check_name_free name st =
     (case name of None \<Rightarrow> Inr () | Some n \<Rightarrow>
        and_then (bad_request (validate_name n)) (\<lambda>_.
          case name_holder n st of
            Some h \<Rightarrow> Inl (Conflict (Msg ''name {} is already used by {}'' [n, h]))
          | None \<Rightarrow> Inr ()))"

definition create_sandbox :: "u8 list \<Rightarrow> app \<Rightarrow> (app_error, json) result \<times> app" where
  "create_sandbox body st =
     (case (if body = [] then Some default_request else Option.bind (json_value (app_codec st) body) create_request_of_json) of
        None \<Rightarrow> (Inl (BadRequest (Msg ''invalid request body'' [])), st)
      | Some req \<Rightarrow>
     (case check_name_free (cr_name req) st of Inl e \<Rightarrow> (Inl e, st) | Inr _ \<Rightarrow>
     (case create_sandbox_core req st of
        (Inl e, st1) \<Rightarrow> (Inl e, st1)
      | (Inr i, st1) \<Rightarrow> (Inr (JObj [(''id'', JStr i)]), st1))))"

section \<open>By name\<close>

definition get_sandbox_by_name :: "string \<Rightarrow> app \<Rightarrow> (app_error, json) result" where
  "get_sandbox_by_name n st =
     (case resolve_name n st of
        Some (Live i) \<Rightarrow> Inr (JObj [(''id'', JStr i)])
      | Some (HeldSnapshot _) \<Rightarrow> Inl (Conflict (Msg ''sandbox {} is currently stopped (snapshotted), not live'' [n]))
      | None \<Rightarrow> Inl (SandboxNotFound n))"

record get_or_create_request =
  gr_name :: string
  gr_tags :: tags
  gr_drives :: "drive_attachment list"
  gr_vcpu_count :: "u8 option"
  gr_mem_size_mib :: "u32 option"
  gr_rate_limit :: "rate_limit_request option"
  gr_egress :: "egress_policy_request option"
  gr_env :: env_vars

definition create_request_of_get :: "get_or_create_request \<Rightarrow> create_request" where
  "create_request_of_get r =
     \<lparr>cr_name = Some (gr_name r), cr_tags = gr_tags r, cr_drives = gr_drives r, cr_vcpu_count = gr_vcpu_count r,
      cr_mem_size_mib = gr_mem_size_mib r, cr_image_id = None, cr_rate_limit = gr_rate_limit r,
      cr_egress = gr_egress r, cr_env = gr_env r\<rparr>"

definition get_or_create_sandbox :: "get_or_create_request \<Rightarrow> app \<Rightarrow> (app_error, string \<times> bool) result \<times> app" where
  "get_or_create_sandbox r st =
     (case validate_name (gr_name r) of Inl m \<Rightarrow> (Inl (BadRequest m), st) | Inr _ \<Rightarrow>
     (case resolve_name (gr_name r) st of
        Some (Live i) \<Rightarrow> (Inr (i, False), st)
      | Some (HeldSnapshot sid) \<Rightarrow>
          (case resume_snapshot_by_id sid True st of (Inl e, st1) \<Rightarrow> (Inl e, st1) | (Inr i, st1) \<Rightarrow> (Inr (i, False), st1))
      | None \<Rightarrow>
          (case create_sandbox_core (create_request_of_get r) st of
             (Inl e, st1) \<Rightarrow> (Inl e, st1) | (Inr i, st1) \<Rightarrow> (Inr (i, True), st1))))"

section \<open>The replenisher\<close>

definition warm_request :: "pool_config \<Rightarrow> create_request" where
  "warm_request c =
     \<lparr>cr_name = None, cr_tags = [(''sandkiln.pool'', pc_id c)], cr_drives = [], cr_vcpu_count = Some (pc_vcpu_count c),
      cr_mem_size_mib = Some (pc_mem_size_mib c), cr_image_id = pc_image_id c, cr_rate_limit = None, cr_egress = None, cr_env = []\<rparr>"

definition replenish_one :: "pool_config \<Rightarrow> app \<Rightarrow> app" where
  "replenish_one c st =
     (case create_sandbox_core (warm_request c) st of (Inl _, st1) \<Rightarrow> st1 | (Inr i, st1) \<Rightarrow>
     (case snapshot_and_stop i st1 of (Inl _, st2) \<Rightarrow> st2 | (Inr sid, st2) \<Rightarrow>
     (case hm_get (pc_id c) (app_pools st2) of
        Some _ \<Rightarrow> st2\<lparr>app_pools := hm_modify (pc_id c) (push_warm sid) (app_pools st2)\<rparr>
      | None \<Rightarrow> snd (delete_snapshot_by_id sid st2))))"

definition replenish_once :: "app \<Rightarrow> app" where
  "replenish_once st =
     fold replenish_one (map pool_conf (filter needs_replenish (hm_values (app_pools st)))) st"

section \<open>Listing and history\<close>

definition list_sandboxes :: "string hash_map \<Rightarrow> app \<Rightarrow> json" where
  "list_sandboxes query st =
     (let filters = List.map_filter (\<lambda>(k, v). map_option (\<lambda>key. (key, v)) (strip_prefix ''tag.'' k)) query in
      JObj [(''sandboxes'', JArr (map
        (\<lambda>s. JObj [(''id'', JStr (sb_id s)), (''created_at_unix'', jword (epoch_secs (sb_created_at s))),
                   (''tags'', jmap (sb_tags s)), (''name'', opt_json JStr (sb_name s))])
        (filter (\<lambda>s. list_all (\<lambda>(k, v). hm_get k (sb_tags s) = Some v) filters) (hm_values (sandboxes st)))))])"

definition history_record_json :: "history_record \<Rightarrow> json" where
  "history_record_json r =
     JObj [(''id'', JStr (hr_id r)), (''name'', opt_json JStr (hr_name r)), (''tags'', jmap (hr_tags r)),
           (''image_id'', opt_json JStr (hr_image_id r)), (''created_at_unix'', jword (hr_created_at_unix r)),
           (''ended_at_unix'', opt_json jword (hr_ended_at_unix r)), (''end_reason'', opt_json JStr (hr_end_reason r)),
           (''final_snapshot_id'', opt_json JStr (hr_final_snapshot_id r))]"

definition sandbox_history :: "string hash_map \<Rightarrow> app \<Rightarrow> (app_error, json) result" where
  "sandbox_history query st =
     (let f = \<lparr>live_only = map_option (\<lambda>v. v = ''true'') (hm_get ''live_only'' query),
               hf_limit = Option.bind (hm_get ''limit'' query) (\<lambda>v. map_option of_nat (parse_unsigned (2 ^ 32 - 1) v))\<rparr> in
      case history_list (history st) f of
        Inl m \<Rightarrow> Inl (Internal (IoError OtherKind m))
      | Inr rs \<Rightarrow> Inr (JObj [(''history'', JArr (map history_record_json rs))]))"

end
