(* ===== verification/Samples.thy ===== *)
theory Samples
  imports Lifecycle
begin

text \<open>
  A small host for the witnesses: two tap devices, a disk that holds the base rootfs, programs
  and a Firecracker that answer every call, no pools and nothing running; and one sandbox on it.
\<close>

definition sample_config :: config where
  "sample_config =
     \<lparr>cf_listen_addr = ''127.0.0.1:7777'', cf_firecracker_bin = ''/bin/fc'', cf_kernel_path = ''/k'',
      base_rootfs_path = ''/tmp/base.ext4'', cf_vcpu_count = 1, cf_mem_size_mib = 128, max_vcpu_count = 4,
      max_mem_size_mib = 1024, cf_bridge_name = ''sandkiln0'', cf_bridge_gateway = Ipv4 172 16 0 1,
      cf_uplink_iface = Some ''eth0'', tap_pool_prefix = ''sk-tap'', tap_pool_size = 2, auth_token = None,
      drives_dir = ''/drives'', images_dir = ''/images'', history_db_path = ''/h.db'',
      idle_timeout = Some (secs 4), auto_suspend_timeout = None, archive_timeout = None,
      archive_dir = ''/archive'', cf_log_format = PrettyLog, preview_timeout = secs 30, cf_jailer = None\<rparr>"

definition sample_app :: app where
  "sample_app =
     app_new sample_config sample_codec sample_manager \<lparr>drive_dir = ''/drives''\<rparr> \<lparr>image_dir = ''/images''\<rparr> [] []
       sample_store
       (sample_world\<lparr>w_fs := \<lparr>fs_nodes = [([''tmp''], DirNode), ([''tmp'', ''base.ext4''], FileNode [1] 1)],
          fs_faults = (\<lambda>_ _. None), fs_ops = [], cmd_effect = (\<lambda>_ ns. ns)\<rparr>\<rparr>)"

definition sample_vm :: vm where
  "sample_vm = \<lparr>vm_id = 1, vm_child = 0, vm_api_socket = ''/tmp/a.sock'', vm_vsock_socket = ''/tmp/v.sock'', jail_instance_dir = None\<rparr>"

definition sample_sandbox :: sandbox where
  "sample_sandbox =
     \<lparr>sb_id = ''s1'', sb_vm = sample_vm, sb_network = Some sample_lease, sb_rootfs_path = ''/tmp/r'',
      sb_attached_drives = [], sb_image_id = None, sb_jail_id = None, sb_tags = [], sb_created_at = 0,
      last_activity = 0, source_snapshot_id = None, sb_name = Some ''n'', pty_session_count = 0,
      source_pool_id = None, sb_egress = None, sb_env = [], sb_parent_snapshot_id = None, sb_mounts = [], log_sessions = []\<rparr>"

lemma sample_app_maps [simp]:
  "sandboxes sample_app = []" "snapshots sample_app = []" "app_config sample_app = sample_config"
  "network sample_app = sample_manager" "app_codec sample_app = sample_codec" "jailer_ids sample_app = None"
  "app_pools sample_app = []" "w_now (wld sample_app) = 0" "retired_snapshots sample_app = []"
  by (simp_all add: sample_app_def app_new_def sample_world_def sample_config_def)

end
