(* ===== verification/Frames.thy ===== *)
theory Frames
  imports Creation
begin

text \<open>
  What the operations leave alone. No operation on the world draws or replaces UUIDs
  (\<open>ids_of\<close>) except the drawing itself; most operations of a handler change nothing of the
  daemon but its world (\<open>world_only\<close>). With these, a handler's effect on the maps is read off its
  few map operations.
\<close>

section \<open>UUIDs\<close>

text \<open>Where the world's supply of UUIDs stands.\<close>

definition ids_of :: "world \<Rightarrow> (nat \<Rightarrow> string) \<times> nat" where
  "ids_of w = (w_uuid w, w_uuid_next w)"

lemma ids_of_upd [simp]:
  "ids_of (v\<lparr>w_now := n\<rparr>) = ids_of v" "ids_of (v\<lparr>w_fs := f\<rparr>) = ids_of v" "ids_of (v\<lparr>w_sys := s\<rparr>) = ids_of v"
  "ids_of (v\<lparr>fc_events := es\<rparr>) = ids_of v" "ids_of (v\<lparr>w_next_vm := i\<rparr>) = ids_of v"
  by (simp_all add: ids_of_def)

lemma fc_do_ids: "fc_do ev w = (r, w') \<Longrightarrow> ids_of w' = ids_of w"
  by (auto simp: fc_do_def split: prod.splits)

lemma on_ids:
  "on_fs g w = (r, w') \<Longrightarrow> ids_of w' = ids_of w" "on_sys h w = (r, w') \<Longrightarrow> ids_of w' = ids_of w"
  "on_disk k w = (r, w') \<Longrightarrow> ids_of w' = ids_of w"
  by (auto simp: on_fs_def on_sys_def on_disk_def split: prod.splits)

lemma snd_ids [simp]: "ids_of (snd (on_fs f w)) = ids_of w" "ids_of (snd (fc_do ev w)) = ids_of w"
  by (metis on_ids(1) fc_do_ids prod.collapse)+

lemma remove_files_ids [simp]: "ids_of (remove_files ps w) = ids_of w"
  by (induction ps arbitrary: w) (simp_all add: remove_files_def)

lemma put_checked_ids: "put_checked s p b w = (r, w') \<Longrightarrow> ids_of w' = ids_of w"
  by (auto simp: put_checked_def split: prod.splits sum.splits if_splits dest: fc_do_ids)

lemma patch_checked_ids: "patch_checked s p b w = (r, w') \<Longrightarrow> ids_of w' = ids_of w"
  by (auto simp: patch_checked_def split: prod.splits sum.splits if_splits dest: fc_do_ids)

lemma api_connect_ids: "api_connect s w = (r, w') \<Longrightarrow> ids_of w' = ids_of w"
  by (auto simp: api_connect_def split: prod.splits sum.splits dest: fc_do_ids)

lemma vsock_call_ids: "vsock_call s q w = (r, w') \<Longrightarrow> ids_of w' = ids_of w"
  by (auto simp: vsock_call_def Let_def)

lemma retry_loop_ids:
  "retry_loop d i m attempt w = (r, w') \<Longrightarrow> (\<And>v r v'. attempt v = (r, v') \<Longrightarrow> ids_of v' = ids_of v) \<Longrightarrow> ids_of w' = ids_of w"
proof (induction d i m attempt w rule: retry_loop.induct)
  case (1 d i m attempt w)
  obtain r1 w1 where a: "attempt w = (r1, w1)" by (cases "attempt w")
  then have q1: "ids_of w1 = ids_of w" using 1(3) by blast
  show ?case
  proof (cases "(\<exists>v. r1 = Inr v) \<or> d \<le> max (w_now w) (w_now w1)")
    case True
    then have "w' = w1" using 1(2) a by (subst (asm) retry_loop.simps) (auto simp: Let_def split: sum.splits)
    with q1 show ?thesis by simp
  next
    case False
    then obtain e where e: "r1 = Inl e" by (cases r1) auto
    with False a 1(2)
    have rest: "retry_loop d (min (i * 2) m) m attempt
        (w1\<lparr>w_now := max (w_now w) (w_now w1) + max 1 i\<rparr>) = (r, w')"
      by (subst (asm) retry_loop.simps) (simp add: Let_def)
    have "ids_of w' = ids_of (w1\<lparr>w_now := max (w_now w) (w_now w1) + max 1 i\<rparr>)"
      using 1(1) [OF a [symmetric] e refl _ rest 1(3)] False by auto
    with q1 show ?thesis by simp
  qed
qed

lemma connect_retry_ids: "connect_api_with_retry p t w = (r, w') \<Longrightarrow> ids_of w' = ids_of w"
  by (auto simp: connect_api_with_retry_def retry_with_backoff_def split: prod.splits sum.splits
      dest!: retry_loop_ids intro: api_connect_ids)

lemma vm_call_ids: "vm_call v q w = (r, w') \<Longrightarrow> ids_of w' = ids_of w"
  unfolding vm_call_def retry_with_backoff_def by (erule retry_loop_ids) (rule vsock_call_ids)

lemma put_all_ids: "put_all s rs w = (r, w') \<Longrightarrow> ids_of w' = ids_of w"
proof (induction s rs w arbitrary: r rule: put_all.induct)
  case (2 s p b rs w)
  obtain r1 w1 where p: "put_checked s p b w = (r1, w1)" by (cases "put_checked s p b w")
  note q = put_checked_ids [OF p]
  show ?case
  proof (cases r1)
    case (Inr u)
    with 2(2) p have "put_all s rs w1 = (r, w')" by simp
    with 2(1) [OF p [symmetric] Inr] q show ?thesis by simp
  qed (use 2(2) p q in simp)
qed simp

lemma link_drives_ids: "link_drives root ds w = (r, w') \<Longrightarrow> ids_of w' = ids_of w"
proof (induction root ds w arbitrary: r w' rule: link_drives.induct)
  case (2 root d ds w)
  obtain r1 w1 where l: "on_fs (link_resource_into_jail (dc_path_on_host d) root (dc_drive_id d @ ''.ext4'') (\<not> dc_read_only d)) w = (r1, w1)"
    by (cases "on_fs (link_resource_into_jail (dc_path_on_host d) root (dc_drive_id d @ ''.ext4'') (\<not> dc_read_only d)) w")
  note q = on_ids(1) [OF l]
  show ?case
  proof (cases r1)
    case (Inr j)
    obtain r2 w2 where d: "link_drives root ds w1 = (r2, w2)" by (cases "link_drives root ds w1")
    with 2(2) l Inr have "w' = w2" by (auto split: sum.splits)
    with 2(1) [OF l [symmetric] Inr d] q show ?thesis by simp
  qed (use 2(2) l q in simp)
qed simp

lemma configure_ids: "configure_and_start c t w = (r, w') \<Longrightarrow> ids_of w' = ids_of w"
  unfolding configure_and_start_def
  by (auto split: prod.splits sum.splits dest!: connect_retry_ids put_all_ids put_checked_ids)

lemma spawn_logged_ids: "spawn_logged p a l w = (r, w') \<Longrightarrow> ids_of w' = ids_of w"
  unfolding spawn_logged_def by (auto split: prod.splits sum.splits dest!: on_ids(1) fc_do_ids)

lemma spawn_direct_ids: "spawn_direct c i l w = (r, w') \<Longrightarrow> ids_of w' = ids_of w"
  unfolding spawn_direct_def Let_def
  by (auto split: prod.splits sum.splits dest!: spawn_logged_ids)

lemma spawn_jailed_inner_ids: "spawn_jailed_inner c j i root l w = (r, w') \<Longrightarrow> ids_of w' = ids_of w"
  unfolding spawn_jailed_inner_def Let_def
  by (auto split: prod.splits sum.splits option.splits dest!: on_ids(1) link_drives_ids spawn_logged_ids)

lemma spawn_jailed_ids: "spawn_jailed c j i l w = (r, w') \<Longrightarrow> ids_of w' = ids_of w"
  unfolding spawn_jailed_def Let_def
  by (auto split: prod.splits sum.splits option.splits dest!: spawn_jailed_inner_ids)

lemma kill_child_ids [simp]: "ids_of (kill_child c w) = ids_of w"
  by (simp add: kill_child_def)

lemma abandon_ids [simp]: "ids_of (abandon_boot t w) = ids_of w"
  by (simp add: abandon_boot_def Let_def split: option.splits)

lemma boot_inner_ids: "boot_inner c i l w = (r, w') \<Longrightarrow> ids_of w' = ids_of w"
  unfolding boot_inner_def
  by (auto split: prod.splits sum.splits option.splits dest!: spawn_direct_ids spawn_jailed_ids configure_ids)

lemma tunnel_listen_ids [simp]: "ids_of (tunnel_listen v w) = ids_of w"
  by (simp add: tunnel_listen_def)

lemma vm_boot_ids: "vm_boot c w = (r, w') \<Longrightarrow> ids_of w' = ids_of w"
  unfolding vm_boot_def next_vm_id_def Let_def
  by (auto split: prod.splits sum.splits dest!: boot_inner_ids)

lemma vm_call_snd_ids [simp]: "ids_of (snd (vm_call v q w)) = ids_of w"
  by (metis vm_call_ids prod.collapse)

lemma stop_inner_ids: "stop_inner v b w = (r, w') \<Longrightarrow> ids_of w' = ids_of w"
  unfolding stop_inner_def Let_def by (auto split: option.splits if_splits)

lemma vm_ops_ids:
  "vm_stop v w = (r, w') \<Longrightarrow> ids_of w' = ids_of w" "vm_force_stop v w = (r, w') \<Longrightarrow> ids_of w' = ids_of w"
  "vm_pause v w = (r, w') \<Longrightarrow> ids_of w' = ids_of w" "vm_snapshot v m s w = (r, w') \<Longrightarrow> ids_of w' = ids_of w"
  by (auto simp: vm_stop_def vm_force_stop_def vm_pause_def vm_snapshot_def firecracker_writes_def split: prod.splits sum.splits
      dest!: stop_inner_ids api_connect_ids patch_checked_ids put_checked_ids)

lemma load_snapshot_ids: "load_snapshot c a v w = (r, w') \<Longrightarrow> ids_of w' = ids_of w"
  by (auto simp: load_snapshot_def split: prod.splits sum.splits dest!: connect_retry_ids put_checked_ids)

lemma vm_resume_ids: "vm_resume c w = (r, w') \<Longrightarrow> ids_of w' = ids_of w"
  unfolding vm_resume_def next_vm_id_def Let_def
  by (auto split: prod.splits sum.splits dest!: spawn_logged_ids load_snapshot_ids)

lemma update_metadata_ids: "update_metadata v md w = (r, w') \<Longrightarrow> ids_of w' = ids_of w"
  by (auto simp: update_metadata_def split: prod.splits sum.splits dest!: api_connect_ids put_checked_ids)

lemma update_metadata_retry_ids: "update_metadata_retry n v md w = (r, w') \<Longrightarrow> ids_of w' = ids_of w"
proof (induction n v md w arbitrary: r rule: update_metadata_retry.induct)
  case (2 n v md w)
  obtain r1 w1 where u: "update_metadata v md w = (r1, w1)" by (cases "update_metadata v md w")
  show ?case
    using 2(2) 2(1) [OF u [symmetric]] u update_metadata_ids [OF u] by (cases r1) (auto split: if_splits)
qed simp

end
