(* ===== verification/Ownership.thy ===== *)
theory Ownership
  imports Frames
begin

text \<open>
  An abstract specification of who owns what: the live sandboxes and held snapshots, the free
  pools and the supply of ids, and the steps in which ownership may change (\<open>own_step\<close>). Each
  handler refines a sequence of these steps (\<open>Handlers\<close>); here the steps are shown to keep the
  ownership invariant: a tap device has at most one owner, a name at most one holder that is
  not a fork, and a fork's source snapshot is held and locked by exactly that fork; and, beside it,
  that holders with different network identities share a drive read-only only.
\<close>

section \<open>Sums over a map\<close>

definition hm_sum :: "('v \<Rightarrow> 'b multiset) \<Rightarrow> ('k \<times> 'v) list \<Rightarrow> 'b multiset" where
  "hm_sum g m = (\<Sum>\<^sub># (image_mset (\<lambda>p. g (snd p)) (mset m)))"

lemma hm_sum_remove:
  assumes "hm_wf m" "hm_get k m = Some v"
  shows "hm_sum g m = g v + hm_sum g (hm_remove k m)"
  using hm_mset_split [OF assms] by (simp add: hm_sum_def)

lemma hm_sum_insert: "hm_sum g (hm_insert k v m) = g v + hm_sum g (hm_remove k m)"
  by (simp add: hm_sum_def hm_insert_def)

lemma hm_sum_remove_le: "hm_sum g (hm_remove k m) \<subseteq># hm_sum g m"
proof -
  have "hm_sum g m = hm_sum g (hm_remove k m) + hm_sum g (filter (\<lambda>p. fst p = k) m)"
    by (induction m) (auto simp: hm_sum_def hm_remove_def)
  then show ?thesis by simp
qed

lemma hm_sum_modify: "(\<And>v. hm_get k m = Some v \<Longrightarrow> g (f v) = g v) \<Longrightarrow> hm_wf m \<Longrightarrow> hm_sum g (hm_modify k f m) = hm_sum g m"
proof -
  assume f: "\<And>v. hm_get k m = Some v \<Longrightarrow> g (f v) = g v" and wf: "hm_wf m"
  have "g (snd (if fst p = k then (k, f (snd p)) else p)) = g (snd p)" if "p \<in> set m" for p
    using f [of "snd p"] hm_in_get [OF wf, of "fst p" "snd p"] that by auto
  then have "image_mset (\<lambda>p. g (snd (if fst p = k then (k, f (snd p)) else p))) (mset m) = image_mset (\<lambda>p. g (snd p)) (mset m)"
    by (intro image_mset_cong) auto
  then show ?thesis by (simp add: hm_sum_def hm_modify_def image_mset.compositionality comp_def)
qed

lemma hm_remove_modify_sum: "hm_sum g (hm_remove k (hm_modify k f m)) = hm_sum g (hm_remove k m)"
proof -
  have "hm_remove k (hm_modify k f m) = hm_remove k m"
    by (induction m) (auto simp: hm_remove_def hm_modify_def)
  then show ?thesis by simp
qed

lemma hm_modify_id: "hm_wf m \<Longrightarrow> hm_get k m = Some v \<Longrightarrow> f v = v \<Longrightarrow> hm_modify k f m = m"
proof (induction m)
  case (Cons p m)
  obtain k' v' where p: "p = (k', v')" by (cases p)
  have absent: "k \<notin> fst ` set xs \<Longrightarrow> map (\<lambda>q. if fst q = k then (k, f (snd q)) else q) xs = xs" for xs
    by (induction xs) auto
  show ?case
  proof (cases "k' = k")
    case True
    with Cons.prems p have "v' = v" "k \<notin> fst ` set m" by (auto simp: hm_get_def hm_wf_def)
    with True p Cons.prems(3) absent show ?thesis by (simp add: hm_modify_def)
  next
    case False
    with Cons p show ?thesis by (auto simp: hm_get_def hm_wf_def hm_modify_def)
  qed
qed simp

lemma hm_insert_remove [simp]: "hm_insert k v (hm_remove k m) = hm_insert k v m"
  by (simp add: hm_insert_def hm_remove_def)

lemma hm_modify_twice: "hm_modify k f (hm_modify k g m) = hm_modify k (f \<circ> g) m"
  by (induction m) (auto simp: hm_modify_def)

section \<open>The abstract state\<close>

record own =
  os_sandboxes :: "sandbox hash_map"
  os_snapshots :: "snapshot hash_map"
  os_net :: network_manager
  os_ids :: "(nat \<Rightarrow> string) \<times> nat"
  os_retired :: "retired_snapshot hash_map"

definition own_of :: "app \<Rightarrow> own" where
  "own_of st = \<lparr>os_sandboxes = sandboxes st, os_snapshots = snapshots st, os_net = network st, os_ids = ids_of (wld st),
     os_retired = retired_snapshots st\<rparr>"

definition next_ids :: "(nat \<Rightarrow> string) \<times> nat \<Rightarrow> (nat \<Rightarrow> string) \<times> nat" where
  "next_ids x = (fst x, Suc (snd x))"

definition fresh_id :: "own \<Rightarrow> string" where
  "fresh_id a = fst (os_ids a) (snd (os_ids a))"

definition sandbox_taps :: "sandbox \<Rightarrow> string multiset" where
  "sandbox_taps s = (case sb_network s of None \<Rightarrow> {#} | Some l \<Rightarrow> {#lease_tap l#})"

definition snapshot_taps :: "snapshot \<Rightarrow> string multiset" where
  "snapshot_taps s = {#lease_tap (sn_network s)#}"

definition opt_mset :: "'a option \<Rightarrow> 'a multiset" where
  "opt_mset x = (case x of None \<Rightarrow> {#} | Some y \<Rightarrow> {#y#})"

text \<open>A fork carries its snapshot's name; the others hold theirs.\<close>

definition held_name :: "sandbox \<Rightarrow> string multiset" where
  "held_name s = (if source_snapshot_id s = None then opt_mset (sb_name s) else {#})"

definition snapshot_name :: "snapshot \<Rightarrow> string multiset" where
  "snapshot_name s = opt_mset (sn_name s)"

definition held_taps :: "own \<Rightarrow> string multiset" where
  "held_taps a = hm_sum sandbox_taps (os_sandboxes a) + hm_sum snapshot_taps (os_snapshots a)"

definition all_taps :: "own \<Rightarrow> string multiset" where
  "all_taps a = mset (free_taps (os_net a)) + held_taps a"

definition held_names :: "own \<Rightarrow> string multiset" where
  "held_names a = hm_sum held_name (os_sandboxes a) + hm_sum snapshot_name (os_snapshots a)"

definition release_to :: "lease \<Rightarrow> network_manager \<Rightarrow> network_manager" where
  "release_to l m = m\<lparr>free_hosts := free_hosts m @ [host_octet l], free_taps := free_taps m @ [lease_tap l]\<rparr>"

definition release_opt :: "lease option \<Rightarrow> network_manager \<Rightarrow> network_manager" where
  "release_opt l m = (case l of None \<Rightarrow> m | Some x \<Rightarrow> release_to x m)"

definition unlock_source :: "string option \<Rightarrow> snapshot hash_map \<Rightarrow> snapshot hash_map" where
  "unlock_source src sns = (case src of None \<Rightarrow> sns | Some sid \<Rightarrow> hm_modify sid (\<lambda>s. s\<lparr>forked_into := None\<rparr>) sns)"

text \<open>A sandbox that owns its lease, and a name it may take: one of \<open>N\<close> that nobody holds.\<close>

definition name_allowed :: "string set \<Rightarrow> own \<Rightarrow> sandbox \<Rightarrow> bool" where
  "name_allowed N a s \<longleftrightarrow> (\<forall>n. sb_name s = Some n \<longrightarrow> n \<in> N \<and> n \<notin># held_names a)"

text \<open>
  Who holds which drives, by the network identity they run with: a sandbox under its lease, a held
  snapshot and a retired checkpoint under the one they would be resumed with. A fork runs
  on its snapshot's. Drives may be attached beside all holders when no id occurs twice and what
  is shared is shared read-only.
\<close>

definition drive_holds :: "own \<Rightarrow> (string \<times> attached_drive list) set" where
  "drive_holds a =
     {(lease_tap l, sb_attached_drives s) | i s l. hm_get i (os_sandboxes a) = Some s \<and> sb_network s = Some l}
     \<union> {(lease_tap (sn_network s), sn_attached_drives s) | i s. hm_get i (os_snapshots a) = Some s}
     \<union> {(tap_device (rt_network r), rt_attached_drives r) | i r. hm_get i (os_retired a) = Some r}"

definition attached_mode :: "string \<Rightarrow> attached_drive list \<Rightarrow> bool option" where
  "attached_mode i ds = map_option ad_read_only (find (\<lambda>d. ad_drive_id d = i) ds)"

definition read_only_shared :: "attached_drive list \<Rightarrow> attached_drive list \<Rightarrow> bool" where
  "read_only_shared ds es \<longleftrightarrow>
     (\<forall>i x y. attached_mode i ds = Some x \<longrightarrow> attached_mode i es = Some y \<longrightarrow> x \<and> y)"

definition drives_allowed :: "own \<Rightarrow> attached_drive list \<Rightarrow> bool" where
  "drives_allowed a ds \<longleftrightarrow> distinct (map ad_drive_id ds) \<and> (\<forall>t es. (t, es) \<in> drive_holds a \<longrightarrow> read_only_shared ds es)"

text \<open>Two versions of a sandbox that own the same.\<close>

definition same_owner :: "sandbox \<Rightarrow> sandbox \<Rightarrow> bool" where
  "same_owner s t \<longleftrightarrow> sb_id s = sb_id t \<and> sb_network s = sb_network t \<and> sb_name s = sb_name t
     \<and> source_snapshot_id s = source_snapshot_id t \<and> sb_attached_drives s = sb_attached_drives t"

section \<open>Steps\<close>

text \<open>
  \<open>N\<close> are the names a step may bring in. \<open>shrink\<close> is a lease that failed (the free taps are put
  back in another order) or one that is lost when the rootfs copy beside it fails.
\<close>

inductive own_step :: "string set \<Rightarrow> own \<Rightarrow> own \<Rightarrow> bool" for N where
  draw: "own_step N a (a\<lparr>os_ids := next_ids (os_ids a)\<rparr>)"
| shrink: "mset (free_taps m) \<subseteq># mset (free_taps (os_net a)) \<Longrightarrow> own_step N a (a\<lparr>os_net := m\<rparr>)"
| destroy: "hm_get i (os_sandboxes a) = Some s \<Longrightarrow>
    own_step N a (a\<lparr>os_sandboxes := hm_remove i (os_sandboxes a), os_net := release_opt (sb_network s) (os_net a),
      os_snapshots := unlock_source (source_snapshot_id s) (os_snapshots a)\<rparr>)"
| suspend: "hm_get i (os_sandboxes a) = Some s \<Longrightarrow> source_snapshot_id s = None \<Longrightarrow> sb_network s = Some (sn_network sn) \<Longrightarrow>
    sn_name sn = sb_name s \<Longrightarrow> forked_into sn = None \<Longrightarrow> sn_id sn = fresh_id a \<Longrightarrow> sn_attached_drives sn = sb_attached_drives s \<Longrightarrow>
    own_step N a (a\<lparr>os_sandboxes := hm_remove i (os_sandboxes a), os_snapshots := hm_insert (fresh_id a) sn (os_snapshots a),
      os_ids := next_ids (os_ids a)\<rparr>)"
| resume: "hm_get sid (os_snapshots a) = Some sn \<Longrightarrow> forked_into sn = None \<Longrightarrow> source_snapshot_id s = None \<Longrightarrow>
    sb_network s = Some (sn_network sn) \<Longrightarrow> sb_name s = sn_name sn \<Longrightarrow> sb_id s = fresh_id a \<Longrightarrow>
    sb_attached_drives s = sn_attached_drives sn \<Longrightarrow>
    own_step N a (a\<lparr>os_snapshots := hm_remove sid (os_snapshots a), os_sandboxes := hm_insert (fresh_id a) s (os_sandboxes a),
      os_ids := next_ids (os_ids a)\<rparr>)"
| rewrite: "hm_get sid (os_snapshots a) = Some sn \<Longrightarrow> sn_network sn' = sn_network sn \<Longrightarrow> sn_name sn' = sn_name sn \<Longrightarrow>
    forked_into sn' = forked_into sn \<Longrightarrow> sn_id sn' = sn_id sn \<Longrightarrow> sn_attached_drives sn' = sn_attached_drives sn \<Longrightarrow>
    own_step N a (a\<lparr>os_snapshots := hm_insert sid sn' (os_snapshots a)\<rparr>)"
| fork: "hm_get sid (os_snapshots a) = Some sn \<Longrightarrow> forked_into sn = None \<Longrightarrow> source_snapshot_id s = Some sid \<Longrightarrow>
    sb_network s = None \<Longrightarrow> sb_name s = sn_name sn \<Longrightarrow> sb_id s = fresh_id a \<Longrightarrow> sb_attached_drives s = sn_attached_drives sn \<Longrightarrow>
    own_step N a (a\<lparr>os_snapshots := hm_modify sid (\<lambda>x. x\<lparr>forked_into := Some (fresh_id a)\<rparr>) (os_snapshots a),
      os_sandboxes := hm_insert (fresh_id a) s (os_sandboxes a), os_ids := next_ids (os_ids a)\<rparr>)"
| delete: "hm_get sid (os_snapshots a) = Some sn \<Longrightarrow> forked_into sn = None \<Longrightarrow>
    own_step N a (a\<lparr>os_snapshots := hm_remove sid (os_snapshots a), os_net := release_to (sn_network sn) (os_net a)\<rparr>)"
| create: "add_mset (lease_tap l) (mset (free_taps m)) = mset (free_taps (os_net a)) \<Longrightarrow> source_snapshot_id s = None \<Longrightarrow>
    sb_network s = Some l \<Longrightarrow> name_allowed N a s \<Longrightarrow> sb_id s = fresh_id a \<Longrightarrow> drives_allowed a (sb_attached_drives s) \<Longrightarrow>
    own_step N a (a\<lparr>os_sandboxes := hm_insert (fresh_id a) s (os_sandboxes a), os_net := m, os_ids := next_ids (os_ids a)\<rparr>)"
| claim: "hm_get i (os_sandboxes a) = Some s \<Longrightarrow> source_snapshot_id s = None \<Longrightarrow> source_snapshot_id (f s) = None \<Longrightarrow>
    sb_network (f s) = sb_network s \<Longrightarrow> name_allowed N a (f s) \<Longrightarrow> sb_id (f s) = sb_id s \<Longrightarrow> sb_attached_drives (f s) = sb_attached_drives s \<Longrightarrow>
    own_step N a (a\<lparr>os_sandboxes := hm_modify i f (os_sandboxes a)\<rparr>)"
| touch: "hm_get i (os_sandboxes a) = Some s \<Longrightarrow> same_owner (f s) s \<Longrightarrow>
    own_step N a (a\<lparr>os_sandboxes := hm_modify i f (os_sandboxes a)\<rparr>)"
| restore: "lease_tap l \<notin># held_taps a \<Longrightarrow> free_taps m = remove1 (lease_tap l) (free_taps (os_net a)) \<Longrightarrow>
    source_snapshot_id s = None \<Longrightarrow> sb_network s = Some l \<Longrightarrow> name_allowed N a s \<Longrightarrow> sb_id s = fresh_id a \<Longrightarrow>
    hm_get k (os_retired a) = Some r \<Longrightarrow> tap_device (rt_network r) = lease_tap l \<Longrightarrow> sb_attached_drives s = rt_attached_drives r \<Longrightarrow>
    own_step N a (a\<lparr>os_sandboxes := hm_insert (fresh_id a) s (os_sandboxes a), os_net := m, os_ids := next_ids (os_ids a)\<rparr>)"
| retire: "hm_get sid (os_snapshots a) = Some sn \<Longrightarrow> tap_device (rt_network r) = lease_tap (sn_network sn) \<Longrightarrow>
    rt_attached_drives r = sn_attached_drives sn \<Longrightarrow>
    own_step N a (a\<lparr>os_retired := hm_insert k r (os_retired a)\<rparr>)"
| forget: "own_step N a (a\<lparr>os_retired := hm_remove k (os_retired a)\<rparr>)"

definition own_steps :: "string set \<Rightarrow> own \<Rightarrow> own \<Rightarrow> bool" where
  "own_steps N a b \<longleftrightarrow> (own_step N)\<^sup>*\<^sup>* a b"

lemma own_steps_refl [simp, intro]: "own_steps N a a"
  by (simp add: own_steps_def)

lemma own_steps_one [intro]: "own_step N a b \<Longrightarrow> own_steps N a b"
  by (simp add: own_steps_def)

lemma own_steps_trans: "own_steps N a b \<Longrightarrow> own_steps N b c \<Longrightarrow> own_steps N a c"
  by (simp add: own_steps_def)

section \<open>The invariant\<close>

definition at_most_once :: "'a multiset \<Rightarrow> bool" where
  "at_most_once M \<longleftrightarrow> (\<forall>x. count M x \<le> 1)"

definition fork_locked :: "snapshot hash_map \<Rightarrow> string \<Rightarrow> sandbox \<Rightarrow> bool" where
  "fork_locked sns i s \<longleftrightarrow>
     (case source_snapshot_id s of
        None \<Rightarrow> sb_network s \<noteq> None
      | Some sid \<Rightarrow> sb_network s = None \<and>
          (\<exists>sn. hm_get sid sns = Some sn \<and> forked_into sn = Some i \<and> sn_name sn = sb_name s))"

definition forks_locked :: "own \<Rightarrow> bool" where
  "forks_locked a \<longleftrightarrow> (\<forall>i s. hm_get i (os_sandboxes a) = Some s \<longrightarrow> fork_locked (os_snapshots a) i s)"

definition ids_fresh :: "own \<Rightarrow> bool" where
  "ids_fresh a \<longleftrightarrow> inj (fst (os_ids a))
     \<and> (\<forall>n \<ge> snd (os_ids a). hm_get (fst (os_ids a) n) (os_snapshots a) = None \<and> hm_get (fst (os_ids a) n) (os_sandboxes a) = None)"

text \<open>No lock outlives its fork.\<close>

definition locks_live :: "own \<Rightarrow> bool" where
  "locks_live a \<longleftrightarrow> (\<forall>sid sn i. hm_get sid (os_snapshots a) = Some sn \<longrightarrow> forked_into sn = Some i \<longrightarrow>
     (\<exists>s. hm_get i (os_sandboxes a) = Some s \<and> source_snapshot_id s = Some sid))"

text \<open>Every record is filed under its own id.\<close>

definition filed :: "own \<Rightarrow> bool" where
  "filed a \<longleftrightarrow> (\<forall>i s. hm_get i (os_sandboxes a) = Some s \<longrightarrow> sb_id s = i)
     \<and> (\<forall>i s. hm_get i (os_snapshots a) = Some s \<longrightarrow> sn_id s = i)"

definition own_inv :: "own \<Rightarrow> bool" where
  "own_inv a \<longleftrightarrow> hm_wf (os_sandboxes a) \<and> hm_wf (os_snapshots a) \<and> at_most_once (all_taps a)
     \<and> at_most_once (held_names a) \<and> forks_locked a \<and> ids_fresh a \<and> filed a \<and> locks_live a"

lemma at_most_once_sub: "at_most_once M \<Longrightarrow> K \<subseteq># M \<Longrightarrow> at_most_once K"
  by (meson at_most_once_def le_trans mset_subset_eq_count)

lemma at_most_once_add: "at_most_once M \<Longrightarrow> x \<notin># M \<Longrightarrow> at_most_once (add_mset x M)"
  by (auto simp: at_most_once_def not_in_iff)

text \<open>
  Drives: what holders with different network identities share they share read-only, and a fork
  has its snapshot's drives.
\<close>

definition drives_shared_ok :: "own \<Rightarrow> bool" where
  "drives_shared_ok a \<longleftrightarrow>
     (\<forall>t ds. (t, ds) \<in> drive_holds a \<longrightarrow> distinct (map ad_drive_id ds)
        \<and> (\<forall>u es. (u, es) \<in> drive_holds a \<longrightarrow> t = u \<or> read_only_shared ds es))"

definition fork_drives_ok :: "own \<Rightarrow> bool" where
  "fork_drives_ok a \<longleftrightarrow> (\<forall>i s sid sn. hm_get i (os_sandboxes a) = Some s \<longrightarrow> source_snapshot_id s = Some sid \<longrightarrow>
     hm_get sid (os_snapshots a) = Some sn \<longrightarrow> sb_attached_drives s = sn_attached_drives sn)"

definition drives_inv :: "own \<Rightarrow> bool" where
  "drives_inv a \<longleftrightarrow> own_inv a \<and> drives_shared_ok a \<and> fork_drives_ok a"

section \<open>Every step keeps the invariant\<close>

lemma taps_modify: "hm_wf m \<Longrightarrow> hm_sum snapshot_taps (hm_modify k (\<lambda>s. s\<lparr>forked_into := x\<rparr>) m) = hm_sum snapshot_taps m"
  by (rule hm_sum_modify) (simp_all add: snapshot_taps_def)

lemma names_modify: "hm_wf m \<Longrightarrow> hm_sum snapshot_name (hm_modify k (\<lambda>s. s\<lparr>forked_into := x\<rparr>) m) = hm_sum snapshot_name m"
  by (rule hm_sum_modify) (simp_all add: snapshot_name_def)

lemma unlock_sums:
  "hm_wf m \<Longrightarrow> hm_sum snapshot_taps (unlock_source src m) = hm_sum snapshot_taps m"
  "hm_wf m \<Longrightarrow> hm_sum snapshot_name (unlock_source src m) = hm_sum snapshot_name m"
  "hm_wf (unlock_source src m) = hm_wf m"
  by (simp_all add: unlock_source_def taps_modify names_modify split: option.splits)

lemma release_opt_taps: "mset (free_taps (release_opt l m)) = mset (free_taps m) + (case l of None \<Rightarrow> {#} | Some x \<Rightarrow> {#lease_tap x#})"
  by (simp add: release_opt_def release_to_def split: option.splits)

lemma hm_sum_insert_le: "hm_sum g (hm_insert k v m) \<subseteq># g v + hm_sum g m"
  by (simp add: hm_sum_insert hm_sum_remove_le)

lemma hm_sum_insert_same:
  "hm_wf m \<Longrightarrow> hm_get k m = Some v \<Longrightarrow> g v' = g v \<Longrightarrow> hm_sum g (hm_insert k v' m) = hm_sum g m"
  by (simp add: hm_sum_insert hm_sum_remove)

lemma own_step_wf: "own_step N a b \<Longrightarrow> hm_wf (os_sandboxes a) \<and> hm_wf (os_snapshots a) \<Longrightarrow> hm_wf (os_sandboxes b) \<and> hm_wf (os_snapshots b)"
  by (induction rule: own_step.induct) (simp_all add: unlock_sums)

lemma mset_sub_add: "A \<subseteq># A' \<Longrightarrow> B \<subseteq># B' \<Longrightarrow> A + B \<subseteq># A' + (B' :: 'a multiset)"
  by (rule subset_mset.add_mono)

lemma own_step_taps:
  assumes "own_step N a b" "hm_wf (os_sandboxes a)" "hm_wf (os_snapshots a)" "at_most_once (all_taps a)"
  shows "at_most_once (all_taps b)"
  using assms
proof (induction rule: own_step.induct)
  case (draw a)
  then show ?case by (simp add: all_taps_def held_taps_def)
next
  case (shrink m a)
  then show ?case by (intro at_most_once_sub [OF shrink(4)]) (simp add: all_taps_def held_taps_def)
next
  case (destroy i a s)
  then have "all_taps (a\<lparr>os_sandboxes := hm_remove i (os_sandboxes a), os_net := release_opt (sb_network s) (os_net a),
      os_snapshots := unlock_source (source_snapshot_id s) (os_snapshots a)\<rparr>) = all_taps a"
    using hm_sum_remove [OF destroy(2,1), of sandbox_taps]
    by (simp add: all_taps_def held_taps_def unlock_sums release_opt_taps sandbox_taps_def split: option.splits)
  with destroy show ?case by simp
next
  case (suspend i a s sn)
  have "hm_sum snapshot_taps (hm_insert (fresh_id a) sn (os_snapshots a)) \<subseteq># sandbox_taps s + hm_sum snapshot_taps (os_snapshots a)"
    using hm_sum_insert_le [of snapshot_taps "fresh_id a" sn] suspend(3) by (simp add: sandbox_taps_def snapshot_taps_def)
  from mset_sub_add [OF subset_mset.order_refl this, of "mset (free_taps (os_net a)) + hm_sum sandbox_taps (hm_remove i (os_sandboxes a))"]
  show ?case
    by (intro at_most_once_sub [OF suspend(10)])
      (simp add: all_taps_def held_taps_def hm_sum_remove [OF suspend(8,1), of sandbox_taps] ac_simps)
next
  case (resume sid a sn s)
  have "hm_sum sandbox_taps (hm_insert (fresh_id a) s (os_sandboxes a)) \<subseteq># snapshot_taps sn + hm_sum sandbox_taps (os_sandboxes a)"
    using hm_sum_insert_le [of sandbox_taps "fresh_id a" s] resume(4) by (simp add: sandbox_taps_def snapshot_taps_def)
  from mset_sub_add [OF subset_mset.order_refl this, of "mset (free_taps (os_net a)) + hm_sum snapshot_taps (hm_remove sid (os_snapshots a))"]
  show ?case
    by (intro at_most_once_sub [OF resume(10)])
      (simp add: all_taps_def held_taps_def hm_sum_remove [OF resume(9,1), of snapshot_taps] ac_simps)
next
  case (rewrite sid a sn sn')
  then have "hm_sum snapshot_taps (hm_insert sid sn' (os_snapshots a)) = hm_sum snapshot_taps (os_snapshots a)"
    by (intro hm_sum_insert_same) (simp_all add: snapshot_taps_def)
  with rewrite show ?case by (simp add: all_taps_def held_taps_def)
next
  case (fork sid a sn s)
  have "hm_sum sandbox_taps (hm_insert (fresh_id a) s (os_sandboxes a)) \<subseteq># hm_sum sandbox_taps (os_sandboxes a)"
    using hm_sum_insert_le [of sandbox_taps "fresh_id a" s] fork(4) by (simp add: sandbox_taps_def)
  then show ?case by (intro at_most_once_sub [OF fork(10)]) (simp add: all_taps_def held_taps_def taps_modify fork(9))
next
  case (delete sid a sn)
  have "all_taps (a\<lparr>os_snapshots := hm_remove sid (os_snapshots a), os_net := release_to (sn_network sn) (os_net a)\<rparr>) = all_taps a"
    using hm_sum_remove [OF delete(4,1), of snapshot_taps]
    by (simp add: all_taps_def held_taps_def release_to_def snapshot_taps_def)
  with delete show ?case by simp
next
  case (create l m a s)
  have "hm_sum sandbox_taps (hm_insert (fresh_id a) s (os_sandboxes a)) \<subseteq># {#lease_tap l#} + hm_sum sandbox_taps (os_sandboxes a)"
    using hm_sum_insert_le [of sandbox_taps "fresh_id a" s] create(3) by (simp add: sandbox_taps_def)
  moreover have "all_taps a = mset (free_taps m) + ({#lease_tap l#} + hm_sum sandbox_taps (os_sandboxes a)) + hm_sum snapshot_taps (os_snapshots a)"
    by (simp add: all_taps_def held_taps_def create(1) [symmetric])
  ultimately show ?case
    by (intro at_most_once_sub [OF create(9)]) (simp add: all_taps_def held_taps_def add.assoc)
next
  case (claim i a s f)
  then have "hm_sum sandbox_taps (hm_modify i f (os_sandboxes a)) = hm_sum sandbox_taps (os_sandboxes a)"
    by (intro hm_sum_modify) (auto simp: sandbox_taps_def)
  with claim show ?case by (simp add: all_taps_def held_taps_def)
next
  case (touch i a s f)
  then have "hm_sum sandbox_taps (hm_modify i f (os_sandboxes a)) = hm_sum sandbox_taps (os_sandboxes a)"
    by (intro hm_sum_modify) (auto simp: sandbox_taps_def same_owner_def)
  with touch show ?case by (simp add: all_taps_def held_taps_def)
next
  case (restore l a m s)
  let ?t = "lease_tap l"
  have le: "hm_sum sandbox_taps (hm_insert (fresh_id a) s (os_sandboxes a)) \<subseteq># {#?t#} + hm_sum sandbox_taps (os_sandboxes a)"
    using hm_sum_insert_le [of sandbox_taps "fresh_id a" s] restore(4) by (simp add: sandbox_taps_def)
  have once: "at_most_once (add_mset ?t (mset (remove1 ?t (free_taps (os_net a))) + held_taps a))"
  proof (rule at_most_once_add)
    show "at_most_once (mset (remove1 ?t (free_taps (os_net a))) + held_taps a)"
      using restore(12) by (rule at_most_once_sub) (simp add: all_taps_def diff_subset_eq_self)
    have "count (mset (free_taps (os_net a))) ?t \<le> 1"
    proof -
      have "count (all_taps a) ?t \<le> 1" using restore(12) by (simp add: at_most_once_def)
      then show ?thesis by (simp add: all_taps_def)
    qed
    then show "?t \<notin># mset (remove1 ?t (free_taps (os_net a))) + held_taps a"
      using restore(1) by (auto simp: in_diff_count)
  qed
  show ?case
    using once by (rule at_most_once_sub) (use le in \<open>simp add: all_taps_def held_taps_def restore(2) ac_simps\<close>)
qed (simp_all add: all_taps_def held_taps_def)

lemma opt_mset_simps [simp]: "opt_mset None = {#}" "opt_mset (Some x) = {#x#}"
  by (simp_all add: opt_mset_def)

lemma add_name_once:
  assumes "at_most_once (held_names a)" "name_allowed N a s" "M \<subseteq># opt_mset (sb_name s) + held_names a"
  shows "at_most_once M"
  by (rule at_most_once_sub [OF _ assms(3)])
    (use assms(1,2) in \<open>cases "sb_name s"; auto simp: name_allowed_def intro: at_most_once_add\<close>)

text \<open>Names that are new after a step are among \<open>N\<close>; no name is ever held twice.\<close>

lemma own_step_names_le:
  assumes "own_step N a b" "hm_wf (os_sandboxes a)" "hm_wf (os_snapshots a)"
  shows "held_names b \<subseteq># held_names a \<or> (\<exists>s. name_allowed N a s \<and> held_names b \<subseteq># opt_mset (sb_name s) + held_names a)"
  using assms
proof (induction rule: own_step.induct)
  case (destroy i a s)
  then show ?case
    using hm_sum_remove_le [of held_name i "os_sandboxes a"] by (simp add: held_names_def unlock_sums)
next
  case (suspend i a s sn)
  have "hm_sum snapshot_name (hm_insert (fresh_id a) sn (os_snapshots a)) \<subseteq># held_name s + hm_sum snapshot_name (os_snapshots a)"
    using hm_sum_insert_le [of snapshot_name "fresh_id a" sn] suspend(2,4) by (simp add: held_name_def snapshot_name_def)
  from mset_sub_add [OF subset_mset.order_refl this, of "hm_sum held_name (hm_remove i (os_sandboxes a))"]
  show ?case by (simp add: held_names_def hm_sum_remove [OF suspend(8,1), of held_name] ac_simps)
next
  case (resume sid a sn s)
  have "hm_sum held_name (hm_insert (fresh_id a) s (os_sandboxes a)) \<subseteq># snapshot_name sn + hm_sum held_name (os_sandboxes a)"
    using hm_sum_insert_le [of held_name "fresh_id a" s] resume(3,5) by (simp add: held_name_def snapshot_name_def)
  from mset_sub_add [OF subset_mset.order_refl this, of "hm_sum snapshot_name (hm_remove sid (os_snapshots a))"]
  show ?case by (simp add: held_names_def hm_sum_remove [OF resume(9,1), of snapshot_name] ac_simps)
next
  case (rewrite sid a sn sn')
  then have "hm_sum snapshot_name (hm_insert sid sn' (os_snapshots a)) = hm_sum snapshot_name (os_snapshots a)"
    by (intro hm_sum_insert_same) (simp_all add: snapshot_name_def)
  then show ?case by (simp add: held_names_def)
next
  case (fork sid a sn s)
  then show ?case
    using hm_sum_insert_le [of held_name "fresh_id a" s "os_sandboxes a"] by (simp add: held_names_def names_modify held_name_def)
next
  case (delete sid a sn)
  then show ?case
    using hm_sum_remove_le [of snapshot_name sid "os_snapshots a"] by (simp add: held_names_def)
next
  case (create l m a s)
  then show ?case
    using hm_sum_insert_le [of held_name "fresh_id a" s "os_sandboxes a"]
    by (intro disjI2 exI [of _ s]) (simp add: held_names_def held_name_def add.assoc [symmetric])
next
  case (claim i a s f)
  have "hm_sum held_name (hm_modify i f (os_sandboxes a)) = held_name (f s) + hm_sum held_name (hm_remove i (os_sandboxes a))"
    using hm_sum_remove [of "hm_modify i f (os_sandboxes a)" i "f s" held_name] claim(1,8) by (simp add: hm_remove_modify_sum)
  moreover have "held_name (f s) = opt_mset (sb_name (f s))" by (simp add: held_name_def claim(3))
  ultimately show ?case
    using claim(5) hm_sum_remove_le [of held_name i "os_sandboxes a"]
    by (intro disjI2 exI [of _ "f s"]) (simp add: held_names_def)
next
  case (touch i a s f)
  then have "hm_sum held_name (hm_modify i f (os_sandboxes a)) = hm_sum held_name (os_sandboxes a)"
    by (intro hm_sum_modify) (auto simp: held_name_def same_owner_def)
  then show ?case by (simp add: held_names_def)
next
  case (restore l a m s)
  then show ?case
    using hm_sum_insert_le [of held_name "fresh_id a" s "os_sandboxes a"]
    by (intro disjI2 exI [of _ s]) (simp add: held_names_def held_name_def add.assoc [symmetric])
qed (simp_all add: held_names_def)

lemma own_step_names:
  assumes "own_step N a b" "hm_wf (os_sandboxes a)" "hm_wf (os_snapshots a)" "at_most_once (held_names a)"
  shows "at_most_once (held_names b)"
  using own_step_names_le [OF assms(1-3)] assms(4) by (auto intro: at_most_once_sub add_name_once)

lemma own_step_forks:
  assumes "own_step N a b" "hm_wf (os_sandboxes a)" "forks_locked a" "ids_fresh a"
  shows "forks_locked b"
  using assms
proof (induction rule: own_step.induct)
  case (destroy i a s)
  show ?case unfolding forks_locked_def
  proof (intro allI impI)
    fix j t
    assume "hm_get j (os_sandboxes (a\<lparr>os_sandboxes := hm_remove i (os_sandboxes a),
        os_net := release_opt (sb_network s) (os_net a), os_snapshots := unlock_source (source_snapshot_id s) (os_snapshots a)\<rparr>)) = Some t"
    then have j: "j \<noteq> i" "hm_get j (os_sandboxes a) = Some t" by (auto split: if_splits)
    with destroy(3) have t: "fork_locked (os_snapshots a) j t" by (simp add: forks_locked_def)
    have i: "fork_locked (os_snapshots a) i s" using destroy(1,3) by (simp add: forks_locked_def)
    show "fork_locked (os_snapshots (a\<lparr>os_sandboxes := hm_remove i (os_sandboxes a),
        os_net := release_opt (sb_network s) (os_net a), os_snapshots := unlock_source (source_snapshot_id s) (os_snapshots a)\<rparr>)) j t"
      using t i j(1) by (auto simp: fork_locked_def unlock_source_def split: option.splits)
  qed
next
  case (suspend i a s sn)
  have fresh: "hm_get (fresh_id a) (os_snapshots a) = None" using suspend(10) by (simp add: ids_fresh_def fresh_id_def)
  have "fork_locked (hm_insert (fresh_id a) sn (os_snapshots a)) j t" if "fork_locked (os_snapshots a) j t" for j t
    using that fresh by (auto simp: fork_locked_def split: option.splits)
  with suspend(9) show ?case by (simp add: forks_locked_def)
next
  case (resume sid a sn s)
  have "fork_locked (hm_remove sid (os_snapshots a)) j t" if "fork_locked (os_snapshots a) j t" for j t
    using that resume(1,2) by (auto simp: fork_locked_def split: option.splits)
  with resume show ?case by (auto simp: forks_locked_def fork_locked_def [of _ _ s])
next
  case (rewrite sid a sn sn')
  have "fork_locked (hm_insert sid sn' (os_snapshots a)) j t" if "fork_locked (os_snapshots a) j t" for j t
    using that rewrite(1-4) by (auto simp: fork_locked_def split: option.splits)
  with rewrite(8) show ?case by (simp add: forks_locked_def)
next
  case (fork sid a sn s)
  have "fork_locked (hm_modify sid (\<lambda>x. x\<lparr>forked_into := Some (fresh_id a)\<rparr>) (os_snapshots a)) j t"
    if "fork_locked (os_snapshots a) j t" for j t
    using that fork(1,2) by (auto simp: fork_locked_def split: option.splits)
  with fork show ?case by (auto simp: forks_locked_def fork_locked_def [of _ _ s])
next
  case (delete sid a sn)
  have "fork_locked (hm_remove sid (os_snapshots a)) j t" if "fork_locked (os_snapshots a) j t" for j t
    using that delete(1,2) by (auto simp: fork_locked_def split: option.splits)
  with delete show ?case by (simp add: forks_locked_def)
next
  case (claim i a s f)
  then have "fork_locked (os_snapshots a) i s" by (simp add: forks_locked_def)
  with claim(2-4) have "fork_locked (os_snapshots a) i (f s)" by (simp add: fork_locked_def)
  with claim show ?case by (auto simp: forks_locked_def)
next
  case (touch i a s f)
  then have "fork_locked (os_snapshots a) i s" by (simp add: forks_locked_def)
  with touch(2) have "fork_locked (os_snapshots a) i (f s)"
    by (simp add: fork_locked_def same_owner_def split: option.splits)
  with touch show ?case by (auto simp: forks_locked_def)
qed (auto simp: forks_locked_def fork_locked_def)

lemma next_id_new: "ids_fresh a \<Longrightarrow> Suc (snd (os_ids a)) \<le> n \<Longrightarrow> fst (os_ids a) n \<noteq> fresh_id a"
  by (auto simp: ids_fresh_def fresh_id_def inj_eq)

lemma own_step_ids: "own_step N a b \<Longrightarrow> ids_fresh a \<Longrightarrow> ids_fresh b"
proof (induction rule: own_step.induct)
  case (suspend i a s sn)
  with next_id_new [of a] show ?case by (auto simp: ids_fresh_def next_ids_def)
next
  case (resume sid a sn s)
  with next_id_new [of a] show ?case by (auto simp: ids_fresh_def next_ids_def)
next
  case (fork sid a sn s)
  with next_id_new [of a] show ?case by (auto simp: ids_fresh_def next_ids_def)
next
  case (create l m a s)
  with next_id_new [of a] show ?case by (auto simp: ids_fresh_def next_ids_def)
next
  case (restore l a m s)
  with next_id_new [of a] show ?case by (auto simp: ids_fresh_def next_ids_def)
qed (auto simp: ids_fresh_def next_ids_def unlock_source_def split: option.splits)

lemma fresh_unused: "ids_fresh a \<Longrightarrow> hm_get (fresh_id a) (os_snapshots a) = None \<and> hm_get (fresh_id a) (os_sandboxes a) = None"
  by (simp add: ids_fresh_def fresh_id_def)

lemma own_step_locks:
  assumes "own_step N a b" "locks_live a" "forks_locked a" "ids_fresh a"
  shows "locks_live b"
  using assms
proof (induction rule: own_step.induct)
  case (destroy i a s)
  show ?case unfolding locks_live_def
  proof (intro allI impI)
    fix sid sn j
    assume g: "hm_get sid (os_snapshots (a\<lparr>os_sandboxes := hm_remove i (os_sandboxes a), os_net := release_opt (sb_network s) (os_net a),
        os_snapshots := unlock_source (source_snapshot_id s) (os_snapshots a)\<rparr>)) = Some sn" and j: "forked_into sn = Some j"
    then have old: "hm_get sid (os_snapshots a) = Some sn" and other: "source_snapshot_id s \<noteq> Some sid"
      by (auto simp: unlock_source_def split: option.splits if_splits)
    with destroy(2) j obtain t where t: "hm_get j (os_sandboxes a) = Some t" "source_snapshot_id t = Some sid"
      unfolding locks_live_def by blast
    with destroy(1) other have "j \<noteq> i" by auto
    with t show "\<exists>s'. hm_get j (os_sandboxes (a\<lparr>os_sandboxes := hm_remove i (os_sandboxes a), os_net := release_opt (sb_network s) (os_net a),
        os_snapshots := unlock_source (source_snapshot_id s) (os_snapshots a)\<rparr>)) = Some s' \<and> source_snapshot_id s' = Some sid" by simp
  qed
next
  case (suspend i a s sn)
  then show ?case by (fastforce simp: locks_live_def split: if_splits)
next
  case (resume sid a sn s)
  with fresh_unused [of a] show ?case by (fastforce simp: locks_live_def split: if_splits)
next
  case (rewrite sid a sn sn')
  then show ?case by (fastforce simp: locks_live_def split: if_splits)
next
  case (fork sid a sn s)
  with fresh_unused [of a] show ?case by (fastforce simp: locks_live_def split: if_splits)
next
  case (create l m a s)
  with fresh_unused [of a] show ?case by (fastforce simp: locks_live_def split: if_splits)
next
  case (claim i a s f)
  then show ?case by (fastforce simp: locks_live_def split: if_splits)
next
  case (touch i a s f)
  then show ?case by (fastforce simp: locks_live_def same_owner_def split: if_splits)
next
  case (restore l a m s)
  with fresh_unused [of a] show ?case by (fastforce simp: locks_live_def split: if_splits)
qed (auto simp: locks_live_def split: if_splits)

lemma own_step_filed: "own_step N a b \<Longrightarrow> filed a \<Longrightarrow> filed b"
  by (induction rule: own_step.induct) (auto simp: filed_def unlock_source_def same_owner_def split: if_splits option.splits)

lemma own_step_inv: "own_step N a b \<Longrightarrow> own_inv a \<Longrightarrow> own_inv b"
  using own_step_wf [of N a b] own_step_taps [of N a b] own_step_names [of N a b] own_step_forks [of N a b] own_step_ids [of N a b]
    own_step_filed [of N a b] own_step_locks [of N a b]
  by (simp add: own_inv_def)

interpretation ownership: step_invariant "own_step N" own_inv
  by unfold_locales (rule own_step_inv)

text \<open>Only a cold boot brings in a holder with drives of its own; every other step passes them on.\<close>

lemma read_only_shared_sym: "read_only_shared ds es \<Longrightarrow> read_only_shared es ds"
  by (fastforce simp: read_only_shared_def)

lemma attached_mode_in: "distinct (map ad_drive_id ds) \<Longrightarrow> d \<in> set ds \<Longrightarrow> attached_mode (ad_drive_id d) ds = Some (ad_read_only d)"
  by (induction ds) (auto simp: attached_mode_def)

lemma drives_shared_sub: "drives_shared_ok a \<Longrightarrow> drive_holds b \<subseteq> drive_holds a \<Longrightarrow> drives_shared_ok b"
  unfolding drives_shared_ok_def by (meson subsetD)

lemma drives_shared_add:
  assumes ok: "drives_shared_ok a" and new: "drives_allowed a ds" and le: "drive_holds b \<subseteq> drive_holds a \<union> {(t, ds)}"
  shows "drives_shared_ok b"
  unfolding drives_shared_ok_def
proof (intro allI impI)
  fix u es
  assume "(u, es) \<in> drive_holds b"
  then have 1: "(u, es) \<in> drive_holds a \<or> u = t \<and> es = ds" using le by auto
  have "u = v \<or> read_only_shared es fs" if "(v, fs) \<in> drive_holds b" for v fs
  proof -
    have "(v, fs) \<in> drive_holds a \<or> v = t \<and> fs = ds" using that le by auto
    with 1 ok new read_only_shared_sym show ?thesis by (auto simp: drives_shared_ok_def drives_allowed_def)
  qed
  moreover have "distinct (map ad_drive_id es)" using 1 ok new by (auto simp: drives_shared_ok_def drives_allowed_def)
  ultimately show "distinct (map ad_drive_id es) \<and> (\<forall>v fs. (v, fs) \<in> drive_holds b \<longrightarrow> u = v \<or> read_only_shared es fs)" by blast
qed

lemma own_step_holds:
  assumes "own_step N a b"
  shows "drive_holds b \<subseteq> drive_holds a \<or> (\<exists>t ds. drives_allowed a ds \<and> drive_holds b \<subseteq> drive_holds a \<union> {(t, ds)})"
  using assms
proof (induction rule: own_step.induct)
  case (create l m a s)
  have "drive_holds (a\<lparr>os_sandboxes := hm_insert (fresh_id a) s (os_sandboxes a), os_net := m, os_ids := next_ids (os_ids a)\<rparr>)
      \<subseteq> drive_holds a \<union> {(lease_tap l, sb_attached_drives s)}"
    using create(3) by (auto simp: drive_holds_def split: if_splits)
  with create(6) show ?case by blast
next
  case (destroy i a s)
  show ?case by (rule disjI1) (auto simp: drive_holds_def unlock_source_def split: if_splits option.splits)
next
  case (suspend i a s sn)
  then show ?case by (intro disjI1) (fastforce simp: drive_holds_def split: if_splits)
next
  case (resume sid a sn s)
  then show ?case by (intro disjI1) (fastforce simp: drive_holds_def split: if_splits)
next
  case (rewrite sid a sn sn')
  then show ?case by (intro disjI1) (fastforce simp: drive_holds_def split: if_splits)
next
  case (fork sid a sn s)
  then show ?case by (intro disjI1) (fastforce simp: drive_holds_def split: if_splits)
next
  case (claim i a s f)
  then show ?case by (intro disjI1) (fastforce simp: drive_holds_def split: if_splits)
next
  case (touch i a s f)
  then show ?case by (intro disjI1) (fastforce simp: drive_holds_def same_owner_def split: if_splits)
next
  case (restore l a m s k r)
  then show ?case by (intro disjI1) (fastforce simp: drive_holds_def split: if_splits)
next
  case (retire sid a sn r k)
  then show ?case by (intro disjI1) (fastforce simp: drive_holds_def split: if_splits)
qed (auto simp: drive_holds_def split: if_splits)

lemma own_step_fork_drives:
  assumes "own_step N a b" "own_inv a" "fork_drives_ok a"
  shows "fork_drives_ok b"
proof -
  from assms(2) have fresh: "hm_get (fresh_id a) (os_snapshots a) = None"
    and locked: "\<And>i s sid. hm_get i (os_sandboxes a) = Some s \<Longrightarrow> source_snapshot_id s = Some sid \<Longrightarrow> sid \<noteq> fresh_id a"
    using fresh_unused [of a] by (fastforce simp: own_inv_def forks_locked_def fork_locked_def)+
  show ?thesis using assms(1,3) fresh locked
  proof (induction rule: own_step.induct)
    case (destroy i a s)
    then show ?case by (fastforce simp: fork_drives_ok_def unlock_source_def split: if_splits option.splits)
  next
    case (touch i a s f)
    then show ?case by (fastforce simp: fork_drives_ok_def same_owner_def split: if_splits)
  qed (fastforce simp: fork_drives_ok_def split: if_splits)+
qed

lemma own_step_drives: "own_step N a b \<Longrightarrow> drives_inv a \<Longrightarrow> drives_inv b"
  using own_step_holds [of N a b] own_step_inv [of N a b] own_step_fork_drives [of N a b] drives_shared_sub [of a b]
    drives_shared_add [of a _ b]
  by (auto simp: drives_inv_def)

interpretation drive_owners: step_invariant "own_step N" drives_inv
  by unfold_locales (rule own_step_drives)

lemma own_steps_inv: "own_steps N a b \<Longrightarrow> own_inv a \<Longrightarrow> own_inv b"
  unfolding own_steps_def by (rule ownership.steps_inv)

text \<open>Steps that may bring in no name leave every free name free.\<close>

lemma own_steps_no_names:
  assumes "own_steps {} a b" "own_inv a"
  shows "held_names b \<subseteq># held_names a"
  using assms unfolding own_steps_def
proof (induction rule: rtranclp_induct)
  case (step y z)
  then have inv: "own_inv y" using own_steps_inv [of "{}" a y] by (simp add: own_steps_def)
  from own_step_names_le [OF step(2)] inv have "held_names z \<subseteq># held_names y"
    by (auto simp: own_inv_def name_allowed_def opt_mset_def split: option.splits)
  with step show ?case by (meson subset_mset.order_trans)
qed simp

lemma name_allowed_mono: "name_allowed N a s \<Longrightarrow> N \<subseteq> N' \<Longrightarrow> name_allowed N' a s"
  by (auto simp: name_allowed_def)

lemma own_step_mono: "own_step N a b \<Longrightarrow> N \<subseteq> N' \<Longrightarrow> own_step N' a b"
  by (induction rule: own_step.induct) (auto intro: own_step.intros name_allowed_mono)

lemma own_steps_mono: "own_steps N a b \<Longrightarrow> N \<subseteq> N' \<Longrightarrow> own_steps N' a b"
  unfolding own_steps_def by (induction rule: rtranclp_induct) (auto dest: own_step_mono)

end
