(* ===== verification/Handlers.thy ===== *)
theory Handlers
  imports Ownership
begin

text \<open>
  Every handler that changes the maps refines a sequence of ownership steps. The first part
  says which operations leave the ownership view alone; the rest goes handler by handler.
\<close>

section \<open>Operations that leave ownership alone\<close>

lemma own_of_fields:
  "own_of a = own_of b \<Longrightarrow> sandboxes a = sandboxes b \<and> snapshots a = snapshots b \<and> network a = network b \<and> ids_of (wld a) = ids_of (wld b)
    \<and> retired_snapshots a = retired_snapshots b"
  by (simp add: own_of_def)

lemma own_of_sel [simp]:
  "os_sandboxes (own_of st) = sandboxes st" "os_snapshots (own_of st) = snapshots st" "os_net (own_of st) = network st"
  "os_ids (own_of st) = ids_of (wld st)" "os_retired (own_of st) = retired_snapshots st"
  by (simp_all add: own_of_def)

lemma own_of_upd [simp]:
  "own_of (st\<lparr>history := h\<rparr>) = own_of st" "own_of (st\<lparr>app_pools := p\<rparr>) = own_of st"
  "own_of (st\<lparr>jailer_ids := j\<rparr>) = own_of st" "own_of (st\<lparr>created_total := c\<rparr>) = own_of st"
  "own_of (st\<lparr>retired_snapshots := rs\<rparr>) = (own_of st)\<lparr>os_retired := rs\<rparr>" "own_of (st\<lparr>pending_image_boots := pb\<rparr>) = own_of st"
  "own_of (st\<lparr>pending_tap_restores := pt\<rparr>) = own_of st" "own_of (st\<lparr>wld := w\<rparr>) = (own_of st)\<lparr>os_ids := ids_of w\<rparr>"
  "own_of (st\<lparr>sandboxes := sbs\<rparr>) = (own_of st)\<lparr>os_sandboxes := sbs\<rparr>"
  "own_of (st\<lparr>snapshots := sns\<rparr>) = (own_of st)\<lparr>os_snapshots := sns\<rparr>"
  "own_of (st\<lparr>network := n\<rparr>) = (own_of st)\<lparr>os_net := n\<rparr>"
  by (simp_all add: own_of_def)

lemma own_same [simp]:
  "(own_of st)\<lparr>os_ids := ids_of (wld st)\<rparr> = own_of st" "(own_of st)\<lparr>os_retired := retired_snapshots st\<rparr> = own_of st"
  "(own_of st)\<lparr>os_sandboxes := S, os_net := network st\<rparr> = (own_of st)\<lparr>os_sandboxes := S\<rparr>"
  "(own_of st)\<lparr>os_sandboxes := S, os_net := n, os_snapshots := snapshots st\<rparr> = (own_of st)\<lparr>os_sandboxes := S, os_net := n\<rparr>"
  "(own_of st)\<lparr>os_snapshots := snapshots st, os_ids := k\<rparr> = (own_of st)\<lparr>os_ids := k\<rparr>"
  "(own_of st)\<lparr>os_ids := k, os_snapshots := snapshots st\<rparr> = (own_of st)\<lparr>os_ids := k\<rparr>"
  by (simp_all add: own_of_def)

lemma own_retired_first [simp]:
  "a\<lparr>os_ids := k, os_retired := rs\<rparr> = a\<lparr>os_retired := rs, os_ids := k\<rparr>"
  "a\<lparr>os_sandboxes := S, os_retired := rs\<rparr> = a\<lparr>os_retired := rs, os_sandboxes := S\<rparr>"
  "a\<lparr>os_snapshots := M, os_retired := rs\<rparr> = a\<lparr>os_retired := rs, os_snapshots := M\<rparr>"
  for a :: own
  by simp_all

lemma on_world_own:
  assumes "on_world f st = (r, st')" "\<And>w r w'. f w = (r, w') \<Longrightarrow> ids_of w' = ids_of w"
  shows "own_of st' = own_of st"
proof -
  obtain w' where "f (wld st) = (r, w')" "st' = st\<lparr>wld := w'\<rparr>"
    using assms(1) by (auto simp: on_world_def split: prod.splits)
  with assms(2) show ?thesis by simp
qed

lemma on_world_snd_own:
  assumes "\<And>w r w'. f w = (r, w') \<Longrightarrow> ids_of w' = ids_of w"
  shows "own_of (snd (on_world f st)) = own_of st"
  by (cases "on_world f st") (use on_world_own [OF _ assms] in simp)

named_theorems own_keeps

lemma on_world_keeps [own_keeps]:
  "on_world (on_fs g) st = (r0, st') \<Longrightarrow> own_of st' = own_of st"
  "on_world (vm_pause v) st = (r, st') \<Longrightarrow> own_of st' = own_of st"
  "on_world (vm_snapshot v m p) st = (r, st') \<Longrightarrow> own_of st' = own_of st"
  "on_world (vm_boot c) st = (r2, st') \<Longrightarrow> own_of st' = own_of st"
  "on_world (vm_call v q) st = (r3, st') \<Longrightarrow> own_of st' = own_of st"
  by (erule on_world_own; erule on_ids vm_ops_ids vm_boot_ids vm_call_ids)+

lemma app_clone_own [own_keeps]: "app_clone_rootfs a b st = (r, st') \<Longrightarrow> own_of st' = own_of st"
  unfolding app_clone_rootfs_def by (erule on_world_own) (erule on_ids(3))

lemma app_resume_own [own_keeps]: "app_resume_vm a b st = (r, st') \<Longrightarrow> own_of st' = own_of st"
  unfolding app_resume_vm_def by (erule on_world_own) (erule vm_resume_ids)

lemma app_apply_egress_own [own_keeps]: "app_apply_egress l p st = (r, st') \<Longrightarrow> own_of st' = own_of st"
  unfolding app_apply_egress_def by (erule on_world_own) (erule on_ids(2))

lemma own_of_ops [simp]:
  "own_of (app_stop v st) = own_of st" "own_of (app_remove_file p st) = own_of st"
  "own_of (app_remove_dir_all p st) = own_of st" "own_of (app_remove_egress l st) = own_of st"
  "own_of (snd (on_world (vm_force_stop v) st)) = own_of st" "own_of (snd (on_world (on_fs g) st)) = own_of st"
  "own_of (snd (on_world (update_metadata_retry n v md) st)) = own_of st"
  unfolding app_stop_def app_remove_file_def app_remove_dir_all_def app_remove_egress_def
  by (rule on_world_snd_own; erule vm_ops_ids on_ids update_metadata_retry_ids)+

lemma own_of_more [simp]:
  "own_of (app_record_ended i e s st) = own_of st" "own_of (app_record_created i req c st) = own_of st"
  "own_of (record_sandbox_created st) = own_of st" "own_of (release_pool_slot p st) = own_of st"
  "own_of (put_retired rt st) = (own_of st)\<lparr>os_retired := hm_insert (rt_id rt) rt (retired_snapshots st)\<rparr>"
  "own_of (cleanup_old_snapshot_dir d st) = own_of st"
  "own_of (release_pending_tap_restore t st) = own_of st"
  by (simp_all add: app_record_ended_def app_record_created_def record_sandbox_created_def release_pool_slot_def put_retired_def
      cleanup_old_snapshot_dir_def release_pending_tap_restore_def split: option.splits)

lemma own_of_guards [simp]:
  "own_of (release_jail_id j st) = own_of st" "own_of (release_image_boot im st) = own_of st"
  "own_of (reserve_image_boot im st) = own_of st"
  by (simp_all add: release_jail_id_def release_image_boot_def reserve_image_boot_def release_pending_image_boot_def
      reserve_pending_image_boot_def Let_def split: option.splits)

lemma own_of_reapply [simp]: "own_of (reapply_egress l p st) = own_of st"
proof (cases p)
  case (Some q)
  then show ?thesis
    by (cases "app_apply_egress l q st") (simp add: reapply_egress_def app_apply_egress_own)
qed (simp add: reapply_egress_def)

lemma own_of_maps [simp]:
  "own_of (drop_sandbox i st) = (own_of st)\<lparr>os_sandboxes := hm_remove i (sandboxes st)\<rparr>"
  "own_of (put_sandbox i s st) = (own_of st)\<lparr>os_sandboxes := hm_insert i s (sandboxes st)\<rparr>"
  "own_of (drop_snapshot i st) = (own_of st)\<lparr>os_snapshots := hm_remove i (snapshots st)\<rparr>"
  "own_of (put_snapshot i sn st) = (own_of st)\<lparr>os_snapshots := hm_insert i sn (snapshots st)\<rparr>"
  "own_of (set_fork i f st) = (own_of st)\<lparr>os_snapshots := hm_modify i (\<lambda>s. s\<lparr>forked_into := f\<rparr>) (snapshots st)\<rparr>"
  by (simp_all add: drop_sandbox_def put_sandbox_def drop_snapshot_def put_snapshot_def set_fork_def)

lemma own_of_release [simp]: "own_of (app_release l st) = (own_of st)\<lparr>os_net := release_to l (network st)\<rparr>"
proof -
  have "fst (release_net (network st) l (w_sys (wld st))) = release_to l (network st)"
    by (simp add: release_net_fst release_to_def lease_tap_def)
  then show ?thesis
    by (cases "release_net (network st) l (w_sys (wld st))") (auto simp: app_release_def own_of_def ids_of_def)
qed

lemma app_uuid_own: "app_uuid st = (i, st') \<Longrightarrow> i = fresh_id (own_of st) \<and> own_of st' = (own_of st)\<lparr>os_ids := next_ids (ids_of (wld st))\<rparr>"
  by (auto simp: app_uuid_def on_world_def new_uuid_def fresh_id_def next_ids_def ids_of_def own_of_def)

section \<open>Snapshot, stop, destroy\<close>

lemma snapshot_task_own: "snapshot_task v d sp mp st = (r, st') \<Longrightarrow> own_of st' = own_of st"
  unfolding snapshot_task_def by (auto split: prod.splits sum.splits dest!: own_keeps)

lemma check_snapshottable_ok: "check_snapshottable j src = Inr u \<longleftrightarrow> \<not> j \<and> src = None"
  by (auto simp: check_snapshottable_def split: option.splits)

text \<open>What \<^verbatim>\<open>snapshot_and_stop\<close> does to the ownership view, branch by branch.\<close>

lemma snapshot_and_stop_cases:
  assumes "snapshot_and_stop i st = (r, st')"
  obtains (missing) "hm_get i (sandboxes st) = None" "r = Inl SnapNotFound" "st' = st"
  | (blocked) s b where "hm_get i (sandboxes st) = Some s"
      "check_snapshottable (is_jailed (sb_vm s)) (source_snapshot_id s) = Inl b" "r = Inl (SnapBlocked b)" "st' = st"
  | (no_lease) s m where "hm_get i (sandboxes st) = Some s" "source_snapshot_id s = None" "sb_network s = None" "r = Inl (SnapPanic m)"
  | (failed) s l e where "hm_get i (sandboxes st) = Some s" "source_snapshot_id s = None" "sb_network s = Some l" "r = Inl (SnapIo e)"
      "own_of st' = (own_of st)\<lparr>os_sandboxes := hm_remove i (sandboxes st), os_net := release_to l (network st),
         os_ids := next_ids (ids_of (wld st))\<rparr>"
  | (suspended) s l sid now where "hm_get i (sandboxes st) = Some s" "source_snapshot_id s = None" "sb_network s = Some l" "r = Inr sid"
      "sid = fresh_id (own_of st)"
      "own_of st' = (own_of st)\<lparr>os_sandboxes := hm_remove i (sandboxes st),
         os_snapshots := hm_insert sid (snapshot_of_sandbox s l sid i now) (snapshots st), os_ids := next_ids (ids_of (wld st))\<rparr>"
proof (cases "hm_get i (sandboxes st)")
  case None
  with assms show thesis by (intro missing) (auto simp: snapshot_and_stop_def)
next
  case s: (Some s)
  show thesis
  proof (cases "check_snapshottable (is_jailed (sb_vm s)) (source_snapshot_id s)")
    case (Inl b)
    with s assms show thesis by (intro blocked [of s b]) (auto simp: snapshot_and_stop_def)
  next
    case c: (Inr u)
    then have src: "source_snapshot_id s = None" by (simp add: check_snapshottable_ok)
    define st1 where "st1 = release_pool_slot (source_pool_id s) (drop_sandbox i st)"
    have o1: "own_of st1 = (own_of st)\<lparr>os_sandboxes := hm_remove i (sandboxes st)\<rparr>" by (simp add: st1_def)
    show thesis
    proof (cases "sb_network s")
      case None
      with s c src assms show thesis by (intro no_lease [of s]) (auto simp: snapshot_and_stop_def)
    next
      case l: (Some l)
      obtain sid st2 where u: "app_uuid st1 = (sid, st2)" by (cases "app_uuid st1")
      let ?dir = "snapshot_dir sid"
      have sid: "sid = fresh_id (own_of st)" and o2: "own_of st2 = (own_of st1)\<lparr>os_ids := next_ids (ids_of (wld st))\<rparr>"
        using app_uuid_own [OF u] own_of_fields [of st1 st1] arg_cong [OF o1, of os_ids] by (simp_all add: fresh_id_def)
      obtain r3 st3 where t: "snapshot_task (sb_vm s) ?dir (state_path ?dir) (mem_path ?dir) st2 = (r3, st3)"
        by (cases "snapshot_task (sb_vm s) ?dir (state_path ?dir) (mem_path ?dir) st2")
      note o3 = snapshot_task_own [OF t]
      let ?snap = "snapshot_of_sandbox s l sid i (app_now st3)"
      obtain r4 st4 where p: "on_world (on_fs (snapshot_persist (app_codec st3) ?snap ?dir)) st3 = (r4, st4)"
        by (cases "on_world (on_fs (snapshot_persist (app_codec st3) ?snap ?dir)) st3")
      note o4 = on_world_keeps(1) [OF p]
      have f3: "sandboxes st3 = hm_remove i (sandboxes st)" "snapshots st3 = snapshots st" "network st3 = network st"
        using arg_cong [OF o3, of os_sandboxes] arg_cong [OF o3, of os_snapshots] arg_cong [OF o3, of os_net] by (simp_all add: o2 o1)
      have f4: "sandboxes st4 = hm_remove i (sandboxes st)" "snapshots st4 = snapshots st" "network st4 = network st"
        using f3 own_of_fields [OF o4] by simp_all
      show thesis
      proof (cases r3)
        case (Inl e)
        with assms s c l u t have "r = Inl (SnapIo e)"
          "st' = app_remove_file (sb_rootfs_path s) (app_release l (app_remove_egress l (app_remove_dir_all ?dir st3)))"
          by (simp_all add: snapshot_and_stop_def st1_def Let_def)
        moreover have "network (app_remove_egress l (app_remove_dir_all ?dir st3)) = network st"
          using own_of_fields [of "app_remove_egress l (app_remove_dir_all ?dir st3)" st3] f3 by simp
        ultimately show thesis by (intro failed [OF s src l]) (simp_all add: o3 o2 o1)
      next
        case (Inr v)
        show thesis
        proof (cases r4)
          case (Inl e)
          with assms s c l u t p Inr have "r = Inl (SnapIo e)"
            "st' = app_remove_file (sb_rootfs_path s) (app_release l (app_remove_dir_all ?dir st4))"
            by (simp_all add: snapshot_and_stop_def st1_def Let_def)
          moreover have "network (app_remove_dir_all ?dir st4) = network st"
            using own_of_fields [of "app_remove_dir_all ?dir st4" st4] f4 by simp
          ultimately show thesis by (intro failed [OF s src l]) (simp_all add: o4 o3 o2 o1)
        next
          case (Inr v2)
          with assms s c l u t p \<open>r3 = Inr v\<close> have "r = Inr sid"
            "st' = app_record_ended i Snapshotted (Some sid) (put_snapshot sid ?snap st4)"
            by (simp_all add: snapshot_and_stop_def st1_def Let_def)
          then show thesis by (intro suspended [OF s src l _ sid, of "app_now st3"]) (simp_all add: o4 o3 o2 o1 f4)
        qed
      qed
    qed
  qed
qed

lemma own_inv_forks: "own_inv (own_of st) \<Longrightarrow> hm_get i (sandboxes st) = Some s \<Longrightarrow> fork_locked (snapshots st) i s"
  by (simp add: own_inv_def forks_locked_def)

lemma snapshot_and_stop_steps:
  assumes "snapshot_and_stop i st = (r, st')" "own_inv (own_of st)"
  shows "own_steps N (own_of st) (own_of st')" "r \<noteq> Inl (SnapPanic m)"
proof -
  have "own_steps N (own_of st) (own_of st') \<and> r \<noteq> Inl (SnapPanic m)"
    using assms(1)
  proof (cases rule: snapshot_and_stop_cases)
    case (no_lease s)
    with own_inv_forks [OF assms(2)] show ?thesis by (force simp: fork_locked_def)
  next
    case (failed s l e)
    let ?a = "own_of st"
    from destroy [of i ?a s N] failed(1,2,3)
    have "own_step N ?a (?a\<lparr>os_sandboxes := hm_remove i (sandboxes st), os_net := release_to l (network st)\<rparr>)"
      by (simp add: release_opt_def unlock_source_def own_of_def)
    moreover have "own_step N (?a\<lparr>os_sandboxes := hm_remove i (sandboxes st), os_net := release_to l (network st)\<rparr>) (own_of st')"
      using draw [of N "?a\<lparr>os_sandboxes := hm_remove i (sandboxes st), os_net := release_to l (network st)\<rparr>"] failed(5) by simp
    ultimately show ?thesis using failed(4) by (auto intro: own_steps_trans)
  next
    case (suspended s l sid now)
    with suspend [of i "own_of st" s "snapshot_of_sandbox s l sid i now" N] show ?thesis
      by (auto simp: snapshot_of_sandbox_def)
  qed auto
  then show "own_steps N (own_of st) (own_of st')" "r \<noteq> Inl (SnapPanic m)" by auto
qed

lemma destroy_sandbox_own:
  "destroy_sandbox_by_id i st = (r, st') \<Longrightarrow>
     (case hm_get i (sandboxes st) of
        None \<Rightarrow> r = Inl StopNotFound \<and> st' = st
      | Some s \<Rightarrow> r = Inr StopDestroyed \<and> own_of st' = (own_of st)\<lparr>os_sandboxes := hm_remove i (sandboxes st),
          os_net := release_opt (sb_network s) (network st), os_snapshots := unlock_source (source_snapshot_id s) (snapshots st)\<rparr>)"
proof (cases "hm_get i (sandboxes st)")
  case (Some s)
  assume d: "destroy_sandbox_by_id i st = (r, st')"
  define st2 where "st2 = app_stop (sb_vm s) (release_pool_slot (source_pool_id s) (drop_sandbox i st))"
  define st3 where "st3 = (case sb_network s of None \<Rightarrow> st2 | Some l \<Rightarrow> app_release l (app_remove_egress l st2))"
  define st4 where "st4 = release_jail_id (sb_jail_id s) (app_remove_file (sb_rootfs_path s) st3)"
  have o2: "own_of st2 = (own_of st)\<lparr>os_sandboxes := hm_remove i (sandboxes st)\<rparr>" by (simp add: st2_def)
  have "network (app_remove_egress l st2) = network st" for l
    using own_of_fields [of "app_remove_egress l st2" st2] arg_cong [OF o2, of os_net] by simp
  then have o3: "own_of st3 = (own_of st)\<lparr>os_sandboxes := hm_remove i (sandboxes st), os_net := release_opt (sb_network s) (network st)\<rparr>"
    by (simp add: st3_def o2 release_opt_def split: option.splits)
  have o4: "own_of st4 = own_of st3" by (simp add: st4_def)
  have "snapshots st4 = snapshots st" using arg_cong [OF o4, of os_snapshots] arg_cong [OF o3, of os_snapshots] by simp
  then have "own_of (case source_snapshot_id s of None \<Rightarrow> st4 | Some sid \<Rightarrow> set_fork sid None st4) =
      (own_of st)\<lparr>os_sandboxes := hm_remove i (sandboxes st), os_net := release_opt (sb_network s) (network st),
        os_snapshots := unlock_source (source_snapshot_id s) (snapshots st)\<rparr>"
    using o4 o3 by (simp add: unlock_source_def split: option.splits)
  moreover have "r = Inr StopDestroyed"
    "st' = app_record_ended i Destroyed None (case source_snapshot_id s of None \<Rightarrow> st4 | Some sid \<Rightarrow> set_fork sid None st4)"
    using d Some unfolding st4_def st3_def st2_def by (simp_all add: destroy_sandbox_by_id_def Let_def)
  ultimately show ?thesis using Some by simp
qed (auto simp: destroy_sandbox_by_id_def)

lemma destroy_sandbox_steps:
  assumes "destroy_sandbox_by_id i st = (r, st')"
  shows "own_steps N (own_of st) (own_of st')"
proof (cases "hm_get i (sandboxes st)")
  case (Some s)
  with destroy_sandbox_own [OF assms] destroy [of i "own_of st" s N] show ?thesis by auto
qed (use destroy_sandbox_own [OF assms] in simp)

lemma stop_sandbox_by_id_steps:
  assumes "stop_sandbox_by_id i keep st = (r, st')" "own_inv (own_of st)"
  shows "own_steps N (own_of st) (own_of st')"
proof (cases keep)
  case True
  obtain r1 st1 where s: "snapshot_and_stop i st = (r1, st1)" by (cases "snapshot_and_stop i st")
  note S = snapshot_and_stop_steps(1) [OF s assms(2), of N]
  show ?thesis
    using assms(1) True s S own_steps_trans [OF S destroy_sandbox_steps]
    by (auto simp: stop_sandbox_by_id_def split: sum.splits snapshot_stop_error.splits snapshot_blocked.splits)
qed (use assms(1) destroy_sandbox_steps in \<open>simp add: stop_sandbox_by_id_def\<close>)

section \<open>Resume\<close>

text \<open>The retired checkpoints after a snapshot is resumed: with its history kept, one more with its identity and drives.\<close>

definition retired_from :: "snapshot \<Rightarrow> retired_snapshot hash_map \<Rightarrow> retired_snapshot hash_map \<Rightarrow> bool" where
  "retired_from sn rs rs' \<longleftrightarrow> rs' = rs \<or>
     (\<exists>k r. rs' = hm_insert k r rs \<and> tap_device (rt_network r) = lease_tap (sn_network sn) \<and> rt_attached_drives r = sn_attached_drives sn)"

lemma retire_own:
  "retire_snapshot_files n s d st = (r, st') \<Longrightarrow> own_of st' = own_of st
     \<and> (\<forall>p q. r = Inr (p, q) \<longrightarrow> tap_device (rt_network q) = lease_tap (sn_network s) \<and> rt_attached_drives q = sn_attached_drives s)"
  unfolding retire_snapshot_files_def Let_def
  by (auto simp: retired_of_snapshot_def lease_tap_def split: prod.splits sum.splits dest!: own_keeps)

lemma settle_own:
  assumes "settle_checkpoint b n s d st = (r, st')"
  obtains rs where "own_of st' = (own_of st)\<lparr>os_retired := rs\<rparr>" "retired_from s (retired_snapshots st) rs"
proof (cases "own_of st' = own_of st")
  case True
  then show thesis by (intro that [of "retired_snapshots st"]) (simp_all add: retired_from_def own_of_def)
next
  case False
  then obtain p q st1 where f: "retire_snapshot_files n s d st = (Inr (p, q), st1)" and st': "st' = put_retired q st1"
    using assms by (auto simp: settle_checkpoint_def split: if_splits prod.splits sum.splits dest: retire_own)
  note R = retire_own [OF f]
  with st' own_of_fields [OF conjunct1 [OF R]] show thesis
    by (intro that [of "hm_insert (rt_id q) q (retired_snapshots st)"]) (auto simp: retired_from_def)
qed

lemma check_no_live_fork_ok: "check_no_live_fork f i a = Inr u \<longleftrightarrow> f = None"
  by (simp add: check_no_live_fork_def split: option.splits)

lemma resume_cases:
  assumes "resume_snapshot_by_id sid retain st = (r, st')"
  obtains (refused) e where "r = Inl e" "st' = st"
      "\<And>sn. hm_get sid (snapshots st) = Some sn \<Longrightarrow> forked_into sn \<noteq> None"
  | (failed) sn e where "hm_get sid (snapshots st) = Some sn" "forked_into sn = None" "r = Inl (Internal e)"
      "own_of st' = (own_of st)\<lparr>os_snapshots := hm_insert sid sn (snapshots st), os_ids := next_ids (ids_of (wld st))\<rparr>"
  | (resumed) sn v rootfs now inst new_id rs where "hm_get sid (snapshots st) = Some sn" "forked_into sn = None" "r = Inr new_id"
      "new_id = fresh_id (own_of st)"
      "own_of st' = (own_of st)\<lparr>os_retired := rs, os_snapshots := hm_remove sid (snapshots st),
         os_sandboxes := hm_insert new_id (resumed_sandbox new_id v rootfs sid sn now inst) (sandboxes st),
         os_ids := next_ids (ids_of (wld st))\<rparr>" "retired_from sn (retired_snapshots st) rs"
proof (cases "hm_get sid (snapshots st)")
  case None
  with assms show thesis by (intro refused [of "SandboxNotFound sid"]) (auto simp: resume_snapshot_by_id_def)
next
  case sn: (Some sn)
  show thesis
  proof (cases "check_no_live_fork (forked_into sn) sid ''resuming''")
    case (Inl e)
    then have "forked_into sn \<noteq> None" by (auto simp: check_no_live_fork_def split: option.splits)
    with Inl sn assms show thesis by (intro refused [of e]) (auto simp: resume_snapshot_by_id_def)
  next
    case c: (Inr u)
    then have free: "forked_into sn = None" by (simp add: check_no_live_fork_ok)
    obtain new_id st1 where u: "app_uuid (drop_snapshot sid st) = (new_id, st1)" by (cases "app_uuid (drop_snapshot sid st)")
    obtain r2 st2 where v: "app_resume_vm (sn_snapshot_path sn) (sn_mem_file_path sn) st1 = (r2, st2)"
      by (cases "app_resume_vm (sn_snapshot_path sn) (sn_mem_file_path sn) st1")
    have "wld (drop_snapshot sid st) = wld st" by (simp add: drop_snapshot_def)
    then have id: "new_id = fresh_id (own_of st)" and o1: "own_of st1 = (own_of st)\<lparr>os_snapshots := hm_remove sid (snapshots st),
        os_ids := next_ids (ids_of (wld st))\<rparr>"
      using app_uuid_own [OF u] by (simp_all add: fresh_id_def)
    note o2 = app_resume_own [OF v]
    have f2: "snapshots st2 = hm_remove sid (snapshots st)"
      using arg_cong [OF o2, of os_snapshots] by (simp add: o1)
    show thesis
    proof (cases r2)
      case (Inl e)
      with assms sn c u v have "r = Inl (Internal e)" "st' = put_snapshot sid sn st2"
        by (simp_all add: resume_snapshot_by_id_def Let_def)
      then show thesis by (intro failed [OF sn free]) (simp_all add: o2 o1 f2)
    next
      case v': (Inr vm)
      let ?old = "parent_path (sn_snapshot_path sn)"
      obtain rootfs st3 where t: "settle_checkpoint retain new_id sn ?old st2 = (rootfs, st3)"
        by (cases "settle_checkpoint retain new_id sn ?old st2")
      from settle_own [OF t] obtain rs where o3: "own_of st3 = (own_of st2)\<lparr>os_retired := rs\<rparr>"
        and rs: "retired_from sn (retired_snapshots st2) rs" .
      have r2: "retired_snapshots st2 = retired_snapshots st" using arg_cong [OF o2, of os_retired] by (simp add: o1)
      have f3: "sandboxes st3 = sandboxes st"
        using arg_cong [OF o3, of os_sandboxes] by (simp add: o2 o1)
      have "r = Inr new_id" "st' = reapply_egress (sn_network sn) (sn_egress sn)
          (put_sandbox new_id (resumed_sandbox new_id vm rootfs sid sn (app_now st3) (w_now (wld st3))) st3)"
        using assms sn c u v v' t by (simp_all add: resume_snapshot_by_id_def Let_def)
      then show thesis
        by (intro resumed [where v = vm and rootfs = rootfs and now = "app_now st3" and inst = "w_now (wld st3)" and rs = rs, OF sn free _ id])
          (use rs r2 in \<open>simp_all add: o3 o2 o1 f3\<close>)
    qed
  qed
qed

lemma resume_steps:
  assumes "resume_snapshot_by_id sid retain st = (r, st')"
  shows "own_steps N (own_of st) (own_of st')"
  using assms
proof (cases rule: resume_cases)
  case (failed sn e)
  let ?a = "own_of st"
  have "own_step N ?a (?a\<lparr>os_snapshots := hm_insert sid sn (snapshots st)\<rparr>)"
    using rewrite [of sid ?a sn sn N] failed(1) by simp
  moreover have "own_step N (?a\<lparr>os_snapshots := hm_insert sid sn (snapshots st)\<rparr>) (own_of st')"
    using draw [of N "?a\<lparr>os_snapshots := hm_insert sid sn (snapshots st)\<rparr>"] failed(4) by simp
  ultimately show ?thesis by (auto intro: own_steps_trans)
next
  case (resumed sn v rootfs now inst new_id rs)
  let ?a = "(own_of st)\<lparr>os_retired := rs\<rparr>"
  have "own_steps N (own_of st) ?a"
    using resumed(6) retire [of sid "own_of st" sn _ N] resumed(1) unfolding retired_from_def by (auto simp: own_same)
  moreover have "own_step N ?a (own_of st')"
    using resume [of sid ?a sn "resumed_sandbox new_id v rootfs sid sn now inst" N] resumed(1-5)
    by (simp add: resumed_sandbox_def fresh_id_def)
  ultimately show ?thesis by (auto intro: own_steps_trans)
qed auto

section \<open>Fork, delete, archive\<close>

lemma fork_cases:
  assumes "fork_snapshot sid st = (r, st')" "hm_wf (snapshots st)"
  obtains (failed) e where "r = Inl e" "own_of st' = (own_of st)\<lparr>os_ids := next_ids (ids_of (wld st))\<rparr>"
  | (forked) sn v rootfs now inst where "r = Inr (fresh_id (own_of st))" "hm_get sid (snapshots st) = Some sn" "forked_into sn = None"
      "own_of st' = (own_of st)\<lparr>os_snapshots := hm_modify sid (\<lambda>x. x\<lparr>forked_into := Some (fresh_id (own_of st))\<rparr>) (snapshots st),
         os_sandboxes := hm_insert (fresh_id (own_of st))
           (forked_sandbox (fresh_id (own_of st)) v rootfs sid (sn\<lparr>forked_into := Some (fresh_id (own_of st))\<rparr>) now inst) (sandboxes st),
         os_ids := next_ids (ids_of (wld st))\<rparr>"
proof -
  obtain new_id st0 where u: "app_uuid st = (new_id, st0)" by (cases "app_uuid st")
  have id: "new_id = fresh_id (own_of st)" and o0: "own_of st0 = (own_of st)\<lparr>os_ids := next_ids (ids_of (wld st))\<rparr>"
    using app_uuid_own [OF u] by simp_all
  have sn0: "snapshots st0 = snapshots st" using arg_cong [OF o0, of os_snapshots] by simp
  show thesis
  proof (cases "hm_get sid (snapshots st)")
    case None
    with assms(1) u sn0 have "r = Inl (SandboxNotFound sid)" "st' = st0" by (simp_all add: fork_snapshot_def)
    with o0 show thesis by (intro failed) simp_all
  next
    case sn: (Some sn)
    show thesis
    proof (cases "check_no_live_fork (forked_into sn) sid ''forking''")
      case (Inl e)
      with assms(1) u sn0 sn have "r = Inl e" "st' = st0" by (simp_all add: fork_snapshot_def)
      with o0 show thesis by (intro failed) simp_all
    next
      case c: (Inr x)
      then have free: "forked_into sn = None" by (simp add: check_no_live_fork_ok)
      define st1 where "st1 = set_fork sid (Some new_id) st0"
      have o1: "own_of st1 = (own_of st)\<lparr>os_snapshots := hm_modify sid (\<lambda>x. x\<lparr>forked_into := Some new_id\<rparr>) (snapshots st),
          os_ids := next_ids (ids_of (wld st))\<rparr>"
        by (simp add: st1_def o0 sn0)
      have undo: "own_of (set_fork sid None b) = (own_of st)\<lparr>os_ids := next_ids (ids_of (wld st))\<rparr>" if "own_of b = own_of st1" for b
      proof -
        have "hm_modify sid (\<lambda>x. x\<lparr>forked_into := None\<rparr>) (snapshots st) = snapshots st"
          using hm_modify_id [of "snapshots st" sid sn "\<lambda>x. x\<lparr>forked_into := None\<rparr>"] sn free assms(2) by (cases sn) simp
        moreover have "snapshots b = hm_modify sid (\<lambda>x. x\<lparr>forked_into := Some new_id\<rparr>) (snapshots st)"
          using arg_cong [OF that, of os_snapshots] by (simp add: o1)
        ultimately show ?thesis using that by (simp add: o1 hm_modify_twice comp_def)
      qed
      obtain r2 st2 where v: "app_resume_vm (sn_snapshot_path sn) (sn_mem_file_path sn) st1 = (r2, st2)"
        by (cases "app_resume_vm (sn_snapshot_path sn) (sn_mem_file_path sn) st1")
      note o2 = app_resume_own [OF v]
      show thesis
      proof (cases r2)
        case (Inl e)
        with assms(1) u sn0 sn c v have "r = Inl (Internal e)" "st' = set_fork sid None st2" by (simp_all add: fork_snapshot_def st1_def)
        with undo [OF o2] show thesis by (intro failed) simp_all
      next
        case v': (Inr vm)
        obtain r3 st3 where k: "app_clone_rootfs (sn_rootfs_path sn) (rootfs_path_for new_id) st2 = (r3, st3)"
          by (cases "app_clone_rootfs (sn_rootfs_path sn) (rootfs_path_for new_id) st2")
        note o3 = app_clone_own [OF k]
        show thesis
        proof (cases r3)
          case (Inl e)
          with assms(1) u sn0 sn c v v' k have "r = Inl (Internal e)" "st' = set_fork sid None (app_stop vm st3)"
            by (simp_all add: fork_snapshot_def st1_def)
          with undo [of "app_stop vm st3"] o3 o2 show thesis by (intro failed) simp_all
        next
          case k': (Inr x)
          let ?sn = "sn\<lparr>forked_into := Some new_id\<rparr>"
          let ?s = "forked_sandbox new_id vm (rootfs_path_for new_id) sid ?sn (app_now st3) (w_now (wld st3))"
          have f3: "snapshots st3 = hm_modify sid (\<lambda>x. x\<lparr>forked_into := Some new_id\<rparr>) (snapshots st)" "sandboxes st3 = sandboxes st"
            using arg_cong [OF o3, of os_snapshots] arg_cong [OF o3, of os_sandboxes] by (simp_all add: o2 o1)
          then have "hm_get sid (snapshots st3) = Some ?sn" using sn by simp
          then have "r = Inr new_id" "st' = reapply_egress (sn_network ?sn) (sn_egress ?sn) (put_sandbox new_id ?s st3)"
            using assms(1) u sn0 sn c v v' k k' by (simp_all add: fork_snapshot_def st1_def)
          then show thesis
            by (intro forked [OF _ sn free, of vm "rootfs_path_for new_id" "app_now st3" "w_now (wld st3)"])
              (simp_all add: id [symmetric] o3 o2 o1 f3)
        qed
      qed
    qed
  qed
qed

lemma fork_steps:
  assumes "fork_snapshot sid st = (r, st')" "own_inv (own_of st)"
  shows "own_steps N (own_of st) (own_of st')"
proof -
  have "hm_wf (snapshots st)" using assms(2) by (simp add: own_inv_def)
  with assms(1) show ?thesis
  proof (cases rule: fork_cases)
    case (failed e)
    with draw [of N "own_of st"] show ?thesis by auto
  next
    case (forked sn v rootfs now inst)
    with fork [of sid "own_of st" sn "forked_sandbox (fresh_id (own_of st)) v rootfs sid
        (sn\<lparr>forked_into := Some (fresh_id (own_of st))\<rparr>) now inst" N] show ?thesis by (auto simp: forked_sandbox_def)
  qed
qed

lemma delete_own:
  "delete_snapshot_by_id sid st = (r, st') \<Longrightarrow>
     (case hm_get sid (snapshots st) of
        None \<Rightarrow> st' = st
      | Some sn \<Rightarrow> if forked_into sn \<noteq> None then st' = st
          else own_of st' = (own_of st)\<lparr>os_snapshots := hm_remove sid (snapshots st), os_net := release_to (sn_network sn) (network st)\<rparr>)"
proof (cases "hm_get sid (snapshots st)")
  case (Some sn)
  assume d: "delete_snapshot_by_id sid st = (r, st')"
  have "network (app_remove_egress (sn_network sn) (drop_snapshot sid st)) = network st"
    using own_of_fields [of "app_remove_egress (sn_network sn) (drop_snapshot sid st)" "drop_snapshot sid st"]
    by (simp add: drop_snapshot_def)
  with d Some show ?thesis
    by (auto simp: delete_snapshot_by_id_def check_no_live_fork_def Let_def split: option.splits)
qed (simp add: delete_snapshot_by_id_def)

lemma delete_steps: "delete_snapshot_by_id sid st = (r, st') \<Longrightarrow> own_steps N (own_of st) (own_of st')"
  using delete_own [of sid st r st'] delete [of sid "own_of st" _ N]
  by (auto split: option.splits if_splits)

lemma move_snapshot_files_keeps:
  "move_snapshot_files s d f = (r, s', f') \<Longrightarrow> sn_network s' = sn_network s \<and> sn_name s' = sn_name s \<and> forked_into s' = forked_into s \<and> sn_id s' = sn_id s
    \<and> sn_attached_drives s' = sn_attached_drives s"
  by (auto simp: move_snapshot_files_def Let_def split: prod.splits sum.splits)

lemma archive_task_own:
  assumes "archive_task s d old st = (r, s', st')"
  shows "own_of st' = own_of st \<and> sn_network s' = sn_network s \<and> sn_name s' = sn_name s \<and> forked_into s' = forked_into s \<and> sn_id s' = sn_id s
    \<and> sn_attached_drives s' = sn_attached_drives s"
proof -
  obtain r1 s1 st1 where m: "on_world (on_fs (\<lambda>f. case move_snapshot_files s d f of (r, s1, f1) \<Rightarrow> ((r, s1), f1))) st = ((r1, s1), st1)"
    by (cases "on_world (on_fs (\<lambda>f. case move_snapshot_files s d f of (r, s1, f1) \<Rightarrow> ((r, s1), f1))) st") auto
  note o1 = on_world_keeps(1) [OF m]
  have "sn_network s1 = sn_network s \<and> sn_name s1 = sn_name s \<and> forked_into s1 = forked_into s \<and> sn_id s1 = sn_id s
      \<and> sn_attached_drives s1 = sn_attached_drives s"
    using m by (auto simp: on_world_def on_fs_def split: prod.splits dest!: move_snapshot_files_keeps)
  with assms m o1 show ?thesis
    by (auto simp: archive_task_def Let_def split: sum.splits prod.splits dest!: on_world_keeps(1))
qed

lemma archive_steps:
  assumes "archive_snapshot_by_id sid root st = (r, st')"
  shows "own_steps N (own_of st) (own_of st')"
proof (cases "hm_get sid (snapshots st)")
  case (Some sn)
  show ?thesis
  proof (cases "forked_into sn")
    case None
    obtain r1 s1 st1 where t: "archive_task sn (archive_snapshot_dir root sid) (parent_path (sn_snapshot_path sn)) (drop_snapshot sid st) = (r1, s1, st1)"
      by (cases "archive_task sn (archive_snapshot_dir root sid) (parent_path (sn_snapshot_path sn)) (drop_snapshot sid st)")
    note T = archive_task_own [OF t]
    have "snapshots st1 = hm_remove sid (snapshots st)" using own_of_fields [of st1 "drop_snapshot sid st"] T by (simp add: drop_snapshot_def)
    moreover have "st' = put_snapshot sid s1 st1"
      using assms Some None t by (simp add: archive_snapshot_by_id_def split: sum.splits)
    ultimately have "own_of st' = (own_of st)\<lparr>os_snapshots := hm_insert sid s1 (snapshots st)\<rparr>" using T by simp
    with rewrite [of sid "own_of st" sn s1 N] Some T show ?thesis by auto
  next
    case (Some h)
    with assms \<open>hm_get sid (snapshots st) = Some sn\<close> show ?thesis by (simp add: archive_snapshot_by_id_def)
  qed
qed (use assms in \<open>simp add: archive_snapshot_by_id_def\<close>)

section \<open>Restore\<close>

lemma in_hm_sum: "hm_wf m \<Longrightarrow> x \<in># hm_sum g m \<longleftrightarrow> (\<exists>v \<in> set (hm_values m). x \<in># g v)"
  by (force simp: hm_sum_def hm_values_def)

lemma held_taps_free:
  "own_inv (own_of st) \<Longrightarrow> tap_device_holder t st = None \<Longrightarrow> t \<notin># held_taps (own_of st)"
  by (auto simp: held_taps_def in_hm_sum own_inv_def tap_free_iff sandbox_taps_def snapshot_taps_def split: option.splits)

lemma held_names_free:
  "own_inv (own_of st) \<Longrightarrow> name_holder n st = None \<Longrightarrow> n \<notin># held_names (own_of st)"
  by (auto simp: held_names_def in_hm_sum own_inv_def name_free_iff held_name_def snapshot_name_def opt_mset_def split: option.splits if_splits)

lemma restore_reserved_steps:
  assumes "restore_reserved rt st = (r, st')" "own_inv (own_of st)" "tap_device (rt_network rt) \<notin># held_taps (own_of st)"
    "set_option (rt_name rt) \<subseteq> N" "hm_get k (retired_snapshots st) = Some rt"
  shows "own_steps N (own_of st) (own_of st')"
proof (cases "case rt_name rt of None \<Rightarrow> None | Some n \<Rightarrow> map_option (Pair n) (name_holder n st)")
  case (Some nh)
  with assms(1) show ?thesis by (cases nh) (simp add: restore_reserved_def)
next
  case free: None
  obtain new_id st1 where u: "app_uuid st = (new_id, st1)" by (cases "app_uuid st")
  have id: "new_id = fresh_id (own_of st)" and o1: "own_of st1 = (own_of st)\<lparr>os_ids := next_ids (ids_of (wld st))\<rparr>"
    using app_uuid_own [OF u] by simp_all
  have drawn: "own_steps N (own_of st) (own_of b)" if "own_of b = own_of st1" for b
    using draw [of N "own_of st"] o1 that by auto
  obtain r2 st2 where k: "app_clone_rootfs (rt_rootfs_path rt) (rootfs_path_for new_id) st1 = (r2, st2)"
    by (cases "app_clone_rootfs (rt_rootfs_path rt) (rootfs_path_for new_id) st1")
  note o2 = app_clone_own [OF k]
  show ?thesis
  proof (cases r2)
    case (Inl e)
    with assms(1) free u k have "st' = st2" by (simp add: restore_reserved_def)
    with drawn [OF o2] show ?thesis by simp
  next
    case k': (Inr x)
    obtain r3 st3 where v: "app_resume_vm (rt_snapshot_path rt) (rt_mem_file_path rt) st2 = (r3, st3)"
      by (cases "app_resume_vm (rt_snapshot_path rt) (rt_mem_file_path rt) st2")
    note o3 = app_resume_own [OF v]
    show ?thesis
    proof (cases r3)
      case (Inl e)
      with assms(1) free u k k' v have "st' = app_remove_file (rootfs_path_for new_id) st3" by (simp add: restore_reserved_def)
      with drawn [of st'] o3 o2 show ?thesis by simp
    next
      case v': (Inr vm)
      let ?l = "\<lparr>lease_config = rt_network rt, host_octet = rt_host_octet rt\<rparr>"
      define net where "net = snd (reserve (network st3) (rt_network rt) (rt_host_octet rt))"
      let ?s = "restored_sandbox new_id vm ?l (rootfs_path_for new_id) rt (app_now st3) (w_now (wld st3))"
      have f3: "network st3 = network st" "sandboxes st3 = sandboxes st"
        using own_of_fields [OF o3] own_of_fields [OF o2] arg_cong [OF o1, of os_net] arg_cong [OF o1, of os_sandboxes] by simp_all
      have "st' = reapply_egress ?l (rt_egress rt) (put_sandbox new_id ?s (st3\<lparr>network := net\<rparr>))"
        using assms(1) free u k k' v v' by (simp add: restore_reserved_def reserve_eq net_def app_now_def)
      then have o': "own_of st' = (own_of st)\<lparr>os_sandboxes := hm_insert new_id ?s (sandboxes st), os_net := net,
          os_ids := next_ids (ids_of (wld st))\<rparr>"
        by (simp add: o3 o2 o1 f3)
      let ?a = "own_of st"
      have "own_step N ?a (?a\<lparr>os_sandboxes := hm_insert (fresh_id ?a) ?s (os_sandboxes ?a), os_net := net, os_ids := next_ids (os_ids ?a)\<rparr>)"
      proof (rule restore [of ?l])
        show "lease_tap ?l \<notin># held_taps (own_of st)" using assms(3) by (simp add: lease_tap_def)
        show "free_taps net = remove1 (lease_tap ?l) (free_taps (os_net ?a))" by (simp add: net_def reserve_eq f3 lease_tap_def)
        show "source_snapshot_id ?s = None" "sb_network ?s = Some ?l" "sb_id ?s = fresh_id ?a"
          by (simp_all add: restored_sandbox_def id)
        show "hm_get k (os_retired (own_of st)) = Some rt" "tap_device (rt_network rt) = lease_tap ?l"
          "sb_attached_drives ?s = rt_attached_drives rt"
          using assms(5) by (simp_all add: restored_sandbox_def lease_tap_def)
        show "name_allowed N (own_of st) ?s"
          using free assms(2,4) held_names_free by (auto simp: name_allowed_def restored_sandbox_def)
      qed
      then show ?thesis using o' id by auto
    qed
  qed
qed

lemma restore_steps:
  assumes "restore_snapshot_history_by_id i st = (r, st')" "own_inv (own_of st)"
  shows "own_steps UNIV (own_of st) (own_of st')"
proof (cases "hm_get i (retired_snapshots st)")
  case (Some rt)
  let ?t = "tap_device (rt_network rt)"
  show ?thesis
  proof (cases "tap_device_holder ?t st")
    case None
    obtain b st1 where p: "try_reserve_pending_tap_restore ?t st = (b, st1)" by (cases "try_reserve_pending_tap_restore ?t st")
    then have o1: "own_of st1 = own_of st" by (auto simp: try_reserve_pending_tap_restore_def)
    obtain r2 st2 where q: "restore_reserved rt st1 = (r2, st2)" by (cases "restore_reserved rt st1")
    have "own_steps UNIV (own_of st1) (own_of st2)"
      by (rule restore_reserved_steps [OF q]) (use assms(2) Some held_taps_free [OF assms(2) None] own_of_fields [OF o1] in \<open>simp_all add: o1\<close>)
    with assms(1) Some None p q o1 show ?thesis
      by (cases b) (auto simp: restore_snapshot_history_by_id_def)
  qed (use assms(1) Some in \<open>simp add: restore_snapshot_history_by_id_def\<close>)
qed (use assms(1) in \<open>simp add: restore_snapshot_history_by_id_def\<close>)

lemma forget_steps: "own_steps N (own_of st) (own_of (snd (delete_snapshot_history i st)))"
  using forget [of N "own_of st" i] by (auto simp: delete_snapshot_history_def Let_def split: option.splits)

end
