(* ===== verification/HandlersCreate.thy ===== *)
theory HandlersCreate
  imports Handlers
begin

text \<open>
  The creating handlers refine ownership steps too: cold boots, pool claims, the replenisher,
  and the routes that go through a name.
\<close>

section \<open>Cold boot\<close>

lemma app_lease_own:
  assumes "app_lease st = (r, st')"
  shows "\<exists>m. own_of st' = (own_of st)\<lparr>os_net := m\<rparr> \<and>
    (case r of
       Inl _ \<Rightarrow> mset (free_taps m) = mset (free_taps (network st))
     | Inr l \<Rightarrow> add_mset (lease_tap l) (mset (free_taps m)) = mset (free_taps (network st)))"
proof -
  obtain m s where l: "lease_net (network st) (w_sys (wld st)) = (r, m, s)" "st' = st\<lparr>network := m, wld := (wld st)\<lparr>w_sys := s\<rparr>\<rparr>"
    using assms by (auto simp: app_lease_def split: prod.splits)
  have "(case r of Inl _ \<Rightarrow> mset (free_taps m) = mset (free_taps (network st))
     | Inr l \<Rightarrow> add_mset (lease_tap l) (mset (free_taps m)) = mset (free_taps (network st)))"
    using l(1) by (cases rule: lease_net_cases [of "network st" "w_sys (wld st)"]) (auto simp: lease_tap_def)
  moreover have "own_of st' = (own_of st)\<lparr>os_net := m\<rparr>" using l(2) by (simp add: own_of_def ids_of_def)
  ultimately show ?thesis by blast
qed

lemma lease_jail_own: "lease_jail st = (r, st') \<Longrightarrow> own_of st' = own_of st"
  by (auto simp: lease_jail_def split: option.splits prod.splits sum.splits)

lemma release_to_taps: "mset (free_taps (release_to l m)) = add_mset (lease_tap l) (mset (free_taps m))"
  by (simp add: release_to_def)

lemma cold_boot_task_own:
  assumes "cold_boot_task b st = (r, st')"
  shows "\<exists>m. own_of st' = (own_of st)\<lparr>os_net := m\<rparr> \<and>
    (case r of
       Inl _ \<Rightarrow> mset (free_taps m) \<subseteq># mset (free_taps (network st))
     | Inr (v, l, j) \<Rightarrow> add_mset (lease_tap l) (mset (free_taps m)) = mset (free_taps (network st)))"
proof -
  obtain r1 st1 where k: "app_clone_rootfs (bp_source b) (bp_rootfs b) st = (r1, st1)"
    by (cases "app_clone_rootfs (bp_source b) (bp_rootfs b) st")
  note o1 = app_clone_own [OF k]
  obtain r2 st2 where l: "app_lease st1 = (r2, st2)" by (cases "app_lease st1")
  obtain m where m: "own_of st2 = (own_of st)\<lparr>os_net := m\<rparr>"
    and taps: "case r2 of Inl _ \<Rightarrow> mset (free_taps m) = mset (free_taps (network st))
       | Inr l \<Rightarrow> add_mset (lease_tap l) (mset (free_taps m)) = mset (free_taps (network st))"
    using app_lease_own [OF l] unfolding o1 conjunct1 [OF conjunct2 [OF conjunct2 [OF own_of_fields [OF o1]]]] by blast
  show ?thesis
  proof (cases r1)
    case (Inl e)
    with assms k l have "r = Inl e" "st' = st2" by (simp_all add: cold_boot_task_def)
    moreover have "mset (free_taps m) \<subseteq># mset (free_taps (network st))"
      using taps by (cases r2) (simp_all add: eq_commute [of "add_mset _ _"])
    ultimately show ?thesis using m by auto
  next
    case k': (Inr u)
    show ?thesis
    proof (cases r2)
      case (Inl e)
      with assms k l k' have "r = Inl e" "st' = st2" by (simp_all add: cold_boot_task_def)
      with m taps Inl show ?thesis by auto
    next
      case l': (Inr le)
      have undo: "own_of (app_release le c) = (own_of st)\<lparr>os_net := release_to le m\<rparr>" if "own_of c = own_of st2" for c
      proof -
        have "network c = m" using own_of_fields [OF that] arg_cong [OF m, of os_net] by simp
        then show ?thesis using that m by simp
      qed
      have back_taps: "mset (free_taps (release_to le m)) \<subseteq># mset (free_taps (network st))"
        using taps l' by (simp add: release_to_taps)
      obtain r3 st3 where j: "lease_jail st2 = (r3, st3)" by (cases "lease_jail st2")
      note o3 = lease_jail_own [OF j]
      show ?thesis
      proof (cases r3)
        case (Inl e)
        with assms k l k' l' j have "r = Inl e" "st' = app_release le st3" by (simp_all add: cold_boot_task_def)
        with undo [OF o3] back_taps show ?thesis by auto
      next
        case j': (Inr jid)
        obtain r4 st4 where v: "on_world (vm_boot (boot_config b le jid st3)) st3 = (r4, st4)"
          by (cases "on_world (vm_boot (boot_config b le jid st3)) st3")
        have o4: "own_of st4 = own_of st2" using on_world_keeps(4) [OF v] o3 by simp
        show ?thesis
        proof (cases r4)
          case (Inl e)
          with assms k l k' l' j j' v have "r = Inl e" "st' = release_jail_id jid (app_release le st4)"
            by (simp_all add: cold_boot_task_def)
          with undo [OF o4] back_taps show ?thesis by auto
        next
          case v': (Inr vm)
          show ?thesis
          proof (cases "bp_egress b")
            case None
            with assms k l k' l' j j' v v' have "r = Inr (vm, le, jid)" "st' = st4" by (simp_all add: cold_boot_task_def)
            with o4 m taps l' show ?thesis by auto
          next
            case (Some p)
            obtain r5 st5 where a: "app_apply_egress le p st4 = (r5, st5)" by (cases "app_apply_egress le p st4")
            have o5: "own_of st5 = own_of st2" using app_apply_egress_own [OF a] o4 by simp
            show ?thesis
            proof (cases r5)
              case (Inl e)
              with assms k l k' l' j j' v v' Some a
              have "r = Inl e" "st' = release_jail_id jid (app_release le (app_stop vm st5))"
                by (simp_all add: cold_boot_task_def)
              with undo [of "app_stop vm st5"] o5 back_taps show ?thesis by auto
            next
              case (Inr w)
              with assms k l k' l' j j' v v' Some a have "r = Inr (vm, le, jid)" "st' = st5" by (simp_all add: cold_boot_task_def)
              with o5 m taps l' show ?thesis by auto
            qed
          qed
        qed
      qed
    qed
  qed
qed

definition request_name_free :: "string set \<Rightarrow> own \<Rightarrow> create_request \<Rightarrow> bool" where
  "request_name_free N a req \<longleftrightarrow> (\<forall>n. cr_name req = Some n \<longrightarrow> n \<in> N \<and> n \<notin># held_names a)"

lemma request_name_free_le: "request_name_free N a req \<Longrightarrow> held_names b \<subseteq># held_names a \<Longrightarrow> request_name_free N b req"
  by (auto simp: request_name_free_def dest: mset_subset_eqD)

text \<open>The drives of a request that passed the check against all holders may be attached.\<close>

definition request_drives :: "create_request \<Rightarrow> attached_drive list" where
  "request_drives req = map (\<lambda>d. \<lparr>ad_drive_id = da_id d, ad_read_only = da_read_only d\<rparr>) (cr_drives req)"

lemma first_duplicate_distinct: "first_duplicate xs = None \<longleftrightarrow> distinct xs"
proof -
  have "first_duplicate_go seen xs = None \<longleftrightarrow> distinct xs \<and> set xs \<inter> set seen = {}" for seen
    by (induction seen xs rule: first_duplicate_go.induct) auto
  then show ?thesis by (simp add: first_duplicate_def)
qed

lemma no_drive_conflict:
  "drive_conflict ds st = None \<Longrightarrow> d \<in> set ds \<Longrightarrow> can_attach_read_only (map dh_read_only (drive_holders (da_id d) st)) (da_read_only d)"
  by (induction ds) (auto simp: Let_def split: if_splits)

lemma find_hold_mode: "attached_mode d ds = Some x \<Longrightarrow> \<exists>h. find_hold l i d ds = Some h \<and> dh_read_only h = x"
  by (auto simp: attached_mode_def find_hold_def)

lemma attached_mode_some: "attached_mode i ds = Some x \<Longrightarrow> \<exists>d \<in> set ds. ad_drive_id d = i \<and> ad_read_only d = x"
  by (induction ds) (auto simp: attached_mode_def split: if_splits)

lemma in_map_filter: "v \<in> set xs \<Longrightarrow> g v = Some h \<Longrightarrow> h \<in> set (List.map_filter g xs)"
  by (induction xs) (auto simp: List.map_filter_simps split: option.splits)

lemma mode_listed:
  assumes "hm_get k m = Some v" "attached_mode d (g v) = Some x"
  shows "x \<in> dh_read_only ` set (List.map_filter (\<lambda>v. find_hold l (f v) d (g v)) (hm_values m))"
proof -
  obtain h where "find_hold l (f v) d (g v) = Some h" "dh_read_only h = x" using find_hold_mode [OF assms(2)] by blast
  with in_map_filter [OF hm_get_values [OF assms(1)], of "\<lambda>v. find_hold l (f v) d (g v)" h] show ?thesis by blast
qed

lemma holder_listed:
  "(t, es) \<in> drive_holds (own_of st) \<Longrightarrow> attached_mode d es = Some x \<Longrightarrow> x \<in> set (map dh_read_only (drive_holders d st))"
  unfolding drive_holds_def drive_holders_def by (auto simp: image_Un dest: mode_listed)

lemma check_request_drives:
  assumes "check_request req st = Inr u"
  shows "drives_allowed (own_of st) (request_drives req)"
proof -
  from assms have d: "distinct (map da_id (cr_drives req))" and c: "drive_conflict (cr_drives req) st = None"
    by (auto simp: check_request_def first_duplicate_distinct split: option.splits)
  have "x \<and> y" if h: "(t, es) \<in> drive_holds (own_of st)" and x: "attached_mode i (request_drives req) = Some x"
    and y: "attached_mode i es = Some y" for t es i x y
  proof -
    from x obtain a where a: "a \<in> set (cr_drives req)" "da_id a = i" "da_read_only a = x"
      by (auto simp: request_drives_def dest!: attached_mode_some)
    from no_drive_conflict [OF c a(1)] holder_listed [OF h y] a(2,3) show ?thesis
      by (auto simp: can_attach_read_only_def list_all_iff)
  qed
  moreover have "distinct (map ad_drive_id (request_drives req))" using d by (simp add: request_drives_def comp_def)
  ultimately show ?thesis unfolding drives_allowed_def read_only_shared_def by blast
qed

lemma no_drives_allowed: "cr_drives req = [] \<Longrightarrow> drives_allowed a (request_drives req)"
  by (simp add: drives_allowed_def read_only_shared_def request_drives_def attached_mode_def)

lemma create_cold_steps:
  assumes "create_sandbox_cold req pid v m rl eg st = (r, st')" "request_name_free N (own_of st) req"
    "drives_allowed (own_of st) (request_drives req)"
  shows "own_steps N (own_of st) (own_of st')"
proof (cases "case cr_image_id req of Some img \<Rightarrow> \<not> image_exists (images st) img (w_fs (wld st)) | None \<Rightarrow> False")
  case True
  with assms(1) show ?thesis by (auto simp: create_sandbox_cold_def)
next
  case ok: False
  define st1 where "st1 = reserve_image_boot (cr_image_id req) st"
  have o1: "own_of st1 = own_of st" by (simp add: st1_def)
  obtain i st2 where u: "app_uuid st1 = (i, st2)" by (cases "app_uuid st1")
  have id: "i = fresh_id (own_of st)" and o2: "own_of st2 = (own_of st)\<lparr>os_ids := next_ids (ids_of (wld st))\<rparr>"
    using app_uuid_own [OF u] o1 own_of_fields [OF o1] by simp_all
  define b where "b = \<lparr>bp_rootfs = rootfs_path_for i,
      bp_source = (case cr_image_id req of Some img \<Rightarrow> image_path_for (images st1) img | None \<Rightarrow> base_rootfs_path (app_config st1)),
      bp_vcpu_count = v, bp_mem_size_mib = m, bp_drives = map (drive_config_of (drives st2)) (cr_drives req),
      bp_rate_limit = rl, bp_egress = eg, bp_metadata = sandbox_metadata i req\<rparr>"
  obtain r3 st3 where t: "cold_boot_task b st2 = (r3, st3)" by (cases "cold_boot_task b st2")
  have net2: "network st2 = network st" using arg_cong [OF o2, of os_net] by simp
  obtain n where o3: "own_of st3 = (own_of st2)\<lparr>os_net := n\<rparr>"
    and taps: "case r3 of Inl _ \<Rightarrow> mset (free_taps n) \<subseteq># mset (free_taps (network st))
     | Inr (v, l, j) \<Rightarrow> add_mset (lease_tap l) (mset (free_taps n)) = mset (free_taps (network st))"
    using cold_boot_task_own [OF t] unfolding net2 by blast
  have sb3: "sandboxes st3 = sandboxes st" using arg_cong [OF o3, of os_sandboxes] by (simp add: o2)
  show ?thesis
  proof (cases r3)
    case (Inl e)
    then have "st' = release_pool_slot pid (release_image_boot (cr_image_id req) st3)"
      using assms(1) ok u t by (simp add: create_sandbox_cold_def st1_def [symmetric] b_def [symmetric] Let_def)
    then have "own_of st' = (own_of st2)\<lparr>os_net := n\<rparr>" using o3 by simp
    moreover have "own_step N (own_of st) (own_of st2)" using draw [of N "own_of st"] o2 by simp
    moreover have "own_step N (own_of st2) ((own_of st2)\<lparr>os_net := n\<rparr>)"
      by (rule shrink) (use taps Inl net2 in simp)
    ultimately show ?thesis by (auto intro: own_steps_trans)
  next
    case (Inr x)
    obtain vm l j where x: "x = (vm, l, j)" by (cases x)
    define st4 where "st4 = app_record_created i req (app_now st3) st3"
    let ?s = "created_sandbox i req vm l j pid eg (app_now st3) (w_now (wld st4))"
    have "st' = release_image_boot (cr_image_id req) (record_sandbox_created (put_sandbox i ?s st4))"
      using assms(1) ok u t Inr x by (simp add: create_sandbox_cold_def st1_def [symmetric] b_def [symmetric] Let_def st4_def)
    moreover have "own_of st4 = own_of st3" "sandboxes st4 = sandboxes st"
      using sb3 by (simp_all add: st4_def app_record_created_def)
    ultimately have o': "own_of st' = (own_of st)\<lparr>os_sandboxes := hm_insert i ?s (sandboxes st), os_net := n, os_ids := next_ids (ids_of (wld st))\<rparr>"
      using o3 o2 by simp
    have "own_step N (own_of st) ((own_of st)\<lparr>os_sandboxes := hm_insert (fresh_id (own_of st)) ?s (os_sandboxes (own_of st)),
        os_net := n, os_ids := next_ids (os_ids (own_of st))\<rparr>)"
    proof (rule create [of l])
      show "add_mset (lease_tap l) (mset (free_taps n)) = mset (free_taps (os_net (own_of st)))" using taps Inr x by simp
      show "source_snapshot_id ?s = None" "sb_network ?s = Some l" "sb_id ?s = fresh_id (own_of st)"
        by (simp_all add: created_sandbox_def id)
      show "drives_allowed (own_of st) (sb_attached_drives ?s)" using assms(3) by (simp add: created_sandbox_def request_drives_def)
      show "name_allowed N (own_of st) ?s" using assms(2) by (simp add: name_allowed_def created_sandbox_def request_name_free_def)
    qed
    with o' id show ?thesis by auto
  qed
qed

section \<open>Pool claims\<close>

lemma destroy_unhealthy_own:
  assumes "hm_get i (sandboxes st) = Some s" "source_snapshot_id s = None"
  shows "own_step N (own_of st) (own_of (destroy_unhealthy_claim i st))"
proof -
  have "own_of (destroy_unhealthy_claim i st) = (own_of st)\<lparr>os_sandboxes := hm_remove i (sandboxes st), os_net := release_opt (sb_network s) (network st)\<rparr>"
    using assms(1) by (simp add: destroy_unhealthy_claim_def Let_def release_opt_def drop_sandbox_def split: option.splits)
  with destroy [of i "own_of st" s N] assms show ?thesis by (simp add: unlock_source_def own_of_def)
qed

lemma claim_from_pool_steps:
  assumes "claim_from_pool sid pid req eg st = (r, st')" "own_inv (own_of st)" "request_name_free N (own_of st) req"
  shows "own_steps N (own_of st) (own_of st')" "r = Inl e \<Longrightarrow> own_steps {} (own_of st) (own_of st')"
proof -
  obtain r1 st1 where q: "resume_snapshot_by_id sid True st = (r1, st1)" by (cases "resume_snapshot_by_id sid True st")
  note R = resume_steps [OF q]
  have rid: "r1 = Inr i \<Longrightarrow> i = fresh_id (own_of st)" for i
    using q by (cases rule: resume_cases) auto
  have "own_steps {} (own_of st) (own_of st') \<or> (is_ok r \<and> own_steps N (own_of st) (own_of st'))"
  proof (cases "hm_get (fresh_id (own_of st)) (sandboxes st1)")
    case None
    then have "st' = st1" using assms(1) q rid by (cases r1) (simp_all add: claim_from_pool_def)
    then show ?thesis using R [of "{}"] by simp
  next
    case s: (Some s)
    show ?thesis
    proof (cases r1)
      case (Inl e)
      with assms(1) q R [of "{}"] show ?thesis by (simp add: claim_from_pool_def)
    next
      case i: (Inr i)
      have id: "i = fresh_id (own_of st)" using rid i by simp
      have src: "source_snapshot_id s = None"
        using q
      proof (cases rule: resume_cases)
        case (resumed sn v rootfs now inst new_id rs)
        have "sandboxes st1 = hm_insert new_id (resumed_sandbox new_id v rootfs sid sn now inst) (sandboxes st)"
          using arg_cong [OF resumed(5), of os_sandboxes] by simp
        then show "source_snapshot_id s = None" using s resumed(4) by (auto simp: resumed_sandbox_def)
      qed (use i in simp_all)
      obtain r2 st2 where h: "on_world (vm_call (sb_vm s) (Exec ''true'' [] [])) st1 = (r2, st2)"
        by (cases "on_world (vm_call (sb_vm s) (Exec ''true'' [] [])) st1")
      note o2 = on_world_keeps(5) [OF h]
      have undo: "own_steps {} (own_of st) (own_of (destroy_unhealthy_claim i b))" if "own_of b = own_of st1" for b
        using destroy_unhealthy_own [of i b s "{}"] own_of_fields [OF that] s id src that R [of "{}"]
        by (auto intro: own_steps_trans)
      show ?thesis
      proof (cases r2)
        case (Inl e)
        with assms(1) q i s id h have "st' = destroy_unhealthy_claim i st2" by (simp add: claim_from_pool_def)
        with undo [OF o2] show ?thesis by simp
      next
        case h': (Inr rep)
        obtain r3 st3 where a: "(case (eg, sb_network s) of (Some p, Some l) \<Rightarrow> app_apply_egress l p st2 | _ \<Rightarrow> (Inr (), st2)) = (r3, st3)"
          by (cases "case (eg, sb_network s) of (Some p, Some l) \<Rightarrow> app_apply_egress l p st2 | _ \<Rightarrow> (Inr (), st2)")
        have o3: "own_of st3 = own_of st1"
          using a o2 by (auto split: option.splits dest!: app_apply_egress_own)
        show ?thesis
        proof (cases r3)
          case (Inl e)
          with assms(1) q i s id h h' a have "st' = destroy_unhealthy_claim i st3" by (simp add: claim_from_pool_def Let_def)
          with undo [OF o3] show ?thesis by simp
        next
          case a': (Inr u)
          define st4 where "st4 = snd (on_world (update_metadata_retry UPDATE_METADATA_MAX_ATTEMPTS (sb_vm s) (sandbox_metadata i req)) st3)"
          let ?f = "claimed_update req pid eg (app_now st2)"
          have o4: "own_of st4 = own_of st1" by (simp add: st4_def o3)
          have "st' = record_sandbox_created (app_record_created i req (app_now st2)
              (st4\<lparr>sandboxes := hm_modify i ?f (sandboxes st4)\<rparr>))" and ok: "r = Inr i"
            unfolding st4_def using assms(1) q i s id h h' a a' by (simp_all add: claim_from_pool_def Let_def)
          then have "own_of st' = (own_of st1)\<lparr>os_sandboxes := hm_modify i ?f (sandboxes st1)\<rparr>"
            using o4 own_of_fields [OF o4] by simp
          moreover have "own_step N (own_of st1) ((own_of st1)\<lparr>os_sandboxes := hm_modify i ?f (os_sandboxes (own_of st1))\<rparr>)"
          proof (rule claim [of i _ s])
            show "hm_get i (os_sandboxes (own_of st1)) = Some s" using s id by simp
            show "source_snapshot_id s = None" "source_snapshot_id (?f s) = None" "sb_network (?f s) = sb_network s"
              "sb_attached_drives (?f s) = sb_attached_drives s" "sb_id (?f s) = sb_id s"
              using src by (simp_all add: claimed_update_def)
            have "held_names (own_of st1) \<subseteq># held_names (own_of st)" by (rule own_steps_no_names [OF R assms(2)])
            with assms(3) show "name_allowed N (own_of st1) (?f s)"
              by (auto simp: name_allowed_def claimed_update_def request_name_free_def dest: mset_subset_eqD)
          qed
          ultimately show ?thesis using R [of N] ok by (auto intro: own_steps_trans)
        qed
      qed
    qed
  qed
  then show "own_steps N (own_of st) (own_of st')" "r = Inl e \<Longrightarrow> own_steps {} (own_of st) (own_of st')"
    using own_steps_mono [of "{}" "own_of st" "own_of st'" N] by auto
qed

lemma resolve_pool_claim_own: "app_resolve_pool_claim key st = (r, st') \<Longrightarrow> own_of st' = own_of st"
  by (auto simp: app_resolve_pool_claim_def Let_def split: claim_outcome.splits)

lemma claim_loop_steps:
  "claim_loop req key rl eg n st = (r, st') \<Longrightarrow> own_inv (own_of st) \<Longrightarrow> request_name_free N (own_of st) req \<Longrightarrow>
     cr_drives req = [] \<Longrightarrow> own_steps N (own_of st) (own_of st')"
proof (induction n arbitrary: st)
  case 0
  then show ?case by (auto intro: create_cold_steps no_drives_allowed)
next
  case (Suc n)
  obtain r1 st1 where q: "app_resolve_pool_claim key st = (r1, st1)" by (cases "app_resolve_pool_claim key st")
  note o1 = resolve_pool_claim_own [OF q]
  show ?case
  proof (cases r1)
    case (Inl e)
    with Suc.prems(1) q o1 show ?thesis by simp
  next
    case c: (Inr c)
    show ?thesis
    proof (cases c)
      case (Warm pid sid)
      obtain r2 st2 where k: "claim_from_pool sid pid req eg st1 = (r2, st2)" by (cases "claim_from_pool sid pid req eg st1")
      note K = claim_from_pool_steps [OF k, unfolded o1, OF Suc.prems(2,3)]
      show ?thesis
      proof (cases r2)
        case (Inl e)
        let ?st3 = "release_pool_slot (Some pid) st2"
        have s0: "own_steps {} (own_of st) (own_of ?st3)" using K(2) [OF Inl] by simp
        have "claim_loop req key rl eg n ?st3 = (r, st')" using Suc.prems(1) q c Warm k Inl by simp
        moreover have "request_name_free N (own_of ?st3) req"
          using Suc.prems(3) own_steps_no_names [OF s0 Suc.prems(2)] by (rule request_name_free_le)
        ultimately have "own_steps N (own_of ?st3) (own_of st')"
          using Suc.IH own_steps_inv [OF s0 Suc.prems(2)] Suc.prems(4) by blast
        then show ?thesis using own_steps_mono [OF s0, of N] by (auto intro: own_steps_trans)
      next
        case (Inr i)
        with Suc.prems(1) q c Warm k K(1) show ?thesis by simp
      qed
    next
      case NoPool
      with Suc.prems q c create_cold_steps [of req None] no_drives_allowed [OF Suc.prems(4)] o1 show ?thesis by fastforce
    next
      case (ColdSlot pid)
      with Suc.prems q c create_cold_steps [of req "Some pid"] no_drives_allowed [OF Suc.prems(4)] o1 show ?thesis by fastforce
    qed
  qed
qed

section \<open>Creating\<close>

lemma create_core_steps:
  assumes "create_sandbox_core req st = (r, st')" "own_inv (own_of st)" "request_name_free N (own_of st) req"
  shows "own_steps N (own_of st) (own_of st')"
  using assms claim_loop_steps [OF _ assms(2,3)] create_cold_steps [OF _ assms(3) check_request_drives]
  by (auto simp: create_sandbox_core_def split: sum.splits if_splits)

lemma check_name_free_ok:
  "check_name_free n st = Inr u \<Longrightarrow> own_inv (own_of st) \<Longrightarrow> n = Some k \<Longrightarrow> k \<notin># held_names (own_of st)"
  using held_names_free [of st k]
  by (auto simp: check_name_free_def and_then_def split: option.splits sum.splits)

lemma create_sandbox_steps:
  assumes "create_sandbox body st = (r, st')" "own_inv (own_of st)"
  shows "own_steps UNIV (own_of st) (own_of st')"
proof (cases "if body = [] then Some default_request else Option.bind (json_value (app_codec st) body) create_request_of_json")
  case (Some req)
  show ?thesis
  proof (cases "check_name_free (cr_name req) st")
    case (Inr u)
    obtain r1 st1 where c: "create_sandbox_core req st = (r1, st1)" by (cases "create_sandbox_core req st")
    have "st' = st1" using assms(1) Some Inr c by (simp add: create_sandbox_def split: sum.splits)
    moreover have "request_name_free UNIV (own_of st) req"
      using check_name_free_ok [OF Inr assms(2)] by (simp add: request_name_free_def)
    ultimately show ?thesis using create_core_steps [OF c assms(2)] by simp
  qed (use assms(1) Some in \<open>simp add: create_sandbox_def\<close>)
qed (use assms(1) in \<open>simp add: create_sandbox_def\<close>)

lemma get_or_create_steps:
  assumes "get_or_create_sandbox q st = (r, st')" "own_inv (own_of st)"
  shows "own_steps UNIV (own_of st) (own_of st')"
proof (cases "validate_name (gr_name q)")
  case (Inr u)
  show ?thesis
  proof (cases "resolve_name (gr_name q) st")
    case None
    then have "name_holder (gr_name q) st = None" by (simp add: name_holder_resolve)
    then have "request_name_free UNIV (own_of st) (create_request_of_get q)"
      using held_names_free [OF assms(2)] by (simp add: request_name_free_def create_request_of_get_def)
    moreover obtain r1 st1 where c: "create_sandbox_core (create_request_of_get q) st = (r1, st1)"
      by (cases "create_sandbox_core (create_request_of_get q) st")
    moreover have "st' = st1" using assms(1) Inr None c by (simp add: get_or_create_sandbox_def split: sum.splits)
    ultimately show ?thesis using create_core_steps [OF c assms(2)] by simp
  next
    case (Some x)
    show ?thesis
    proof (cases x)
      case (HeldSnapshot sid)
      obtain r1 st1 where c: "resume_snapshot_by_id sid True st = (r1, st1)" by (cases "resume_snapshot_by_id sid True st")
      have "st' = st1" using assms(1) Inr Some HeldSnapshot c by (simp add: get_or_create_sandbox_def split: sum.splits)
      with resume_steps [OF c] show ?thesis by simp
    qed (use assms(1) Inr Some in \<open>simp add: get_or_create_sandbox_def\<close>)
  qed
qed (use assms(1) in \<open>simp add: get_or_create_sandbox_def\<close>)

section \<open>The replenisher\<close>

lemma replenish_one_steps:
  assumes "own_inv (own_of st)"
  shows "own_steps UNIV (own_of st) (own_of (replenish_one c st))"
proof -
  obtain r1 st1 where q: "create_sandbox_core (warm_request c) st = (r1, st1)" by (cases "create_sandbox_core (warm_request c) st")
  have "request_name_free UNIV (own_of st) (warm_request c)" by (simp add: request_name_free_def warm_request_def)
  note S1 = create_core_steps [OF q assms this]
  note inv1 = own_steps_inv [OF S1 assms]
  show ?thesis
  proof (cases r1)
    case (Inl e)
    with q S1 show ?thesis by (simp add: replenish_one_def)
  next
    case i: (Inr i)
    obtain r2 st2 where s: "snapshot_and_stop i st1 = (r2, st2)" by (cases "snapshot_and_stop i st1")
    have S2: "own_steps UNIV (own_of st) (own_of st2)" using S1 snapshot_and_stop_steps(1) [OF s inv1] by (rule own_steps_trans)
    show ?thesis
    proof (cases r2)
      case (Inl e)
      with q i s S2 show ?thesis by (simp add: replenish_one_def)
    next
      case sid: (Inr sid)
      obtain r3 st3 where d: "delete_snapshot_by_id sid st2 = (r3, st3)" by (cases "delete_snapshot_by_id sid st2")
      have "own_steps UNIV (own_of st) (own_of st3)" using S2 delete_steps [OF d] by (rule own_steps_trans)
      with q i s sid d S2 show ?thesis by (simp add: replenish_one_def split: option.splits)
    qed
  qed
qed

lemma replenish_once_steps:
  assumes "own_inv (own_of st)"
  shows "own_steps UNIV (own_of st) (own_of (replenish_once st))"
proof -
  have "own_steps UNIV (own_of st) (own_of (fold replenish_one cs st))" for cs
    using assms
  proof (induction cs arbitrary: st)
    case (Cons c cs)
    note S = replenish_one_steps [OF Cons.prems, of c]
    with Cons.IH [OF own_steps_inv [OF S Cons.prems]] show ?case by (auto intro: own_steps_trans)
  qed simp
  then show ?thesis by (simp add: replenish_once_def)
qed

end
