(* ===== verification/Reaper.thy ===== *)
theory Reaper
  imports HandlersCreate Samples
begin

text \<open>
  \<^verbatim>\<open>idle_reaper.rs\<close>: the background task that suspends, stops and archives what is idle. A tick
  is one turn of its loop, the sleep included; between ticks other requests may run. Times are
  nanoseconds, \<^verbatim>\<open>Instant\<close>s are the world's clock.
\<close>

section \<open>The task\<close>

definition MAX_CHECK_INTERVAL :: nat where
  "MAX_CHECK_INTERVAL = secs 30"

definition compute_check_interval :: "nat list \<Rightarrow> nat" where
  "compute_check_interval timeouts =
     (case timeouts of
        [] \<Rightarrow> MAX_CHECK_INTERVAL
      | t # ts \<Rightarrow> min MAX_CHECK_INTERVAL (max (secs 1) (foldl min t ts div 2)))"

definition is_idle :: "nat \<Rightarrow> nat \<Rightarrow> nat \<Rightarrow> bool" where
  "is_idle active now timeout = (timeout \<le> now - active)"

definition is_archive_due :: "int \<Rightarrow> int \<Rightarrow> nat \<Rightarrow> bool" where
  "is_archive_due created now timeout = (created \<le> now \<and> int timeout \<le> now - created)"

definition idle_sandbox_ids :: "nat \<Rightarrow> nat \<Rightarrow> app \<Rightarrow> string list" where
  "idle_sandbox_ids timeout now st = map fst (filter (\<lambda>(i, s). is_idle (last_activity s) now timeout) (sandboxes st))"

definition suspend_one :: "string \<Rightarrow> app \<Rightarrow> app" where
  "suspend_one i st = snd (snapshot_and_stop i st)"

definition suspend_idle_sandboxes :: "nat \<Rightarrow> nat \<Rightarrow> app \<Rightarrow> app" where
  "suspend_idle_sandboxes timeout now st = fold suspend_one (idle_sandbox_ids timeout now st) st"

text \<open>Where nothing can be kept, the sandbox is destroyed instead.\<close>

definition destroy_one :: "string \<Rightarrow> app \<Rightarrow> app" where
  "destroy_one i st =
     (case stop_sandbox_by_id i True st of
        (Inl (CannotPreserve _), st1) \<Rightarrow> snd (stop_sandbox_by_id i False st1)
      | (_, st1) \<Rightarrow> st1)"

definition destroy_idle_sandboxes :: "nat \<Rightarrow> nat \<Rightarrow> app \<Rightarrow> app" where
  "destroy_idle_sandboxes timeout now st = fold destroy_one (idle_sandbox_ids timeout now st) st"

definition reap_once :: "nat option \<Rightarrow> nat option \<Rightarrow> nat \<Rightarrow> app \<Rightarrow> app" where
  "reap_once idle suspend now st =
     (let st1 = (case suspend of None \<Rightarrow> st | Some t \<Rightarrow> suspend_idle_sandboxes t now st)
      in case idle of None \<Rightarrow> st1 | Some t \<Rightarrow> destroy_idle_sandboxes t now st1)"

definition due_for_archive_ids :: "nat \<Rightarrow> int \<Rightarrow> app \<Rightarrow> string list" where
  "due_for_archive_ids timeout now st =
     map sn_id (filter (\<lambda>s. is_archive_due (sn_created_at s) now timeout)
       (filter (\<lambda>s. archived_at s = None \<and> forked_into s = None) (hm_values (snapshots st))))"

definition archive_idle_snapshots :: "nat \<Rightarrow> string \<Rightarrow> int \<Rightarrow> app \<Rightarrow> app" where
  "archive_idle_snapshots timeout root now st =
     fold (\<lambda>i b. snd (archive_snapshot_by_id i root b)) (due_for_archive_ids timeout now st) st"

definition check_interval :: "config \<Rightarrow> nat" where
  "check_interval c =
     compute_check_interval (List.map_filter (\<lambda>x. x) [idle_timeout c, auto_suspend_timeout c, archive_timeout c])"

definition app_sleep :: "nat \<Rightarrow> app \<Rightarrow> app" where
  "app_sleep d st = st\<lparr>wld := (wld st)\<lparr>w_now := w_now (wld st) + d\<rparr>\<rparr>"

definition reaper_tick :: "config \<Rightarrow> app \<Rightarrow> app" where
  "reaper_tick c st =
     (let st1 = app_sleep (check_interval c) st;
          st2 = reap_once (idle_timeout c) (auto_suspend_timeout c) (w_now (wld st1)) st1
      in case archive_timeout c of None \<Rightarrow> st2 | Some t \<Rightarrow> archive_idle_snapshots t (archive_dir c) (app_now st2) st2)"

section \<open>Bounds of the interval\<close>

lemma check_interval_bounds: "secs 1 \<le> check_interval c \<and> check_interval c \<le> MAX_CHECK_INTERVAL"
  by (simp add: check_interval_def compute_check_interval_def MAX_CHECK_INTERVAL_def split: list.splits)

section \<open>Ownership\<close>

lemma fold_steps:
  assumes "\<And>x b. own_inv (own_of b) \<Longrightarrow> own_steps UNIV (own_of b) (own_of (f x b))" "own_inv (own_of st)"
  shows "own_steps UNIV (own_of st) (own_of (fold f xs st))"
  using assms(2)
proof (induction xs arbitrary: st)
  case (Cons x xs)
  note S = assms(1) [OF Cons.prems, of x]
  with Cons.IH [OF own_steps_inv [OF S Cons.prems]] show ?case by (auto intro: own_steps_trans)
qed simp

lemma suspend_one_steps: "own_inv (own_of st) \<Longrightarrow> own_steps UNIV (own_of st) (own_of (suspend_one i st))"
  unfolding suspend_one_def by (rule snapshot_and_stop_steps(1) [of i st "fst (snapshot_and_stop i st)"]) simp_all

lemma destroy_one_steps:
  assumes "own_inv (own_of st)"
  shows "own_steps UNIV (own_of st) (own_of (destroy_one i st))"
proof -
  obtain r st1 where s: "stop_sandbox_by_id i True st = (r, st1)" by (cases "stop_sandbox_by_id i True st")
  note S = stop_sandbox_by_id_steps [OF s assms, of UNIV]
  obtain r2 st2 where d: "stop_sandbox_by_id i False st1 = (r2, st2)" by (cases "stop_sandbox_by_id i False st1")
  note D = stop_sandbox_by_id_steps [OF d own_steps_inv [OF S assms], of UNIV]
  show ?thesis using s d S own_steps_trans [OF S D] by (auto simp: destroy_one_def split: sum.splits stop_error.splits)
qed

lemma reap_once_steps:
  assumes "own_inv (own_of st)"
  shows "own_steps UNIV (own_of st) (own_of (reap_once idle suspend now st))"
proof -
  let ?st1 = "case suspend of None \<Rightarrow> st | Some t \<Rightarrow> suspend_idle_sandboxes t now st"
  have S: "own_steps UNIV (own_of st) (own_of ?st1)"
    using fold_steps [OF suspend_one_steps assms] by (auto simp: suspend_idle_sandboxes_def split: option.splits)
  have "own_steps UNIV (own_of ?st1) (own_of (case idle of None \<Rightarrow> ?st1 | Some t \<Rightarrow> destroy_idle_sandboxes t now ?st1))"
    using fold_steps [OF destroy_one_steps own_steps_inv [OF S assms]] by (auto simp: destroy_idle_sandboxes_def split: option.splits)
  with S show ?thesis unfolding reap_once_def Let_def by (rule own_steps_trans)
qed

lemma archive_idle_steps:
  "own_inv (own_of st) \<Longrightarrow> own_steps UNIV (own_of st) (own_of (archive_idle_snapshots t root now st))"
  unfolding archive_idle_snapshots_def
  by (rule fold_steps) (auto intro!: archive_steps prod.collapse [symmetric])

lemma own_of_sleep [simp]: "own_of (app_sleep d st) = own_of st"
  by (simp add: app_sleep_def)

lemma reaper_tick_steps:
  assumes "own_inv (own_of st)"
  shows "own_steps UNIV (own_of st) (own_of (reaper_tick c st))"
proof -
  let ?st1 = "app_sleep (check_interval c) st"
  let ?st2 = "reap_once (idle_timeout c) (auto_suspend_timeout c) (w_now (wld ?st1)) ?st1"
  have S: "own_steps UNIV (own_of st) (own_of ?st2)" using reap_once_steps [of ?st1] assms by simp
  have "own_steps UNIV (own_of ?st2) (own_of (archive_idle_snapshots t root now ?st2))" for t root now
    by (rule archive_idle_steps) (rule own_steps_inv [OF S assms])
  with S show ?thesis by (auto simp: reaper_tick_def Let_def split: option.splits intro: own_steps_trans)
qed

section \<open>What a pass does to the live sandboxes\<close>

lemma snapshot_and_stop_sandboxes:
  assumes "snapshot_and_stop i st = (r, st')"
  shows "sandboxes st' = (case r of Inl (SnapBlocked b) \<Rightarrow> sandboxes st | _ \<Rightarrow> hm_remove i (sandboxes st))"
  using assms
proof (cases rule: snapshot_and_stop_cases)
  case missing
  then show ?thesis by (simp add: hm_remove_absent)
next
  case (no_lease s m)
  then show ?thesis using assms
    by (auto simp: snapshot_and_stop_def check_snapshottable_def release_pool_slot_def drop_sandbox_def split: if_splits)
next
  case (failed s l e)
  have "os_sandboxes (own_of st') = hm_remove i (sandboxes st)" unfolding failed(5) by simp
  then show ?thesis using failed(4) by simp
next
  case (suspended s l sid now)
  have "os_sandboxes (own_of st') = hm_remove i (sandboxes st)" unfolding suspended(6) by simp
  then show ?thesis using suspended(4) by simp
qed simp

lemma destroy_sandboxes: "destroy_sandbox_by_id i st = (r, st') \<Longrightarrow> sandboxes st' = hm_remove i (sandboxes st)"
proof (cases "hm_get i (sandboxes st)")
  case (Some s)
  assume "destroy_sandbox_by_id i st = (r, st')"
  from destroy_sandbox_own [OF this] Some have "os_sandboxes (own_of st') = hm_remove i (sandboxes st)" by simp
  then show ?thesis by simp
qed (simp add: destroy_sandbox_by_id_def hm_remove_absent)

lemma hm_remove_idem [simp]: "hm_remove k (hm_remove k m) = hm_remove k m"
  by (simp add: hm_remove_def)

lemma destroy_one_sandboxes: "sandboxes (destroy_one i st) = hm_remove i (sandboxes st)"
proof -
  obtain r st1 where s: "snapshot_and_stop i st = (r, st1)" by (cases "snapshot_and_stop i st")
  obtain r2 st2 where d: "destroy_sandbox_by_id i st1 = (r2, st2)" by (cases "destroy_sandbox_by_id i st1")
  show ?thesis
    using s d snapshot_and_stop_sandboxes [OF s] destroy_sandboxes [OF d]
      destroy_sandbox_own [OF d]
    by (auto simp: destroy_one_def stop_sandbox_by_id_def split: sum.splits snapshot_stop_error.splits snapshot_blocked.splits
        stop_error.splits option.splits)
qed

lemma fold_destroy_sandboxes: "sandboxes (fold destroy_one is st) = filter (\<lambda>p. fst p \<notin> set is) (sandboxes st)"
proof (induction "is" arbitrary: st)
  case (Cons i "is")
  then show ?case by (simp add: destroy_one_sandboxes hm_remove_def conj_commute)
qed simp

lemma destroy_idle_sandboxes_left:
  assumes "hm_wf (sandboxes st)"
  shows "sandboxes (destroy_idle_sandboxes t now st) = filter (\<lambda>(i, s). \<not> is_idle (last_activity s) now t) (sandboxes st)"
proof -
  have "fst p \<in> set (idle_sandbox_ids t now st) \<longleftrightarrow> is_idle (last_activity (snd p)) now t" if "p \<in> set (sandboxes st)" for p
  proof
    assume "fst p \<in> set (idle_sandbox_ids t now st)"
    then obtain q where "q \<in> set (sandboxes st)" "fst q = fst p" "is_idle (last_activity (snd q)) now t"
      by (auto simp: idle_sandbox_ids_def)
    moreover then have "q = p" using that hm_in_get [OF assms] by (metis option.inject prod.collapse)
    ultimately show "is_idle (last_activity (snd p)) now t" by simp
  qed (use that in \<open>force simp: idle_sandbox_ids_def\<close>)
  then show ?thesis unfolding destroy_idle_sandboxes_def fold_destroy_sandboxes by (intro filter_cong) auto
qed

lemma suspend_one_sandboxes: "sandboxes (suspend_one i st) = sandboxes st \<or> sandboxes (suspend_one i st) = hm_remove i (sandboxes st)"
proof -
  obtain r st1 where s: "snapshot_and_stop i st = (r, st1)" by (cases "snapshot_and_stop i st")
  show ?thesis using snapshot_and_stop_sandboxes [OF s] s by (auto simp: suspend_one_def split: sum.splits snapshot_stop_error.splits)
qed

lemma suspend_fold_sandboxes:
  assumes "hm_wf (sandboxes st)"
  shows "hm_wf (sandboxes (fold suspend_one is st))"
    "hm_get i (sandboxes (fold suspend_one is st)) = hm_get i (sandboxes st)
      \<or> i \<in> set is \<and> hm_get i (sandboxes (fold suspend_one is st)) = None"
proof -
  have "hm_wf (sandboxes (fold suspend_one is st)) \<and> (hm_get i (sandboxes (fold suspend_one is st)) = hm_get i (sandboxes st)
      \<or> i \<in> set is \<and> hm_get i (sandboxes (fold suspend_one is st)) = None)"
    using assms
  proof (induction "is" arbitrary: st)
    case (Cons x "is")
    have "hm_wf (sandboxes (suspend_one x st))" using suspend_one_sandboxes [of x st] Cons.prems by auto
    from Cons.IH [OF this] suspend_one_sandboxes [of x st] show ?case by (auto split: if_splits)
  qed simp
  then show "hm_wf (sandboxes (fold suspend_one is st))"
    "hm_get i (sandboxes (fold suspend_one is st)) = hm_get i (sandboxes st)
      \<or> i \<in> set is \<and> hm_get i (sandboxes (fold suspend_one is st)) = None" by blast+
qed

lemma archive_one_sandboxes: "sandboxes (snd (archive_snapshot_by_id i root st)) = sandboxes st"
proof (cases "hm_get i (snapshots st)")
  case (Some sn)
  obtain r s1 st1 where t: "archive_task sn (archive_snapshot_dir root i) (parent_path (sn_snapshot_path sn)) (drop_snapshot i st) = (r, s1, st1)"
    by (cases "archive_task sn (archive_snapshot_dir root i) (parent_path (sn_snapshot_path sn)) (drop_snapshot i st)")
  have "sandboxes st1 = sandboxes st" using own_of_fields [of st1 "drop_snapshot i st"] archive_task_own [OF t] by (simp add: drop_snapshot_def)
  with Some t show ?thesis by (auto simp: archive_snapshot_by_id_def put_snapshot_def split: sum.splits)
qed (simp add: archive_snapshot_by_id_def)

lemma archive_idle_sandboxes: "sandboxes (archive_idle_snapshots t root now st) = sandboxes st"
proof -
  have "sandboxes (fold (\<lambda>i b. snd (archive_snapshot_by_id i root b)) is st) = sandboxes st" for "is"
    by (induction "is" arbitrary: st) (simp_all add: archive_one_sandboxes)
  then show ?thesis by (simp add: archive_idle_snapshots_def)
qed

text \<open>The two passes of a tick, and what each leaves.\<close>

lemma reaper_tick_passes:
  fixes c st
  defines "now \<equiv> w_now (wld st) + check_interval c"
  assumes "hm_wf (sandboxes st)"
  obtains m where "hm_wf m"
    "\<And>i. hm_get i m = hm_get i (sandboxes st) \<or>
       hm_get i m = None \<and> (\<exists>t s. auto_suspend_timeout c = Some t \<and> hm_get i (sandboxes st) = Some s \<and> is_idle (last_activity s) now t)"
    "hm_wf (sandboxes (reaper_tick c st))"
    "\<And>i x. hm_get i (sandboxes (reaper_tick c st)) = Some x \<longleftrightarrow>
       hm_get i m = Some x \<and> (\<forall>t. idle_timeout c = Some t \<longrightarrow> \<not> is_idle (last_activity x) now t)"
proof -
  define st1 where "st1 = app_sleep (check_interval c) st"
  have st1: "sandboxes st1 = sandboxes st" "w_now (wld st1) = now" by (simp_all add: st1_def app_sleep_def now_def)
  define st2 where "st2 = (case auto_suspend_timeout c of None \<Rightarrow> st1 | Some t \<Rightarrow> suspend_idle_sandboxes t now st1)"
  have wf1: "hm_wf (sandboxes st1)" using assms(2) st1 by simp
  have wf2: "hm_wf (sandboxes st2)"
    using suspend_fold_sandboxes(1) [OF wf1] wf1 by (simp add: st2_def suspend_idle_sandboxes_def split: option.splits)
  have in_ids: "i \<in> set (idle_sandbox_ids t now st1) \<Longrightarrow> \<exists>s. hm_get i (sandboxes st) = Some s \<and> is_idle (last_activity s) now t" for i t
    using hm_in_get [OF wf1] st1 by (auto simp: idle_sandbox_ids_def)
  have g2: "hm_get i (sandboxes st2) = hm_get i (sandboxes st) \<or> hm_get i (sandboxes st2) = None \<and>
      (\<exists>t s. auto_suspend_timeout c = Some t \<and> hm_get i (sandboxes st) = Some s \<and> is_idle (last_activity s) now t)" for i
  proof (cases "auto_suspend_timeout c")
    case (Some t)
    with suspend_fold_sandboxes(2) [OF wf1, of i "idle_sandbox_ids t now st1"] in_ids [of i t] st1
    show ?thesis by (auto simp: st2_def suspend_idle_sandboxes_def)
  qed (simp add: st2_def st1)
  define st3 where "st3 = (case idle_timeout c of None \<Rightarrow> st2 | Some t \<Rightarrow> destroy_idle_sandboxes t now st2)"
  have "reap_once (idle_timeout c) (auto_suspend_timeout c) (w_now (wld st1)) st1 = st3"
    unfolding st3_def st2_def st1(2) reap_once_def Let_def ..
  then have tick: "sandboxes (reaper_tick c st) = sandboxes st3"
    by (simp add: reaper_tick_def Let_def st1_def [symmetric] archive_idle_sandboxes split: option.splits)
  have left: "sandboxes st3 = (case idle_timeout c of None \<Rightarrow> sandboxes st2
      | Some t \<Rightarrow> filter (\<lambda>(i, s). \<not> is_idle (last_activity s) now t) (sandboxes st2))"
    using destroy_idle_sandboxes_left [OF wf2] by (simp add: st3_def split: option.splits)
  have wf3: "hm_wf (sandboxes st3)"
    using wf2 by (auto simp: left hm_wf_def distinct_map split: option.splits intro: inj_on_subset)
  have g3: "hm_get i (sandboxes st3) = Some x \<longleftrightarrow> hm_get i (sandboxes st2) = Some x \<and>
      (\<forall>t. idle_timeout c = Some t \<longrightarrow> \<not> is_idle (last_activity x) now t)" for i x
    using hm_in_get [OF wf3, of i x] hm_in_get [OF wf2, of i x] by (auto simp: left split: option.splits)
  show thesis by (rule that [OF wf2 g2]) (simp_all add: tick wf3 g3)
qed

section \<open>Time\<close>

lemma fc_do_time: "fc_do ev w = (r, w') \<Longrightarrow> w_now w \<le> w_now w'"
  by (auto simp: fc_do_def split: prod.splits)

lemma fc_do_snd_time: "w_now w \<le> w_now (snd (fc_do ev w))"
  by (metis fc_do_time prod.collapse)

lemma on_fs_now [simp]: "w_now (snd (on_fs f w)) = w_now w"
  by (simp add: on_fs_def split: prod.splits)

lemma on_fs_time: "on_fs f w = (r, w') \<Longrightarrow> w_now w \<le> w_now w'"
  by (metis on_fs_now snd_conv order_refl)

lemma remove_files_now [simp]: "w_now (remove_files ps w) = w_now w"
  by (induction ps arbitrary: w) (simp_all add: remove_files_def)

lemma api_time:
  "put_checked s p b w = (r, w') \<Longrightarrow> w_now w \<le> w_now w'"
  "patch_checked s p b w = (r, w') \<Longrightarrow> w_now w \<le> w_now w'"
  "api_connect s w = (r, w') \<Longrightarrow> w_now w \<le> w_now w'"
  "vsock_call s q w = (r2, w') \<Longrightarrow> w_now w \<le> w_now w'"
  by (auto simp: put_checked_def patch_checked_def api_connect_def vsock_call_def Let_def split: prod.splits sum.splits if_splits
      dest: fc_do_time)

lemma retry_loop_time_le:
  "retry_loop d i m attempt w = (r, w') \<Longrightarrow> (\<And>v r v'. attempt v = (r, v') \<Longrightarrow> w_now v \<le> w_now v') \<Longrightarrow> w_now w \<le> w_now w'"
proof (induction d i m attempt w rule: retry_loop.induct)
  case (1 d i m attempt w)
  obtain r1 w1 where a: "attempt w = (r1, w1)" by (cases "attempt w")
  then have q1: "w_now w \<le> w_now w1" using 1(3) by blast
  show ?case
  proof (cases "(\<exists>v. r1 = Inr v) \<or> d \<le> max (w_now w) (w_now w1)")
    case True
    then have "w' = w1" using 1(2) a by (subst (asm) retry_loop.simps) (auto simp: Let_def split: sum.splits)
    with q1 show ?thesis by simp
  next
    case False
    then obtain e where e: "r1 = Inl e" by (cases r1) auto
    with False a 1(2)
    have rest: "retry_loop d (min (i * 2) m) m attempt
        (w1\<lparr>w_now := max (w_now w) (w_now w1) + max 1 i\<rparr>) = (r, w')"
      by (subst (asm) retry_loop.simps) (simp add: Let_def)
    have "w_now (w1\<lparr>w_now := max (w_now w) (w_now w1) + max 1 i\<rparr>) \<le> w_now w'"
      using 1(1) [OF a [symmetric] e refl _ rest 1(3)] False by auto
    with q1 show ?thesis by simp
  qed
qed

lemma vm_call_time: "w_now w \<le> w_now (snd (vm_call v q w))"
  unfolding vm_call_def retry_with_backoff_def by (rule retry_loop_time_le [OF prod.collapse [symmetric]]) (rule api_time(4))

lemma kill_child_time: "w_now w \<le> w_now (kill_child c w)"
  unfolding kill_child_def by (rule fc_do_snd_time)

lemma vm_stop_time: "w_now w \<le> w_now (snd (vm_stop v w))"
  using vm_call_time [of w v "Exec ''sync'' [] []"] kill_child_time [of "snd (vm_call v (Exec ''sync'' [] []) w)" "vm_child v"]
  by (simp add: vm_stop_def stop_inner_def Let_def split: option.splits)

lemma vm_snapshot_time:
  "vm_pause v w = (r, w') \<Longrightarrow> w_now w \<le> w_now w'" "vm_snapshot v m p w = (r, w') \<Longrightarrow> w_now w \<le> w_now w'"
  by (auto simp: vm_pause_def vm_snapshot_def firecracker_writes_def split: prod.splits sum.splits dest!: api_time)

definition time_le :: "app \<Rightarrow> app \<Rightarrow> bool" where
  "time_le a b \<longleftrightarrow> w_now (wld a) \<le> w_now (wld b)"

lemma time_le_refl [simp]: "time_le a a"
  by (simp add: time_le_def)

lemma time_le_trans: "time_le a b \<Longrightarrow> time_le b c \<Longrightarrow> time_le a c"
  by (simp add: time_le_def)

lemma on_world_time: "on_world f st = (r, st') \<Longrightarrow> (\<And>w r w'. f w = (r, w') \<Longrightarrow> w_now w \<le> w_now w') \<Longrightarrow> time_le st st'"
  by (auto simp: on_world_def time_le_def split: prod.splits)

lemma on_world_times:
  "on_world (on_fs g) st = (r0, st') \<Longrightarrow> time_le st st'" "on_world (vm_pause v) st = (r1, st') \<Longrightarrow> time_le st st'"
  "on_world (vm_snapshot v m p) st = (r2, st') \<Longrightarrow> time_le st st'"
  by (erule on_world_time; erule on_fs_time vm_snapshot_time)+

text \<open>Operations that only look at the clock, or leave it.\<close>

lemma now_same [simp]:
  "w_now (wld (app_remove_file p st)) = w_now (wld st)" "w_now (wld (app_remove_dir_all p st)) = w_now (wld st)"
  "w_now (wld (app_remove_egress l st)) = w_now (wld st)" "w_now (wld (app_release l st)) = w_now (wld st)"
  "w_now (wld (app_record_ended i e s st)) = w_now (wld st)" "w_now (wld (release_pool_slot pid st)) = w_now (wld st)"
  "w_now (wld (put_snapshot i sn st)) = w_now (wld st)" "w_now (wld (drop_snapshot i st)) = w_now (wld st)"
  "w_now (wld (drop_sandbox i st)) = w_now (wld st)" "w_now (wld (set_fork i f st)) = w_now (wld st)"
  "w_now (wld (release_jail_id j st)) = w_now (wld st)" "w_now (wld (cleanup_old_snapshot_dir d st)) = w_now (wld st)"
  by (simp_all add: app_remove_file_def app_remove_dir_all_def app_remove_egress_def app_release_def app_record_ended_def
      release_pool_slot_def put_snapshot_def drop_snapshot_def drop_sandbox_def set_fork_def release_jail_id_def
      cleanup_old_snapshot_dir_def on_world_def on_fs_def on_sys_def split: prod.splits option.splits)

lemma app_stop_time: "time_le st (app_stop v st)"
  using vm_stop_time [of "wld st" v]
  by (cases "vm_stop v (wld st)") (simp add: app_stop_def on_world_def time_le_def)

lemma app_uuid_time: "app_uuid st = (i, st') \<Longrightarrow> w_now (wld st') = w_now (wld st)"
  by (auto simp: app_uuid_def on_world_def new_uuid_def)

lemma snapshot_task_time: "snapshot_task v d sp mp st = (r, st') \<Longrightarrow> time_le st st'"
  unfolding snapshot_task_def
  by (auto split: prod.splits sum.splits dest!: on_world_times intro: time_le_trans time_le_trans [OF _ app_stop_time])

lemma snapshot_and_stop_time: "snapshot_and_stop i st = (r, st') \<Longrightarrow> time_le st st'"
  unfolding snapshot_and_stop_def Let_def
  by (auto simp: time_le_def dest!: app_uuid_time snapshot_task_time [unfolded time_le_def] on_world_times(1) [unfolded time_le_def]
      split: option.splits sum.splits prod.splits)

lemma destroy_time: "destroy_sandbox_by_id i st = (r, st') \<Longrightarrow> time_le st st'"
proof (cases "hm_get i (sandboxes st)")
  case (Some s)
  assume "destroy_sandbox_by_id i st = (r, st')"
  with Some have "w_now (wld st') = w_now (wld (app_stop (sb_vm s) (release_pool_slot (source_pool_id s) (drop_sandbox i st))))"
    by (auto simp: destroy_sandbox_by_id_def Let_def split: option.splits)
  then show ?thesis
    using app_stop_time [of "release_pool_slot (source_pool_id s) (drop_sandbox i st)" "sb_vm s"] by (simp add: time_le_def)
qed (simp add: destroy_sandbox_by_id_def)

lemma destroy_one_time: "time_le st (destroy_one i st)"
proof -
  obtain r st1 where s: "snapshot_and_stop i st = (r, st1)" by (cases "snapshot_and_stop i st")
  obtain r2 st2 where d: "destroy_sandbox_by_id i st1 = (r2, st2)" by (cases "destroy_sandbox_by_id i st1")
  show ?thesis
    using s d snapshot_and_stop_time [OF s] time_le_trans [OF snapshot_and_stop_time [OF s] destroy_time [OF d]]
      destroy_sandbox_own [OF d]
    by (auto simp: destroy_one_def stop_sandbox_by_id_def split: sum.splits snapshot_stop_error.splits snapshot_blocked.splits
        stop_error.splits option.splits)
qed

lemma suspend_one_time: "time_le st (suspend_one i st)"
  unfolding suspend_one_def by (rule snapshot_and_stop_time [OF prod.collapse [symmetric]])

lemma archive_one_time: "time_le st (snd (archive_snapshot_by_id i root st))"
proof -
  have t: "time_le b b'" if "archive_task s d old b = (r, s', b')" for s d old b r s' b'
    using that unfolding archive_task_def Let_def time_le_def
    by (auto split: prod.splits sum.splits dest!: on_world_times(1) [unfolded time_le_def])
  show ?thesis
    by (auto simp: archive_snapshot_by_id_def time_le_def split: option.splits prod.splits sum.splits dest!: t [unfolded time_le_def])
qed

lemma fold_time: "(\<And>x b. time_le b (f x b)) \<Longrightarrow> time_le st (fold f xs st)"
  by (induction xs arbitrary: st) (auto intro: time_le_trans)

lemma reaper_tick_time: "w_now (wld st) + check_interval c \<le> w_now (wld (reaper_tick c st))"
proof -
  let ?st1 = "app_sleep (check_interval c) st"
  let ?st2 = "reap_once (idle_timeout c) (auto_suspend_timeout c) (w_now (wld ?st1)) ?st1"
  have "time_le ?st1 ?st2"
    unfolding reap_once_def Let_def suspend_idle_sandboxes_def destroy_idle_sandboxes_def
    by (auto split: option.splits intro: fold_time suspend_one_time destroy_one_time
        time_le_trans [OF fold_time [OF suspend_one_time] fold_time [OF destroy_one_time]])
  moreover have "time_le ?st2 (archive_idle_snapshots t root now ?st2)" for t root now
    unfolding archive_idle_snapshots_def by (rule fold_time) (rule archive_one_time)
  ultimately have "time_le ?st1 (reaper_tick c st)"
    unfolding reaper_tick_def Let_def by (auto split: option.splits intro: time_le_trans)
  then show ?thesis by (simp add: time_le_def app_sleep_def)
qed

lemma reaper_ticks_time: "w_now (wld st) + n * check_interval c \<le> w_now (wld ((reaper_tick c ^^ n) st))"
proof (induction n)
  case (Suc n)
  then show ?case using reaper_tick_time [of "(reaper_tick c ^^ n) st" c] by simp
qed simp

section \<open>Idle sandboxes are reclaimed\<close>

lemma reaper_tick_sub:
  assumes "hm_wf (sandboxes st)"
  shows "hm_wf (sandboxes (reaper_tick c st))"
    "hm_get i (sandboxes (reaper_tick c st)) = Some s \<Longrightarrow> hm_get i (sandboxes st) = Some s"
  by (rule reaper_tick_passes [OF assms, where c = c]; force)+

lemma reaper_ticks_sub:
  assumes "hm_wf (sandboxes st)"
  shows "hm_wf (sandboxes ((reaper_tick c ^^ n) st)) \<and>
    (hm_get i (sandboxes ((reaper_tick c ^^ n) st)) = Some s \<longrightarrow> hm_get i (sandboxes st) = Some s)"
proof (induction n)
  case (Suc n)
  with reaper_tick_sub(1) [of "(reaper_tick c ^^ n) st" c] reaper_tick_sub(2) [of "(reaper_tick c ^^ n) st" i c s] show ?case by auto
qed (use assms in simp)

text \<open>
  C14. The reaper gets there: with a destroy timeout configured, a sandbox that is not used again
  is no longer running after enough ticks to cover the timeout, whatever goes wrong while
  others (or itself) are suspended, snapshotted or destroyed; the ticks are between one and
  thirty seconds apart. And one tick leaves every sandbox alone that has been idle for neither
  timeout.
\<close>

theorem idle_sandboxes_reclaimed:
  assumes "hm_wf (sandboxes st)" "hm_get i (sandboxes st) = Some s" "last_activity s \<le> w_now (wld st)"
    "idle_timeout c = Some t" "t \<le> n * check_interval c" "0 < n"
  shows "hm_get i (sandboxes ((reaper_tick c ^^ n) st)) = None
    \<and> secs 1 \<le> check_interval c \<and> check_interval c \<le> secs 30
    \<and> ((\<forall>u \<in> set_option (idle_timeout c) \<union> set_option (auto_suspend_timeout c).
          \<not> is_idle (last_activity s) (w_now (wld st) + check_interval c) u)
        \<longrightarrow> hm_get i (sandboxes (reaper_tick c st)) = Some s)"
proof -
  obtain m where n: "n = Suc m" using assms(6) by (cases n) auto
  let ?b = "(reaper_tick c ^^ m) st"
  note B = reaper_ticks_sub [OF assms(1), where c = c and n = m and i = i]
  have gone: "hm_get i (sandboxes (reaper_tick c ?b)) = None"
  proof (cases "hm_get i (sandboxes (reaper_tick c ?b))")
    case (Some x)
    have wf: "hm_wf (sandboxes ?b)" using B by simp
    have "hm_get i (sandboxes ?b) = Some x" using reaper_tick_sub(2) [OF wf Some] .
    then have "x = s" using reaper_ticks_sub [OF assms(1), where c = c and n = m and i = i and s = x] assms(2) by simp
    moreover have "is_idle (last_activity s) (w_now (wld ?b) + check_interval c) t"
      using reaper_ticks_time [where st = st and n = m and c = c] assms(3,5) n by (simp add: is_idle_def)
    ultimately show ?thesis using Some reaper_tick_passes [OF wf, where c = c] assms(4) by metis
  qed simp
  moreover have "hm_get i (sandboxes (reaper_tick c st)) = Some s"
    if "\<forall>u \<in> set_option (idle_timeout c) \<union> set_option (auto_suspend_timeout c).
          \<not> is_idle (last_activity s) (w_now (wld st) + check_interval c) u"
  proof (rule reaper_tick_passes [OF assms(1), where c = c])
    fix m
    assume kept: "\<And>i. hm_get i m = hm_get i (sandboxes st) \<or> hm_get i m = None \<and>
        (\<exists>t s. auto_suspend_timeout c = Some t \<and> hm_get i (sandboxes st) = Some s \<and>
          is_idle (last_activity s) (w_now (wld st) + check_interval c) t)"
      and left: "\<And>i x. hm_get i (sandboxes (reaper_tick c st)) = Some x \<longleftrightarrow> hm_get i m = Some x \<and>
        (\<forall>t. idle_timeout c = Some t \<longrightarrow> \<not> is_idle (last_activity x) (w_now (wld st) + check_interval c) t)"
    show ?thesis using kept [of i] that assms(2) by (auto simp: left)
  qed
  ultimately show ?thesis
    using check_interval_bounds [of c] by (simp add: n MAX_CHECK_INTERVAL_def)
qed

theorem idle_sandboxes_reclaimed_witness:
  "let st = sample_app\<lparr>sandboxes := [(''s1'', sample_sandbox)]\<rparr> in
     hm_get ''s1'' (sandboxes (reaper_tick sample_config (reaper_tick sample_config st))) = None
     \<and> hm_get ''s1'' (sandboxes (reaper_tick sample_config st)) = Some sample_sandbox"
proof -
  let ?st = "sample_app\<lparr>sandboxes := [(''s1'', sample_sandbox)]\<rparr>"
  have i: "check_interval sample_config = secs 2" "idle_timeout sample_config = Some (secs 4)"
      "auto_suspend_timeout sample_config = None"
    by (simp_all add: check_interval_def sample_config_def compute_check_interval_def MAX_CHECK_INTERVAL_def map_filter_simps)
  show ?thesis
    using idle_sandboxes_reclaimed [of ?st "''s1''" sample_sandbox sample_config "secs 4" 2] i
    by (simp add: hm_wf_def hm_get_def sample_sandbox_def is_idle_def numeral_2_eq_2 Let_def)
qed

end
