(* ===== verification/Routes.thy ===== *)
theory Routes
  imports HandlersCreate Samples SnapMove
begin

text \<open>
  The routes that administer what sandboxes are made of: pool configurations
  (\<^verbatim>\<open>routes_pool.rs\<close>), persistent drives (\<^verbatim>\<open>routes_drives.rs\<close>) and registered images
  (\<^verbatim>\<open>routes_images.rs\<close>). Creation times of files are the file system's: a
  parameter. Of an image's summary the constant hint about verifying it is left out.
\<close>

section \<open>Pools\<close>

record create_pool_request =
  cp_id :: string
  cp_image_id :: "string option"
  cp_vcpu_count :: "u8 option"
  cp_mem_size_mib :: "u32 option"
  cp_warm_count :: u32
  cp_max_count :: "u32 option"

definition create_pool_request_of_json :: "json \<Rightarrow> create_pool_request option" where
  "create_pool_request_of_json j = do {
     kvs \<leftarrow> jobj j; i \<leftarrow> jreq ''id'' jstr kvs; img \<leftarrow> joptional ''image_id'' jstr kvs;
     v \<leftarrow> joptional ''vcpu_count'' unjword kvs; m \<leftarrow> joptional ''mem_size_mib'' unjword kvs;
     w \<leftarrow> jreq ''warm_count'' unjword kvs; mx \<leftarrow> joptional ''max_count'' unjword kvs;
     Some \<lparr>cp_id = i, cp_image_id = img, cp_vcpu_count = v, cp_mem_size_mib = m, cp_warm_count = w, cp_max_count = mx\<rparr> }"

definition summarize :: "pool \<Rightarrow> json" where
  "summarize p =
     JObj [(''id'', JStr (pc_id (pool_conf p))), (''image_id'', opt_json JStr (pc_image_id (pool_conf p))),
           (''vcpu_count'', jword (pc_vcpu_count (pool_conf p))), (''mem_size_mib'', jword (pc_mem_size_mib (pool_conf p))),
           (''warm_count'', jword (warm_count (pool_conf p))), (''max_count'', opt_json jword (max_count (pool_conf p))),
           (''warm_ready'', jword (of_nat (warm_ready p) :: u64)), (''claimed'', jword (claimed_count p))]"

definition create_pool :: "create_pool_request \<Rightarrow> app \<Rightarrow> (app_error, json) result \<times> app" where
  "create_pool req st =
     (if cp_id req = [] then (Inl (BadRequest (Msg ''pool id must not be empty'' [])), st)
      else if (case cp_image_id req of Some img \<Rightarrow> \<not> image_exists (images st) img (w_fs (wld st)) | None \<Rightarrow> False)
      then (Inl (ImageNotFound (the (cp_image_id req))), st)
      else
     (case resolve_resource_override (cp_vcpu_count req) (cf_vcpu_count (app_config st)) (max_vcpu_count (app_config st)) ''vcpu_count'' of
        Inl m \<Rightarrow> (Inl (BadRequest m), st) | Inr v \<Rightarrow>
     (case resolve_resource_override (cp_mem_size_mib req) (cf_mem_size_mib (app_config st)) (max_mem_size_mib (app_config st)) ''mem_size_mib'' of
        Inl m \<Rightarrow> (Inl (BadRequest m), st) | Inr mem \<Rightarrow>
     (if cp_max_count req = Some 0 then (Inl (BadRequest (Msg ''max_count must be greater than 0 if given at all'' [])), st)
      else
     (let conf = \<lparr>pc_id = cp_id req, pc_image_id = cp_image_id req, pc_vcpu_count = v, pc_mem_size_mib = mem,
                  warm_count = cp_warm_count req, max_count = cp_max_count req\<rparr> in
      if hm_contains (cp_id req) (app_pools st)
      then (Inl (Conflict (Msg ''pool {} already exists'' [cp_id req])), st)
      else (Inr (summarize (pool_new conf)), st\<lparr>app_pools := hm_insert (cp_id req) (pool_new conf) (app_pools st)\<rparr>))))))"

definition list_pools :: "app \<Rightarrow> json" where
  "list_pools st = JObj [(''pools'', JArr (map summarize (hm_values (app_pools st))))]"

text \<open>Deleting a pool deletes what it has warm; a snapshot that cannot be deleted is only logged.\<close>

function drain_pool :: "pool \<Rightarrow> app \<Rightarrow> app" where
  "drain_pool p st =
     (case take_warm p of None \<Rightarrow> st | Some (sid, q) \<Rightarrow> drain_pool q (snd (delete_snapshot_by_id sid st)))"
  by pat_completeness auto

termination
  by (relation "measure (\<lambda>(p, _). length (warm p))") (auto simp: take_warm_def split: list.splits)

declare drain_pool.simps [simp del]

definition delete_pool :: "string \<Rightarrow> app \<Rightarrow> (app_error, http_ok) result \<times> app" where
  "delete_pool i st =
     (case hm_get i (app_pools st) of None \<Rightarrow> (Inl (SandboxNotFound i), st)
      | Some p \<Rightarrow> (Inr NoContent, drain_pool p (st\<lparr>app_pools := hm_remove i (app_pools st)\<rparr>)))"

section \<open>Drives\<close>

definition bytes_to_mib :: "nat \<Rightarrow> u64" where
  "bytes_to_mib n = of_nat n div (1024 * 1024)"

definition drive_holder_json :: "drive_hold \<Rightarrow> json" where
  "drive_holder_json h = JObj [(''holder'', JStr (dh_holder h)), (''read_only'', JBool (dh_read_only h))]"

definition drive_summary :: "string \<Rightarrow> u64 \<Rightarrow> u64 \<Rightarrow> drive_hold list \<Rightarrow> json" where
  "drive_summary i mib created hs =
     JObj [(''id'', JStr i), (''size_mib'', jword mib), (''created_at_unix'', jword created),
           (''attached_to'', JArr (map drive_holder_json hs))]"

definition create_drive :: "u64 \<Rightarrow> app \<Rightarrow> (app_error, json) result \<times> app" where
  "create_drive size_mib st =
     (case app_uuid st of (i, st1) \<Rightarrow>
     (case on_world (on_disk (drive_create (drives st1) i size_mib)) st1 of
        (Inl e, st2) \<Rightarrow> (Inl (if io_err_kind e = InvalidInput then BadRequest (io_err_msg e) else Internal e), st2)
      | (Inr _, st2) \<Rightarrow> (Inr (drive_summary i size_mib (epoch_secs (app_now st2)) []), st2)))"

definition list_drives :: "(string \<Rightarrow> int option) \<Rightarrow> app \<Rightarrow> (app_error, json) result \<times> app" where
  "list_drives created st =
     (case on_world (on_fs (drive_list (drives st) created)) st of
        (Inl e, st1) \<Rightarrow> (Inl (Internal e), st1)
      | (Inr infos, st1) \<Rightarrow>
          (Inr (JObj [(''drives'', JArr (map
             (\<lambda>d. drive_summary (di_id d) (bytes_to_mib (di_size_bytes d)) (epoch_secs (di_created_at d)) (drive_holders (di_id d) st1))
             infos))]), st1))"

definition delete_drive :: "string \<Rightarrow> app \<Rightarrow> (app_error, http_ok) result \<times> app" where
  "delete_drive i st =
     (let hs = drive_holders i st in
      if hs \<noteq> [] then (Inl (Conflict (Msg ''drive {} is attached to {}'' [i, describe_drive_holders hs])), st)
      else
     (case on_world (on_fs (drive_delete (drives st) i)) st of
        (Inl e, st1) \<Rightarrow> (Inl (if io_err_kind e = NotFound then DriveNotFound i else Internal e), st1)
      | (Inr _, st1) \<Rightarrow> (Inr NoContent, st1)))"

section \<open>Images\<close>

definition image_summary :: "string \<Rightarrow> u64 \<Rightarrow> u64 \<Rightarrow> string option \<Rightarrow> json" where
  "image_summary i mib created holder =
     JObj [(''id'', JStr i), (''size_mib'', jword mib), (''created_at_unix'', jword created),
           (''in_use_by'', opt_json JStr holder), (''guest_agent_verified'', JBool False)]"

definition map_image_io_error :: "io_error \<Rightarrow> app_error" where
  "map_image_io_error e =
     (case io_err_kind e of
        InvalidInput \<Rightarrow> BadRequest (io_err_msg e)
      | AlreadyExists \<Rightarrow> Conflict (io_err_msg e)
      | NotFound \<Rightarrow> BadRequest (io_err_msg e)
      | _ \<Rightarrow> Internal e)"

text \<open>The creation time is the UNIX epoch where the file system has none.\<close>

definition create_image :: "(string \<Rightarrow> int option) \<Rightarrow> string \<Rightarrow> string \<Rightarrow> app \<Rightarrow> (app_error, json) result \<times> app" where
  "create_image created i source st =
     (case on_world (on_disk (image_register (images st) i source)) st of
        (Inl e, st1) \<Rightarrow> (Inl (map_image_io_error e), st1)
      | (Inr path, st1) \<Rightarrow>
     (case on_world (on_fs (metadata path)) st1 of
        (Inl e, st2) \<Rightarrow> (Inl (map_image_io_error e), st2)
      | (Inr (_, len), st2) \<Rightarrow>
          (Inr (image_summary i (bytes_to_mib len)
                  (epoch_secs (case created path of Some t \<Rightarrow> t | None \<Rightarrow> 0)) None), st2)))"

definition list_images :: "(string \<Rightarrow> int option) \<Rightarrow> app \<Rightarrow> (app_error, json) result \<times> app" where
  "list_images created st =
     (case on_world (on_fs (image_list (images st) created)) st of
        (Inl e, st1) \<Rightarrow> (Inl (Internal e), st1)
      | (Inr infos, st1) \<Rightarrow>
          (Inr (JObj [(''images'', JArr (map
             (\<lambda>d. image_summary (di_id d) (bytes_to_mib (di_size_bytes d)) (epoch_secs (di_created_at d)) (image_holder (di_id d) st1))
             infos))]), st1))"

definition delete_image :: "string \<Rightarrow> app \<Rightarrow> (app_error, http_ok) result \<times> app" where
  "delete_image i st =
     (case image_holder i st of
        Some holder \<Rightarrow> (Inl (Conflict (Msg ''image {} is in use by {}'' [i, holder])), st)
      | None \<Rightarrow>
     (case on_world (on_fs (image_delete (images st) i)) st of
        (Inl e, st1) \<Rightarrow>
          (Inl (case io_err_kind e of NotFound \<Rightarrow> ImageNotFound i | InvalidInput \<Rightarrow> BadRequest (io_err_msg e) | _ \<Rightarrow> Internal e), st1)
      | (Inr _, st1) \<Rightarrow> (Inr NoContent, st1)))"

section \<open>Ownership\<close>

lemma drain_pool_eq:
  "take_warm p = None \<Longrightarrow> drain_pool p st = st"
  "take_warm p = Some (sid, q) \<Longrightarrow> drain_pool p st = drain_pool q (snd (delete_snapshot_by_id sid st))"
  by (subst drain_pool.simps, simp)+

lemma drain_pool_steps: "own_steps N (own_of st) (own_of (drain_pool p st))"
proof (induction p st rule: drain_pool.induct)
  case (1 p st)
  show ?case
  proof (cases "take_warm p")
    case (Some x)
    obtain sid q where x: "take_warm p = Some (sid, q)" using Some by (cases x) simp
    have "own_steps N (own_of st) (own_of (snd (delete_snapshot_by_id sid st)))"
      by (rule delete_steps [OF prod.collapse [symmetric]])
    moreover have "own_steps N (own_of (snd (delete_snapshot_by_id sid st))) (own_of (drain_pool p st))"
      unfolding drain_pool_eq(2) [OF x] by (rule 1 [OF x refl])
    ultimately show ?thesis by (rule own_steps_trans)
  qed (simp add: drain_pool_eq(1))
qed

lemma pool_route_steps:
  "create_pool req st = (r, st1) \<Longrightarrow> own_of st1 = own_of st"
  "delete_pool i st = (r0, st2) \<Longrightarrow> own_steps N (own_of st) (own_of st2)"
  using drain_pool_steps [of N "st\<lparr>app_pools := hm_remove i (app_pools st)\<rparr>"]
  by (auto simp: create_pool_def delete_pool_def Let_def split: if_splits sum.splits option.splits)

section \<open>Deleting\<close>

text \<open>What refers to a drive or an image, whoever holds it.\<close>

definition drive_referenced :: "string \<Rightarrow> app \<Rightarrow> bool" where
  "drive_referenced d st =
     (d \<in> ad_drive_id ` (\<Union>s \<in> set (hm_values (sandboxes st)). set (sb_attached_drives s))
      \<or> d \<in> ad_drive_id ` (\<Union>s \<in> set (hm_values (snapshots st)). set (sn_attached_drives s))
      \<or> d \<in> ad_drive_id ` (\<Union>s \<in> set (hm_values (retired_snapshots st)). set (rt_attached_drives s)))"

definition image_referenced :: "string \<Rightarrow> app \<Rightarrow> bool" where
  "image_referenced i st =
     (0 < image_boots i st \<or> Some i \<in> sb_image_id ` set (hm_values (sandboxes st))
      \<or> Some i \<in> sn_image_id ` set (hm_values (snapshots st)) \<or> Some i \<in> rt_image_id ` set (hm_values (retired_snapshots st)))"

lemma drive_referenced_iff: "drive_holders d st = [] \<longleftrightarrow> \<not> drive_referenced d st"
  by (auto simp: drive_free_iff drive_referenced_def)

lemma image_referenced_iff: "image_holder i st = None \<longleftrightarrow> \<not> image_referenced i st"
  by (auto simp: image_free_iff image_referenced_def image_iff)

text \<open>The disk after one file of a store was asked to go: that file gone, or nothing changed.\<close>

definition deleted_only :: "string \<Rightarrow> (app_error, http_ok) result \<Rightarrow> app \<Rightarrow> app \<Rightarrow> bool" where
  "deleted_only path r st st' =
     (case r of
        Inr _ \<Rightarrow> is_file path (w_fs (wld st)) \<and> node_at path (w_fs (wld st')) = None
          \<and> (\<forall>q. resolve q = resolve path \<or> node_at q (w_fs (wld st')) = node_at q (w_fs (wld st)))
      | Inl _ \<Rightarrow> (\<forall>q. node_at q (w_fs (wld st')) = node_at q (w_fs (wld st))))"

lemma store_delete_only:
  assumes "on_world (on_fs F) st = (r, st1)" "F = (\<lambda>f. if id_chars_ok i then remove_file path f else (Inl e, f))"
    "id_chars_ok i \<Longrightarrow> resolve path \<noteq> []"
  shows "deleted_only path (case r of Inl e \<Rightarrow> Inl (g e) | Inr _ \<Rightarrow> Inr NoContent) st st1 \<and> (is_ok r \<longrightarrow> id_chars_ok i)"
proof (cases "id_chars_ok i")
  case True
  obtain r1 f1 where m: "remove_file path (w_fs (wld st)) = (r1, f1)" by (cases "remove_file path (w_fs (wld st))")
  have st1: "r = r1" "w_fs (wld st1) = f1" using assms(1,2) True m by (auto simp: on_world_def on_fs_def)
  have gone: "is_file path (w_fs (wld st))" "node_at path f1 = None" if "r1 = Inr ()"
    using m that assms(3) [OF True]
    by (auto simp: remove_file_def fs_simps is_file_def split: prod.splits option.splits if_splits
        dest!: fs_try_eq node_at_cong [of _ _ path])
  show ?thesis
    using remove_file_cases [OF m] gone True
    by (cases r1) (auto simp: st1 deleted_only_def)
qed (use assms(1,2) in \<open>auto simp: on_world_def on_fs_def deleted_only_def\<close>)

text \<open>
  C13. Deleting is safe: a drive that any sandbox, snapshot or retired checkpoint attaches, and an
  image that any of them or a boot in flight uses, is refused with 409 and nothing changes;
  otherwise, on success, exactly the file of that id is gone, which was there, and on failure
  every file is as it was. An id that is not well-formed deletes nothing.
\<close>

theorem deletes_only_unreferenced:
  assumes "delete_drive i st = (r, st1)" "delete_image j st = (r', st2)"
  shows "(if drive_referenced i st then (\<exists>m. r = Inl (Conflict m)) \<and> st1 = st
      else deleted_only (drive_path_for (drives st) i) r st st1 \<and> (is_ok r \<longrightarrow> id_chars_ok i))
    \<and> (if image_referenced j st then (\<exists>m. r' = Inl (Conflict m)) \<and> st2 = st
      else deleted_only (image_path_for (images st) j) r' st st2 \<and> (is_ok r' \<longrightarrow> id_chars_ok j))"
proof
  have d: "drive_delete (drives st) i = (\<lambda>f. if id_chars_ok i then remove_file (drive_path_for (drives st) i) f
      else (Inl (IoError InvalidInput (Msg ''invalid drive id'' [i])), f))"
    by (auto simp: drive_delete_def drive_validate_id_def)
  have "id_chars_ok i \<Longrightarrow> resolve (drive_path_for (drives st) i) \<noteq> []"
    using drive_files.path_confined [of i] by (simp add: drive_validate_id_def)
  note S = store_delete_only [OF _ d this]
  obtain q st3 where q: "on_world (on_fs (drive_delete (drives st) i)) st = (q, st3)" by fastforce
  show "if drive_referenced i st then (\<exists>m. r = Inl (Conflict m)) \<and> st1 = st
      else deleted_only (drive_path_for (drives st) i) r st st1 \<and> (is_ok r \<longrightarrow> id_chars_ok i)"
    using assms(1) q S [OF q, of "\<lambda>e. if io_err_kind e = NotFound then DriveNotFound i else Internal e"]
    by (cases q) (auto simp: delete_drive_def Let_def drive_referenced_iff)
  have e: "image_delete (images st) j = (\<lambda>f. if id_chars_ok j then remove_file (image_path_for (images st) j) f
      else (Inl (IoError InvalidInput (Msg ''invalid image id'' [j])), f))"
    by (auto simp: image_delete_def image_validate_id_def)
  have "id_chars_ok j \<Longrightarrow> resolve (image_path_for (images st) j) \<noteq> []"
    using image_files.path_confined [of j] by (simp add: image_validate_id_def)
  note T = store_delete_only [OF _ e this]
  obtain q st3 where q: "on_world (on_fs (image_delete (images st) j)) st = (q, st3)" by fastforce
  show "if image_referenced j st then (\<exists>m. r' = Inl (Conflict m)) \<and> st2 = st
      else deleted_only (image_path_for (images st) j) r' st st2 \<and> (is_ok r' \<longrightarrow> id_chars_ok j)"
    using assms(2) q T [OF q, of "\<lambda>e. case io_err_kind e of NotFound \<Rightarrow> ImageNotFound j
        | InvalidInput \<Rightarrow> BadRequest (io_err_msg e) | _ \<Rightarrow> Internal e"]
      image_referenced_iff [of j st]
    by (cases "image_holder j st"; cases q) (auto simp: delete_image_def)
qed

definition stocked_disk :: fs where
  "stocked_disk =
     \<lparr>fs_nodes = [([''drives''], DirNode), ([''drives'', ''a.ext4''], FileNode [1] 1), ([''drives'', ''b.ext4''], FileNode [2] 1),
        ([''images''], DirNode), ([''images'', ''i.ext4''], FileNode [3] 1)],
      fs_faults = (\<lambda>_ _. None), fs_ops = [], cmd_effect = (\<lambda>_ ns. ns)\<rparr>"

definition stocked_app :: app where
  "stocked_app =
     sample_app\<lparr>sandboxes := [(''s1'', sample_sandbox\<lparr>sb_attached_drives := [\<lparr>ad_drive_id = ''a'', ad_read_only = True\<rparr>]\<rparr>)],
       wld := (wld sample_app)\<lparr>w_fs := stocked_disk\<rparr>\<rparr>"

lemma stocked_references: "\<not> drive_referenced ''b'' stocked_app" "drive_referenced ''a'' stocked_app" "\<not> image_referenced ''i'' stocked_app"
  by (simp_all add: drive_referenced_def image_referenced_def stocked_app_def hm_values_def sample_sandbox_def sample_app_def app_new_def image_boots_def hm_get_def)

lemma stocked_files: "is_ok (fst (remove_file ''/drives/b.ext4'' stocked_disk))" "is_ok (fst (remove_file ''/images/i.ext4'' stocked_disk))"
  "node_at ''/drives/a.ext4'' stocked_disk = Some (FileNode [1] 1)" "resolve ''/drives/a.ext4'' \<noteq> resolve ''/drives/b.ext4''" "id_chars_ok ''i''" "id_chars_ok ''b''"
  by code_simp+

lemma stocked_paths: "drive_path_for (drives stocked_app) ''b'' = ''/drives/b.ext4''" "image_path_for (images stocked_app) ''i'' = ''/images/i.ext4''" "w_fs (wld stocked_app) = stocked_disk"
  by (simp_all add: drive_path_for_def image_path_for_def stocked_app_def path_join_def sample_app_def app_new_def)

theorem deletes_only_unreferenced_witness:
  "\<exists>st1 st2 st3 m. delete_drive ''b'' stocked_app = (Inr NoContent, st1) \<and> delete_image ''i'' stocked_app = (Inr NoContent, st2)
     \<and> delete_drive ''a'' stocked_app = (Inl (Conflict m), st3)
     \<and> node_at ''/drives/b.ext4'' (w_fs (wld st1)) = None \<and> node_at ''/drives/a.ext4'' (w_fs (wld st1)) = Some (FileNode [1] 1)
     \<and> node_at ''/images/i.ext4'' (w_fs (wld st2)) = None \<and> st3 = stocked_app"
proof -
  obtain f1 where f1: "remove_file ''/drives/b.ext4'' stocked_disk = (Inr (), f1)"
    using stocked_files(1) by (cases "remove_file ''/drives/b.ext4'' stocked_disk"; cases "fst (remove_file ''/drives/b.ext4'' stocked_disk)") auto
  obtain f2 where f2: "remove_file ''/images/i.ext4'' stocked_disk = (Inr (), f2)"
    using stocked_files(2) by (cases "remove_file ''/images/i.ext4'' stocked_disk"; cases "fst (remove_file ''/images/i.ext4'' stocked_disk)") auto
  obtain st1 where d: "delete_drive ''b'' stocked_app = (Inr NoContent, st1)"
    using stocked_references(1) f1 stocked_files(6) stocked_paths
    by (simp add: delete_drive_def drive_referenced_iff [symmetric] on_world_def on_fs_def drive_delete_def drive_validate_id_def)
  obtain st2 where i: "delete_image ''i'' stocked_app = (Inr NoContent, st2)"
    using stocked_references(3) f2 stocked_files(5) stocked_paths
    by (simp add: delete_image_def image_referenced_iff [symmetric] on_world_def on_fs_def image_delete_def image_validate_id_def)
  obtain r3 st3 where a: "delete_drive ''a'' stocked_app = (r3, st3)" by (cases "delete_drive ''a'' stocked_app")
  note D = deletes_only_unreferenced [OF d i, unfolded if_not_P [OF stocked_references(1)] if_not_P [OF stocked_references(3)] stocked_paths]
  note A = conjunct1 [OF deletes_only_unreferenced [OF a i], unfolded if_P [OF stocked_references(2)]]
  have "node_at ''/drives/a.ext4'' (w_fs (wld st1)) = Some (FileNode [1] 1)"
    using D stocked_files(3,4) by (simp add: deleted_only_def stocked_paths del: resolve_def) metis
  then show ?thesis using D A d i a by (auto simp: deleted_only_def)
qed

end
