(* ===== verification/Guest.thy ===== *)
theory Guest
  imports Samples Ownership
begin

text \<open>
  The routes that forward one request to the agent inside a sandbox and report its answer:
  \<^verbatim>\<open>routes_exec.rs\<close> and \<^verbatim>\<open>routes_fs.rs\<close>. All of them go through \<open>call_agent\<close>, which notes the
  activity of the sandbox before it calls. The agent's answer is a parameter of the world.
\<close>

section \<open>Calling the agent\<close>

definition update_sandbox :: "string \<Rightarrow> (sandbox \<Rightarrow> sandbox) \<Rightarrow> app \<Rightarrow> app" where
  "update_sandbox i f st = st\<lparr>sandboxes := hm_modify i f (sandboxes st)\<rparr>"

definition note_activity :: "string \<Rightarrow> app \<Rightarrow> app" where
  "note_activity i st = update_sandbox i (\<lambda>s. s\<lparr>last_activity := w_now (wld st)\<rparr>) st"

definition call_agent :: "string \<Rightarrow> request \<Rightarrow> app \<Rightarrow> (app_error, response) result \<times> app" where
  "call_agent i req st =
     (case hm_get i (sandboxes st) of None \<Rightarrow> (Inl (SandboxNotFound i), st) | Some s \<Rightarrow>
     (case on_world (vm_call (sb_vm s) req) (note_activity i st) of
        (Inl e, st1) \<Rightarrow> (Inl (Internal e), st1)
      | (Inr r, st1) \<Rightarrow> (Inr r, st1)))"

definition unexpected_response :: app_error where
  "unexpected_response = Internal (io_other ''unexpected agent response'' [])"

definition ok_or_bad_request :: "response \<Rightarrow> (app_error, http_ok) result" where
  "ok_or_bad_request r =
     (case r of ROk \<Rightarrow> Inr NoContent | RError m \<Rightarrow> Inl (BadRequest (Msg m [])) | _ \<Rightarrow> Inl unexpected_response)"

text \<open>A route: the call, then the decoding of the answer.\<close>

definition agent_route :: "(response \<Rightarrow> (app_error, 'a) result) \<Rightarrow> string \<Rightarrow> request \<Rightarrow> app \<Rightarrow> (app_error, 'a) result \<times> app" where
  "agent_route decode i req st =
     (case call_agent i req st of (Inl e, st1) \<Rightarrow> (Inl e, st1) | (Inr r, st1) \<Rightarrow> (decode r, st1))"

section \<open>Running a command\<close>

record exec_body =
  eb_command :: string
  eb_args :: "string list"
  eb_env :: env_vars

definition exec_body_of_json :: "json \<Rightarrow> exec_body option" where
  "exec_body_of_json j = do {
     kvs \<leftarrow> jobj j; c \<leftarrow> jreq ''command'' jstr kvs; as \<leftarrow> jdef ''args'' [] (jlist jstr) kvs; env \<leftarrow> jdef ''env'' [] unjmap kvs;
     Some \<lparr>eb_command = c, eb_args = as, eb_env = env\<rparr> }"

text \<open>\<^verbatim>\<open>HashMap::extend\<close>.\<close>

definition hm_extend :: "'v hash_map \<Rightarrow> 'v hash_map \<Rightarrow> 'v hash_map" where
  "hm_extend m n = fold (\<lambda>(k, v) acc. hm_insert k v acc) n m"

definition resolve_env :: "string \<Rightarrow> env_vars \<Rightarrow> app \<Rightarrow> (app_error, env_vars) result" where
  "resolve_env i call_env st =
     (case hm_get i (sandboxes st) of None \<Rightarrow> Inl (SandboxNotFound i) | Some s \<Rightarrow> Inr (hm_extend (sb_env s) call_env))"

definition exec_response :: "response \<Rightarrow> (app_error, http_ok) result" where
  "exec_response r =
     (case r of
        RExec out err code \<Rightarrow> Inr (OkJson (JObj [(''stdout'', JStr out), (''stderr'', JStr err), (''exit_code'', JNum code)]))
      | _ \<Rightarrow> Inl unexpected_response)"

definition exec_command :: "string \<Rightarrow> exec_body \<Rightarrow> app \<Rightarrow> (app_error, http_ok) result \<times> app" where
  "exec_command i body st =
     (case resolve_env i (eb_env body) st of
        Inl e \<Rightarrow> (Inl e, st)
      | Inr env \<Rightarrow> agent_route exec_response i (Exec (eb_command body) (eb_args body) env) st)"

section \<open>Files\<close>

definition path_of_json :: "json \<Rightarrow> string option" where
  "path_of_json j = do { kvs \<leftarrow> jobj j; jreq ''path'' jstr kvs }"

definition file_response :: "response \<Rightarrow> (app_error, http_ok) result" where
  "file_response r =
     (case r of
        RFile c \<Rightarrow> Inr (OkJson (JObj [(''content_base64'', JStr c)]))
      | RError m \<Rightarrow> Inl (BadRequest (Msg m []))
      | _ \<Rightarrow> Inl unexpected_response)"

definition read_file_route :: "string \<Rightarrow> string \<Rightarrow> app \<Rightarrow> (app_error, http_ok) result \<times> app" where
  "read_file_route i path st = agent_route file_response i (ReadFile path) st"

definition write_body_of_json :: "json \<Rightarrow> (string \<times> string) option" where
  "write_body_of_json j = do { kvs \<leftarrow> jobj j; p \<leftarrow> jreq ''path'' jstr kvs; c \<leftarrow> jreq ''content_base64'' jstr kvs; Some (p, c) }"

definition write_file_route :: "string \<Rightarrow> string \<Rightarrow> string \<Rightarrow> app \<Rightarrow> (app_error, http_ok) result \<times> app" where
  "write_file_route i path content st = agent_route ok_or_bad_request i (WriteFile path content) st"

definition chmod_body_of_json :: "json \<Rightarrow> (string \<times> u32) option" where
  "chmod_body_of_json j = do { kvs \<leftarrow> jobj j; p \<leftarrow> jreq ''path'' jstr kvs; m \<leftarrow> jreq ''mode'' unjword kvs; Some (p, m) }"

definition chmod_route :: "string \<Rightarrow> string \<Rightarrow> u32 \<Rightarrow> app \<Rightarrow> (app_error, http_ok) result \<times> app" where
  "chmod_route i path mode st = agent_route ok_or_bad_request i (Chmod path mode) st"

definition chown_body_of_json :: "json \<Rightarrow> (string \<times> u32 \<times> u32) option" where
  "chown_body_of_json j = do {
     kvs \<leftarrow> jobj j; p \<leftarrow> jreq ''path'' jstr kvs; u \<leftarrow> jreq ''uid'' unjword kvs; g \<leftarrow> jreq ''gid'' unjword kvs; Some (p, u, g) }"

definition chown_route :: "string \<Rightarrow> string \<Rightarrow> u32 \<Rightarrow> u32 \<Rightarrow> app \<Rightarrow> (app_error, http_ok) result \<times> app" where
  "chown_route i path uid gid st = agent_route ok_or_bad_request i (Chown path uid gid) st"

definition mkdir_body_of_json :: "json \<Rightarrow> (string \<times> bool) option" where
  "mkdir_body_of_json j = do { kvs \<leftarrow> jobj j; p \<leftarrow> jreq ''path'' jstr kvs; ps \<leftarrow> jdef ''parents'' False jbool kvs; Some (p, ps) }"

definition mkdir_route :: "string \<Rightarrow> string \<Rightarrow> bool \<Rightarrow> app \<Rightarrow> (app_error, http_ok) result \<times> app" where
  "mkdir_route i path parents st = agent_route ok_or_bad_request i (Mkdir path parents) st"

definition from_to_of_json :: "json \<Rightarrow> (string \<times> string) option" where
  "from_to_of_json j = do { kvs \<leftarrow> jobj j; a \<leftarrow> jreq ''from'' jstr kvs; b \<leftarrow> jreq ''to'' jstr kvs; Some (a, b) }"

definition rename_route :: "string \<Rightarrow> string \<Rightarrow> string \<Rightarrow> app \<Rightarrow> (app_error, http_ok) result \<times> app" where
  "rename_route i a b st = agent_route ok_or_bad_request i (Rename a b) st"

definition copy_route :: "string \<Rightarrow> string \<Rightarrow> string \<Rightarrow> app \<Rightarrow> (app_error, http_ok) result \<times> app" where
  "copy_route i a b st = agent_route ok_or_bad_request i (Copy a b) st"

definition symlink_body_of_json :: "json \<Rightarrow> (string \<times> string) option" where
  "symlink_body_of_json j = do { kvs \<leftarrow> jobj j; t \<leftarrow> jreq ''target'' jstr kvs; l \<leftarrow> jreq ''link_path'' jstr kvs; Some (t, l) }"

definition symlink_route :: "string \<Rightarrow> string \<Rightarrow> string \<Rightarrow> app \<Rightarrow> (app_error, http_ok) result \<times> app" where
  "symlink_route i target link_path st = agent_route ok_or_bad_request i (Symlink target link_path) st"

definition link_response :: "response \<Rightarrow> (app_error, http_ok) result" where
  "link_response r =
     (case r of
        RLink t \<Rightarrow> Inr (OkJson (JObj [(''target'', JStr t)]))
      | RError m \<Rightarrow> Inl (BadRequest (Msg m []))
      | _ \<Rightarrow> Inl unexpected_response)"

definition readlink_route :: "string \<Rightarrow> string \<Rightarrow> app \<Rightarrow> (app_error, http_ok) result \<times> app" where
  "readlink_route i path st = agent_route link_response i (Readlink path) st"

definition truncate_body_of_json :: "json \<Rightarrow> (string \<times> u64) option" where
  "truncate_body_of_json j = do { kvs \<leftarrow> jobj j; p \<leftarrow> jreq ''path'' jstr kvs; n \<leftarrow> jreq ''size'' unjword kvs; Some (p, n) }"

definition truncate_route :: "string \<Rightarrow> string \<Rightarrow> u64 \<Rightarrow> app \<Rightarrow> (app_error, http_ok) result \<times> app" where
  "truncate_route i path n st = agent_route ok_or_bad_request i (Truncate path n) st"

text \<open>The HTTP shape of a directory entry has the same fields as the wire's.\<close>

definition dir_entry_body :: "dir_entry \<Rightarrow> json" where
  "dir_entry_body e =
     JObj [(''name'', JStr (de_name e)), (''is_dir'', JBool (de_is_dir e)), (''is_symlink'', JBool (de_is_symlink e)),
           (''size'', jword (de_size e)), (''mode'', jword (de_mode e)), (''mtime_unix'', jword (de_mtime_unix e))]"

definition dir_response :: "response \<Rightarrow> (app_error, http_ok) result" where
  "dir_response r =
     (case r of
        RDir es \<Rightarrow> Inr (OkJson (JObj [(''entries'', JArr (map dir_entry_body es))]))
      | RError m \<Rightarrow> Inl (BadRequest (Msg m []))
      | _ \<Rightarrow> Inl unexpected_response)"

definition list_dir_route :: "string \<Rightarrow> string \<Rightarrow> app \<Rightarrow> (app_error, http_ok) result \<times> app" where
  "list_dir_route i path st = agent_route dir_response i (ListDir path) st"

section \<open>What a call does\<close>

lemma call_agent_cases:
  assumes "call_agent i req st = (r, st')"
  obtains (missing) "hm_get i (sandboxes st) = None" "r = Inl (SandboxNotFound i)" "st' = st"
  | (called) s x w where "hm_get i (sandboxes st) = Some s" "vm_call (sb_vm s) req (wld st) = (x, w)"
      "r = (case x of Inl e \<Rightarrow> Inl (Internal e) | Inr y \<Rightarrow> Inr y)" "st' = (note_activity i st)\<lparr>wld := w\<rparr>"
proof (cases "hm_get i (sandboxes st)")
  case None
  with assms show thesis by (intro missing) (simp_all add: call_agent_def)
next
  case (Some s)
  obtain x w where v: "vm_call (sb_vm s) req (wld st) = (x, w)" by (cases "vm_call (sb_vm s) req (wld st)")
  have "wld (note_activity i st) = wld st" by (simp add: note_activity_def update_sandbox_def)
  with assms Some v show thesis by (intro called [OF Some v]) (auto simp: call_agent_def on_world_def split: sum.splits)
qed

section \<open>The attempts of a call\<close>

text \<open>The agent's answer to the attempt after \<open>k\<close> others with the same request.\<close>

definition nth_answer :: "world \<Rightarrow> string \<Rightarrow> request \<Rightarrow> nat \<Rightarrow> (io_error, response) result" where
  "nth_answer w sock req k = agent w (fc_events w @ replicate k (FcCall sock req)) sock req"

lemma retry_attempts:
  assumes "retry_loop d i m (vsock_call sock req) w = (x, w')"
  shows "\<exists>n. fc_events w' = fc_events w @ replicate (Suc n) (FcCall sock req) \<and> x = nth_answer w sock req n
    \<and> (\<forall>k < n. \<not> is_ok (nth_answer w sock req k))
    \<and> (n = 0 \<longleftrightarrow> is_ok (nth_answer w sock req 0) \<or> d \<le> w_now w + snd (fc_answer w (fc_events w) (FcCall sock req)))"
  using assms
proof (induction d i m "vsock_call sock req" w arbitrary: x w' rule: retry_loop.induct)
  case (1 d i m w)
  define t where "t = snd (fc_answer w (fc_events w) (FcCall sock req))"
  define w1 where "w1 = w\<lparr>fc_events := fc_events w @ [FcCall sock req], w_now := w_now w + t\<rparr>"
  have a: "vsock_call sock req w = (nth_answer w sock req 0, w1)"
    by (simp add: vsock_call_def nth_answer_def w1_def t_def)
  show ?case
  proof (cases "is_ok (nth_answer w sock req 0) \<or> d \<le> w_now w + t")
    case True
    have "x = nth_answer w sock req 0 \<and> w' = w1"
      using 1(2) True a by (subst (asm) retry_loop.simps) (auto simp: Let_def w1_def split: sum.splits)
    with True show ?thesis by (intro exI [of _ 0]) (simp add: w1_def t_def)
  next
    case False
    then obtain e where e: "nth_answer w sock req 0 = Inl e" by (cases "nth_answer w sock req 0") auto
    define w2 where "w2 = w1\<lparr>w_now := max (w_now w) (w_now w1) + max 1 i\<rparr>"
    have "retry_loop d (min (i * 2) m) m (vsock_call sock req) w2 = (x, w')"
      using 1(2) False a e by (subst (asm) retry_loop.simps) (simp add: Let_def w1_def w2_def)
    moreover have "\<not> d \<le> max (w_now w) (w_now w1)" using False by (simp add: w1_def)
    note IH = 1(1) [OF a [symmetric] e refl this, folded w2_def]
    ultimately obtain n where
      n: "fc_events w' = fc_events w2 @ replicate (Suc n) (FcCall sock req)" "x = nth_answer w2 sock req n"
        "\<forall>k < n. \<not> is_ok (nth_answer w2 sock req k)"
      using IH by blast
    have s: "nth_answer w2 sock req k = nth_answer w sock req (Suc k)" for k
      by (simp add: nth_answer_def w2_def w1_def replicate_append_same flip: replicate_Suc)
    have "\<not> is_ok (nth_answer w sock req k)" if "k < Suc n" for k
      using that n(3) e by (cases k) (auto simp: s)
    moreover have "fc_events w2 = fc_events w @ [FcCall sock req]" by (simp add: w2_def w1_def)
    moreover have "\<not> d \<le> w_now w + snd (fc_answer w (fc_events w) (FcCall sock req))" using False by (simp add: t_def)
    ultimately show ?thesis using n by (intro exI [of _ "Suc n"]) (simp add: s)
  qed
qed

lemma vm_call_attempts:
  assumes "vm_call v req w = (x, w')"
  shows "\<exists>n. fc_events w' = fc_events w @ replicate (Suc n) (FcCall (vm_vsock_socket v) req)"
  using retry_attempts assms unfolding vm_call_def retry_with_backoff_def by blast


text \<open>A guest whose agent is busy for four seconds with the first request.\<close>

definition busy_world :: world where
  "busy_world = sample_world\<lparr>fc_events := [], fc_answer := (\<lambda>_ _. (Inr (0, []), secs 3)),
     agent := (\<lambda>evs _ _. if evs = [] then Inl (IoError TimedOut (Msg ''timed out'' [])) else Inr (RExec [] [] 0))\<rparr>"


section \<open>A sequence of calls\<close>

text \<open>
  What asking the agent of one sandbox changes: the requests are sent in this order, the activity of
  the sandbox is noted, the rest of the daemon's state stays.
\<close>

definition only_activity :: "(sandbox \<Rightarrow> sandbox) \<Rightarrow> bool" where
  "only_activity f \<longleftrightarrow> (\<forall>s. f s = s\<lparr>last_activity := last_activity (f s)\<rparr>)"

definition agent_asked :: "string \<Rightarrow> string \<Rightarrow> request list \<Rightarrow> app \<Rightarrow> app \<Rightarrow> bool" where
  "agent_asked i sock qs st st' \<longleftrightarrow>
     fc_events (wld st') = fc_events (wld st) @ map (FcCall sock) qs
     \<and> (\<exists>f w. only_activity f \<and> st' = (update_sandbox i f st)\<lparr>wld := w\<rparr>)"

definition socket_of :: "string \<Rightarrow> app \<Rightarrow> string option" where
  "socket_of i st = map_option (\<lambda>s. vm_vsock_socket (sb_vm s)) (hm_get i (sandboxes st))"

lemma hm_modify_same [simp]: "hm_modify k (\<lambda>v. v) m = m"
  by (induction m) (auto simp: hm_modify_def)

lemma hm_modify_comp: "hm_modify k f (hm_modify k g m) = hm_modify k (\<lambda>v. f (g v)) m"
  by (induction m) (auto simp: hm_modify_def)

lemma only_activity_simps:
  assumes "only_activity f"
  shows "sb_vm (f s) = sb_vm s" "sb_mounts (f s) = sb_mounts s" "same_owner (f s) s"
  using assms unfolding only_activity_def same_owner_def by (metis sandbox.surjective sandbox.update_convs sandbox.select_convs)+

lemma asked_refl: "agent_asked i sock [] st st"
  unfolding agent_asked_def update_sandbox_def
  by (intro conjI exI [of _ "\<lambda>s. s"] exI [of _ "wld st"]) (simp_all add: only_activity_def)

lemma asked_trans: "agent_asked i sock qs a b \<Longrightarrow> agent_asked i sock ps b c \<Longrightarrow> agent_asked i sock (qs @ ps) a c"
proof -
  assume "agent_asked i sock qs a b" "agent_asked i sock ps b c"
  then obtain f g v w where *: "only_activity f" "b = (update_sandbox i f a)\<lparr>wld := v\<rparr>" "only_activity g" "c = (update_sandbox i g b)\<lparr>wld := w\<rparr>"
      "fc_events (wld b) = fc_events (wld a) @ map (FcCall sock) qs" "fc_events (wld c) = fc_events (wld b) @ map (FcCall sock) ps"
    unfolding agent_asked_def by blast
  have "only_activity (\<lambda>s. g (f s))" using *(1,3) unfolding only_activity_def
    by (metis sandbox.surjective sandbox.update_convs(10) sandbox.select_convs(10))
  moreover have "c = (update_sandbox i (\<lambda>s. g (f s)) a)\<lparr>wld := w\<rparr>" by (simp add: *(2,4) update_sandbox_def hm_modify_comp)
  ultimately show ?thesis using *(5,6) unfolding agent_asked_def by auto
qed

lemma asked_socket: "agent_asked i sock qs st st' \<Longrightarrow> socket_of i st' = socket_of i st"
  by (cases "hm_get i (sandboxes st)") (auto simp: agent_asked_def socket_of_def update_sandbox_def hm_simps only_activity_simps)

lemma call_asked:
  assumes "call_agent i req st = (r, st')" "socket_of i st = Some sock"
  shows "\<exists>n. agent_asked i sock (replicate (Suc n) req) st st'"
  using assms(1)
proof (cases rule: call_agent_cases)
  case (called s x w)
  let ?f = "\<lambda>t. t\<lparr>last_activity := w_now (wld st)\<rparr>"
  have sock: "vm_vsock_socket (sb_vm s) = sock" using assms(2) called(1) by (simp add: socket_of_def)
  obtain n where n: "fc_events w = fc_events (wld st) @ replicate (Suc n) (FcCall sock req)"
    using vm_call_attempts [OF called(2)] sock by blast
  have "agent_asked i sock (replicate (Suc n) req) st st'" unfolding agent_asked_def
    by (intro conjI exI [of _ ?f] exI [of _ w])
      (use n called(4) in \<open>simp_all add: note_activity_def only_activity_def map_replicate\<close>)
  then show ?thesis by blast
qed (use assms in \<open>simp add: socket_of_def\<close>)

lemma route_asked:
  assumes "agent_route d i req st = (r, st')" "socket_of i st = Some sock"
  shows "\<exists>n. agent_asked i sock (replicate (Suc n) req) st st'"
proof -
  obtain x st1 where c: "call_agent i req st = (x, st1)" by (cases "call_agent i req st")
  with assms(1) have "st' = st1" by (auto simp: agent_route_def split: sum.splits)
  with call_asked [OF c assms(2)] show ?thesis by blast
qed

text \<open>The merged environment: the call's values win.\<close>

lemma hm_extend_Cons: "hm_extend m ((a, b) # n) = hm_extend (hm_insert a b m) n"
  by (simp add: hm_extend_def)

lemma hm_get_extend:
  "hm_wf n \<Longrightarrow> hm_get k (hm_extend m n) = (case hm_get k n of None \<Rightarrow> hm_get k m | Some v \<Rightarrow> Some v)"
proof (induction n arbitrary: m)
  case Nil
  then show ?case by (simp add: hm_extend_def hm_get_def)
next
  case (Cons x n)
  obtain a b where x: "x = (a, b)" by (cases x)
  with Cons.prems have n: "hm_wf n" "a \<notin> fst ` set n" by (auto simp: hm_wf_def hm_keys_def)
  from n(2) have a: "hm_get a n = None" by (simp add: hm_get_def map_of_eq_None_iff)
  have g: "hm_get k (x # n) = (if k = a then Some b else hm_get k n)" by (simp add: x hm_get_def)
  show ?case unfolding x hm_extend_Cons Cons.IH [OF n(1)] g [unfolded x]
    using a by (auto simp: hm_simps split: option.splits)
qed

end
