(* ===== verification/Mounts.thy ===== *)
theory Mounts
  imports Guest
begin

text \<open>
  Remote storage mounts (\<^verbatim>\<open>routes_mounts.rs\<close>): a bucket is mounted by running \<^verbatim>\<open>rclone\<close> in the guest, with
  the credentials in a configuration file that only root may read. Everything goes through requests
  to the agent. Base64 is a parameter (\<open>b64\<close>).
\<close>

section \<open>The handlers\<close>

record create_mount_request =
  cm_bucket :: string
  cm_endpoint :: string
  access_key :: string
  secret_key :: string
  cm_mount_path :: string
  cm_read_only :: bool

definition create_mount_request_of_json :: "json \<Rightarrow> create_mount_request option" where
  "create_mount_request_of_json j = do {
     kvs \<leftarrow> jobj j; b \<leftarrow> jreq ''bucket'' jstr kvs; e \<leftarrow> jreq ''endpoint'' jstr kvs; a \<leftarrow> jreq ''access_key'' jstr kvs;
     s \<leftarrow> jreq ''secret_key'' jstr kvs; p \<leftarrow> jreq ''mount_path'' jstr kvs; ro \<leftarrow> jdef ''read_only'' False jbool kvs;
     Some \<lparr>cm_bucket = b, cm_endpoint = e, access_key = a, secret_key = s, cm_mount_path = p, cm_read_only = ro\<rparr> }"

definition mount_response :: "mount \<Rightarrow> json" where
  "mount_response m =
     JObj [(''id'', JStr (mt_id m)), (''bucket'', JStr (mt_bucket m)), (''endpoint'', JStr (mt_endpoint m)),
           (''mount_path'', JStr (mt_mount_path m)), (''read_only'', JBool (mt_read_only m))]"

definition validate_create_mount_request :: "create_mount_request \<Rightarrow> (message, unit) result" where
  "validate_create_mount_request req =
     (if cm_bucket req = [] then Inl (Msg ''bucket must not be empty'' [])
      else if cm_endpoint req = [] then Inl (Msg ''endpoint must not be empty'' [])
      else if access_key req = [] then Inl (Msg ''access_key must not be empty'' [])
      else if secret_key req = [] then Inl (Msg ''secret_key must not be empty'' [])
      else if cm_mount_path req = [] then Inl (Msg ''mount_path must not be empty'' [])
      else Inr ())"

definition RCLONE_REMOTE_NAME :: string where
  "RCLONE_REMOTE_NAME = ''sandkiln''"

abbreviation nl :: string where
  "nl \<equiv> [CHR 0x0A]"

definition rclone_config_content :: "string \<Rightarrow> string \<Rightarrow> string \<Rightarrow> string" where
  "rclone_config_content acc sec ep =
     ''['' @ RCLONE_REMOTE_NAME @ '']'' @ nl @ ''type = s3'' @ nl @ ''provider = Other'' @ nl @ ''env_auth = false'' @ nl
     @ ''access_key_id = '' @ acc @ nl @ ''secret_access_key = '' @ sec @ nl @ ''endpoint = '' @ ep @ nl"

definition rclone_mount_args :: "string \<Rightarrow> string \<Rightarrow> string \<Rightarrow> bool \<Rightarrow> string list" where
  "rclone_mount_args config_path bucket mount_path read_only =
     [''mount'', RCLONE_REMOTE_NAME @ '':'' @ bucket, mount_path, ''--config'', config_path, ''--daemon'', ''--daemon-wait=30s'']
     @ (if read_only then [''--read-only''] else [])"

definition config_path_for :: "string \<Rightarrow> string" where
  "config_path_for mount_id = ''/root/.sandkiln-rclone-'' @ mount_id @ ''.conf''"

definition expect_ok :: "response \<Rightarrow> (app_error, unit) result" where
  "expect_ok r = (case r of ROk \<Rightarrow> Inr () | RError m \<Rightarrow> Inl (BadRequest (Msg m [])) | _ \<Rightarrow> Inl unexpected_response)"

definition exec_ok :: "response \<Rightarrow> (app_error, string \<times> string \<times> int) result" where
  "exec_ok r =
     (case r of RExec out err code \<Rightarrow> Inr (out, err, code) | RError m \<Rightarrow> Inl (BadRequest (Msg m [])) | _ \<Rightarrow> Inl unexpected_response)"

text \<open>\<^verbatim>\<open>let _ = call_agent(..).await\<close>: a best-effort command in the guest.\<close>

definition best_effort :: "string \<Rightarrow> string \<Rightarrow> string list \<Rightarrow> app \<Rightarrow> app" where
  "best_effort i command args st = snd (call_agent i (Exec command args []) st)"

definition mounted_at :: "string \<Rightarrow> string \<Rightarrow> app \<Rightarrow> (app_error, mount option) result" where
  "mounted_at i path st =
     (case hm_get i (sandboxes st) of None \<Rightarrow> Inl (SandboxNotFound i)
      | Some s \<Rightarrow> Inr (find (\<lambda>m. mt_mount_path m = path) (sb_mounts s)))"

text \<open>The guest side: directory, configuration file, its mode, \<^verbatim>\<open>rclone\<close>, the check of the mount point.\<close>

definition mount_in_guest :: "(string \<Rightarrow> string) \<Rightarrow> string \<Rightarrow> string \<Rightarrow> create_mount_request \<Rightarrow> app \<Rightarrow> (app_error, unit) result \<times> app" where
  "mount_in_guest b64 i config_path req st =
     (case agent_route expect_ok i (Mkdir (cm_mount_path req) True) st of (Inl e, st1) \<Rightarrow> (Inl e, st1) | (Inr _, st1) \<Rightarrow>
     (case agent_route expect_ok i
             (WriteFile config_path (b64 (rclone_config_content (access_key req) (secret_key req) (cm_endpoint req)))) st1 of
        (Inl e, st2) \<Rightarrow> (Inl e, st2) | (Inr _, st2) \<Rightarrow>
     (case agent_route expect_ok i (Chmod config_path 0x180) st2 of (Inl e, st3) \<Rightarrow> (Inl e, st3) | (Inr _, st3) \<Rightarrow>
     (case agent_route exec_ok i
             (Exec ''rclone'' (rclone_mount_args config_path (cm_bucket req) (cm_mount_path req) (cm_read_only req)) []) st3 of
        (Inl e, st4) \<Rightarrow> (Inl e, st4)
      | (Inr (out, err, code), st4) \<Rightarrow>
          if code \<noteq> 0
          then (Inl (BadRequest (Msg ''rclone mount failed (exit {}): {}{}'' [err, out])), best_effort i ''rm'' [''-f'', config_path] st4)
          else
     (case call_agent i (Exec ''mountpoint'' [''-q'', cm_mount_path req] []) st4 of
        (Inl e, st5) \<Rightarrow> (Inl e, st5)
      | (Inr v, st5) \<Rightarrow>
          if (case v of RExec _ _ c \<Rightarrow> c = 0 | _ \<Rightarrow> False) then (Inr (), st5)
          else (Inl (Internal (io_other ''rclone reported success but the mount point isn't actually mounted'' [])),
                best_effort i ''rm'' [''-f'', config_path] (best_effort i ''umount'' [cm_mount_path req] st5)))))))"

definition new_mount :: "string \<Rightarrow> create_mount_request \<Rightarrow> mount" where
  "new_mount mount_id req =
     \<lparr>mt_id = mount_id, mt_bucket = cm_bucket req, mt_endpoint = cm_endpoint req, mt_mount_path = cm_mount_path req,
      mt_read_only = cm_read_only req\<rparr>"

definition create_mount :: "(string \<Rightarrow> string) \<Rightarrow> string \<Rightarrow> create_mount_request \<Rightarrow> app \<Rightarrow> (app_error, json) result \<times> app" where
  "create_mount b64 i req st =
     (case validate_create_mount_request req of Inl m \<Rightarrow> (Inl (BadRequest m), st) | Inr _ \<Rightarrow>
     (case mounted_at i (cm_mount_path req) st of
        Inl e \<Rightarrow> (Inl e, st)
      | Inr (Some m) \<Rightarrow> (Inl (Conflict (Msg ''{} is already mounted at {}'' [mt_bucket m, mt_mount_path m, mt_id m])), st)
      | Inr None \<Rightarrow>
     (let (mount_id, st1) = app_uuid st in
      case mount_in_guest b64 i (config_path_for mount_id) req st1 of
        (Inl e, st2) \<Rightarrow> (Inl e, st2)
      | (Inr _, st2) \<Rightarrow>
          if hm_contains i (sandboxes st2)
          then (Inr (mount_response (new_mount mount_id req)),
                update_sandbox i (\<lambda>s. s\<lparr>sb_mounts := sb_mounts s @ [new_mount mount_id req]\<rparr>) st2)
          else (Inl (SandboxNotFound i), st2))))"

definition list_mounts :: "string \<Rightarrow> app \<Rightarrow> (app_error, json) result" where
  "list_mounts i st =
     (case hm_get i (sandboxes st) of None \<Rightarrow> Inl (SandboxNotFound i)
      | Some s \<Rightarrow> Inr (JObj [(''mounts'', JArr (map mount_response (sb_mounts s)))]))"

text \<open>The first mount with the id is taken out, whatever the guest then answers.\<close>

fun take_mount :: "string \<Rightarrow> mount list \<Rightarrow> (mount \<times> mount list) option" where
  "take_mount mount_id [] = None"
| "take_mount mount_id (m # rest) =
     (if mt_id m = mount_id then Some (m, rest) else map_option (\<lambda>(x, xs). (x, m # xs)) (take_mount mount_id rest))"

definition delete_mount :: "string \<Rightarrow> string \<Rightarrow> app \<Rightarrow> (app_error, http_ok) result \<times> app" where
  "delete_mount i mount_id st =
     (case hm_get i (sandboxes st) of None \<Rightarrow> (Inl (SandboxNotFound i), st) | Some s \<Rightarrow>
     (case take_mount mount_id (sb_mounts s) of None \<Rightarrow> (Inl (SandboxNotFound mount_id), st) | Some (m, rest) \<Rightarrow>
     (let st1 = update_sandbox i (\<lambda>s. s\<lparr>sb_mounts := rest\<rparr>) st;
          st2 = best_effort i ''umount'' [mt_mount_path m] st1
      in (Inr NoContent, best_effort i ''rm'' [''-f'', config_path_for (mt_id m)] st2))))"

section \<open>What the guest is asked\<close>

text \<open>
  The requests of one mount, repeated attempts included, in their order. The steps that follow the
  configuration file come only after its mode was set.
\<close>

definition mount_script :: "string \<Rightarrow> string \<Rightarrow> create_mount_request \<Rightarrow> nat list \<Rightarrow> request list" where
  "mount_script config_path content req ns =
     concat (map (\<lambda>(n, q). replicate n q) (zip ns
       [Mkdir (cm_mount_path req) True, WriteFile config_path content, Chmod config_path 0x180,
        Exec ''rclone'' (rclone_mount_args config_path (cm_bucket req) (cm_mount_path req) (cm_read_only req)) [],
        Exec ''mountpoint'' [''-q'', cm_mount_path req] [], Exec ''umount'' [cm_mount_path req] [],
        Exec ''rm'' [''-f'', config_path] []]))"

definition in_order :: "nat list \<Rightarrow> bool" where
  "in_order ns \<longleftrightarrow>
     (case ns of
        [a, b, c, d, e, f, g] \<Rightarrow> (a = 0 \<longrightarrow> b = 0) \<and> (b = 0 \<longrightarrow> c = 0) \<and> (c = 0 \<longrightarrow> d = 0) \<and> (d = 0 \<longrightarrow> e = 0 \<and> f = 0 \<and> g = 0)
      | _ \<Rightarrow> False)"

lemma asked_call:
  assumes "agent_asked i sock qs st0 st" "socket_of i st0 = Some sock" "call_agent i req st = (r, st')"
  shows "\<exists>n. agent_asked i sock (qs @ replicate (Suc n) req) st0 st'"
  using call_asked [OF assms(3)] asked_socket [OF assms(1)] assms(2) asked_trans [OF assms(1)] by metis

lemma asked_route:
  assumes "agent_asked i sock qs st0 st" "socket_of i st0 = Some sock" "agent_route d i req st = (r, st')"
  shows "\<exists>n. agent_asked i sock (qs @ replicate (Suc n) req) st0 st'"
  using route_asked [OF assms(3)] asked_socket [OF assms(1)] assms(2) asked_trans [OF assms(1)] by metis

lemma asked_best_effort:
  assumes "agent_asked i sock qs st0 st" "socket_of i st0 = Some sock"
  shows "\<exists>n. agent_asked i sock (qs @ replicate (Suc n) (Exec c as [])) st0 (best_effort i c as st)"
  using asked_call [OF assms prod.collapse [symmetric]] unfolding best_effort_def by blast

lemma mount_in_guest_asks:
  assumes m: "mount_in_guest b64 i cfg req st = (r, st')" and sock: "socket_of i st = Some sock"
  shows "\<exists>ns. in_order ns \<and>
    agent_asked i sock (mount_script cfg (b64 (rclone_config_content (access_key req) (secret_key req) (cm_endpoint req))) req ns) st st'"
    (is "\<exists>ns. in_order ns \<and> agent_asked i sock (?script ns) st st'")
proof -
  let ?mk = "Mkdir (cm_mount_path req) True"
  let ?wr = "WriteFile cfg (b64 (rclone_config_content (access_key req) (secret_key req) (cm_endpoint req)))"
  let ?rc = "Exec ''rclone'' (rclone_mount_args cfg (cm_bucket req) (cm_mount_path req) (cm_read_only req)) []"
  let ?mp = "Exec ''mountpoint'' [''-q'', cm_mount_path req] []"
  obtain r1 st1 where 1: "agent_route expect_ok i ?mk st = (r1, st1)" by (cases "agent_route expect_ok i ?mk st")
  obtain r2 st2 where 2: "agent_route expect_ok i ?wr st1 = (r2, st2)" by (cases "agent_route expect_ok i ?wr st1")
  obtain r3 st3 where 3: "agent_route expect_ok i (Chmod cfg 0x180) st2 = (r3, st3)" by (cases "agent_route expect_ok i (Chmod cfg 0x180) st2")
  obtain r4 st4 where 4: "agent_route exec_ok i ?rc st3 = (r4, st4)" by (cases "agent_route exec_ok i ?rc st3")
  obtain r5 st5 where 5: "call_agent i ?mp st4 = (r5, st5)" by (cases "call_agent i ?mp st4")
  obtain a where a: "agent_asked i sock (?script [Suc a, 0, 0, 0, 0, 0, 0]) st st1"
    using route_asked [OF 1 sock] by (auto simp: mount_script_def)
  obtain b where b: "agent_asked i sock (?script [Suc a, Suc b, 0, 0, 0, 0, 0]) st st2"
    using asked_route [OF a sock 2] by (auto simp: mount_script_def)
  obtain c where c: "agent_asked i sock (?script [Suc a, Suc b, Suc c, 0, 0, 0, 0]) st st3"
    using asked_route [OF b sock 3] by (auto simp: mount_script_def)
  obtain d where d: "agent_asked i sock (?script [Suc a, Suc b, Suc c, Suc d, 0, 0, 0]) st st4"
    using asked_route [OF c sock 4] by (auto simp: mount_script_def)
  obtain g1 where g1: "agent_asked i sock (?script [Suc a, Suc b, Suc c, Suc d, 0, 0, Suc g1]) st (best_effort i ''rm'' [''-f'', cfg] st4)"
    using asked_best_effort [OF d sock, of "''rm''" "[''-f'', cfg]"] by (auto simp: mount_script_def)
  obtain e where e: "agent_asked i sock (?script [Suc a, Suc b, Suc c, Suc d, Suc e, 0, 0]) st st5"
    using asked_call [OF d sock 5] by (auto simp: mount_script_def)
  obtain f where f: "agent_asked i sock (?script [Suc a, Suc b, Suc c, Suc d, Suc e, Suc f, 0]) st (best_effort i ''umount'' [cm_mount_path req] st5)"
    using asked_best_effort [OF e sock, of "''umount''" "[cm_mount_path req]"] by (auto simp: mount_script_def)
  obtain g where g: "agent_asked i sock (?script [Suc a, Suc b, Suc c, Suc d, Suc e, Suc f, Suc g]) st
      (best_effort i ''rm'' [''-f'', cfg] (best_effort i ''umount'' [cm_mount_path req] st5))"
    using asked_best_effort [OF f sock, of "''rm''" "[''-f'', cfg]"] by (auto simp: mount_script_def)
  have "st' \<in> {st1, st2, st3, st4, best_effort i ''rm'' [''-f'', cfg] st4, st5,
      best_effort i ''rm'' [''-f'', cfg] (best_effort i ''umount'' [cm_mount_path req] st5)}"
    using m 1 2 3 4 5 by (auto simp: mount_in_guest_def split: sum.splits if_splits prod.splits)
  moreover have "in_order [Suc a, 0, 0, 0, 0, 0, 0]" "in_order [Suc a, Suc b, 0, 0, 0, 0, 0]" "in_order [Suc a, Suc b, Suc c, 0, 0, 0, 0]"
    "in_order [Suc a, Suc b, Suc c, Suc d, m, n, k]" for m n k
    by (simp_all add: in_order_def)
  ultimately show ?thesis using a b c d e g1 g by blast
qed

section \<open>Where the credentials go\<close>

text \<open>A request without its credentials.\<close>

abbreviation public :: "create_mount_request \<Rightarrow> create_mount_request" where
  "public req \<equiv> req\<lparr>access_key := [], secret_key := []\<rparr>"

lemma mount_script_public: "mount_script cfg content (public req) = mount_script cfg content req"
  by (simp add: mount_script_def fun_eq_iff)

text \<open>What \<^verbatim>\<open>create_mount\<close> leaves behind, whatever it answers.\<close>

definition mount_outcome :: "(string \<Rightarrow> string) \<Rightarrow> string \<Rightarrow> string \<Rightarrow> string \<Rightarrow> create_mount_request \<Rightarrow> (app_error, json) result \<Rightarrow> app \<Rightarrow> app \<Rightarrow> bool" where
  "mount_outcome b64 i sock mid req r st st' \<longleftrightarrow>
     (\<exists>ns. in_order ns \<and> fc_events (wld st') = fc_events (wld st) @ map (FcCall sock) (mount_script (config_path_for mid)
        (b64 (rclone_config_content (access_key req) (secret_key req) (cm_endpoint req))) (public req) ns))
     \<and> (\<exists>f w. only_activity f \<and> st' = (update_sandbox i (\<lambda>s. s\<lparr>sb_mounts := sb_mounts s @ (if is_ok r then [new_mount mid (public req)] else [])\<rparr>)
          (update_sandbox i f st))\<lparr>wld := w\<rparr>)
     \<and> (\<forall>j. r = Inr j \<longrightarrow> j = mount_response (new_mount mid (public req)))"

lemma outcome_nothing: "mount_outcome b64 i sock mid req (Inl e) st st"
  unfolding mount_outcome_def
  by (intro conjI exI [of _ "[0, 0, 0, 0, 0, 0, 0]"] exI [of _ "\<lambda>s. s"] exI [of _ "wld st"])
    (simp_all add: in_order_def mount_script_def only_activity_def update_sandbox_def)

lemma outcome_asked:
  assumes "in_order ns" "agent_asked i sock (mount_script (config_path_for mid)
        (b64 (rclone_config_content (access_key req) (secret_key req) (cm_endpoint req))) req ns) st1 st2"
    "st1 = st\<lparr>wld := w1\<rparr>" "fc_events w1 = fc_events (wld st)"
  shows "mount_outcome b64 i sock mid req (Inl e) st st2"
    and "mount_outcome b64 i sock mid req (Inr (mount_response (new_mount mid req))) st
      (update_sandbox i (\<lambda>s. s\<lparr>sb_mounts := sb_mounts s @ [new_mount mid req]\<rparr>) st2)"
proof -
  obtain f w where f: "only_activity f" "st2 = (update_sandbox i f st1)\<lparr>wld := w\<rparr>" using assms(2) unfolding agent_asked_def by blast
  have ev: "fc_events (wld st2) = fc_events (wld st) @ map (FcCall sock) (mount_script (config_path_for mid)
      (b64 (rclone_config_content (access_key req) (secret_key req) (cm_endpoint req))) (public req) ns)"
    using assms(2-4) by (simp add: agent_asked_def mount_script_public)
  show "mount_outcome b64 i sock mid req (Inl e) st st2" unfolding mount_outcome_def
    by (intro conjI exI [of _ ns] exI [of _ f] exI [of _ w]) (use assms f ev in \<open>simp_all add: update_sandbox_def\<close>)
  show "mount_outcome b64 i sock mid req (Inr (mount_response (new_mount mid req))) st
      (update_sandbox i (\<lambda>s. s\<lparr>sb_mounts := sb_mounts s @ [new_mount mid req]\<rparr>) st2)"
    unfolding mount_outcome_def
    by (intro conjI exI [of _ ns] exI [of _ f] exI [of _ w])
      (use assms f ev in \<open>simp_all add: update_sandbox_def new_mount_def mount_response_def\<close>)
qed


text \<open>A guest in which everything works.\<close>

definition kind_answer :: "request \<Rightarrow> response" where
  "kind_answer q = (case q of Exec _ _ _ \<Rightarrow> RExec [] [] 0 | _ \<Rightarrow> ROk)"

definition kind_guest :: "string \<Rightarrow> app \<Rightarrow> bool" where
  "kind_guest i st \<longleftrightarrow> agent (wld st) = (\<lambda>_ _ q. Inr (kind_answer q)) \<and> hm_contains i (sandboxes st)"

lemma kind_call: "kind_guest i st \<Longrightarrow> \<exists>st'. call_agent i q st = (Inr (kind_answer q), st') \<and> kind_guest i st'"
  by (auto simp: kind_guest_def call_agent_def on_world_def vm_call_def retry_with_backoff_def retry_loop.simps vsock_call_def
      note_activity_def update_sandbox_def hm_contains_def Let_def)

lemma kind_route: "kind_guest i st \<Longrightarrow> \<exists>st'. agent_route d i q st = (d (kind_answer q), st') \<and> kind_guest i st'"
  using kind_call [of i st q] by (auto simp: agent_route_def)

lemma kind_mount:
  assumes "kind_guest i st"
  shows "\<exists>st'. mount_in_guest b64 i cfg req st = (Inr (), st') \<and> kind_guest i st'"
proof -
  have "\<exists>st'. agent_route expect_ok i q st = (Inr (), st') \<and> kind_guest i st'" if "kind_guest i st" "kind_answer q = ROk" for q st
    using kind_route [OF that(1), of expect_ok q] that(2) by (simp add: expect_ok_def)
  note ok = this
  have "\<exists>st'. agent_route exec_ok i (Exec c as env) st = (Inr ([], [], 0), st') \<and> kind_guest i st'" if "kind_guest i st" for c as env st
    using kind_route [OF that, of exec_ok "Exec c as env"] by (simp add: exec_ok_def kind_answer_def)
  note ex = this
  obtain st1 where 1: "agent_route expect_ok i (Mkdir (cm_mount_path req) True) st = (Inr (), st1)" "kind_guest i st1"
    using ok [OF assms, of "Mkdir (cm_mount_path req) True"] by (auto simp: kind_answer_def)
  obtain st2 where 2: "agent_route expect_ok i (WriteFile cfg (b64 (rclone_config_content (access_key req) (secret_key req) (cm_endpoint req)))) st1
      = (Inr (), st2)" "kind_guest i st2"
    using ok [OF 1(2), of "WriteFile cfg (b64 (rclone_config_content (access_key req) (secret_key req) (cm_endpoint req)))"]
    by (auto simp: kind_answer_def)
  obtain st3 where 3: "agent_route expect_ok i (Chmod cfg 0x180) st2 = (Inr (), st3)" "kind_guest i st3"
    using ok [OF 2(2), of "Chmod cfg 0x180"] by (auto simp: kind_answer_def)
  obtain st4 where 4: "agent_route exec_ok i (Exec ''rclone'' (rclone_mount_args cfg (cm_bucket req) (cm_mount_path req) (cm_read_only req)) []) st3
      = (Inr ([], [], 0), st4)" "kind_guest i st4"
    using ex [OF 3(2)] by blast
  obtain st5 where 5: "call_agent i (Exec ''mountpoint'' [''-q'', cm_mount_path req] []) st4 = (Inr (RExec [] [] 0), st5)" "kind_guest i st5"
    using kind_call [OF 4(2), of "Exec ''mountpoint'' [''-q'', cm_mount_path req] []"] by (auto simp: kind_answer_def)
  show ?thesis using 1 2 3 4 5 by (simp add: mount_in_guest_def)
qed

definition mount_app :: app where
  "mount_app = sample_app\<lparr>sandboxes := [(''s1'', sample_sandbox)], wld := sample_world\<lparr>agent := (\<lambda>_ _ q. Inr (kind_answer q))\<rparr>\<rparr>"

definition sample_mount :: create_mount_request where
  "sample_mount = \<lparr>cm_bucket = ''b'', cm_endpoint = ''https://e'', access_key = ''AK'', secret_key = ''SK'', cm_mount_path = ''/mnt'',
     cm_read_only = False\<rparr>"


end
