(* ===== verification/Streams.thy ===== *)
theory Streams
  imports Guest
begin

text \<open>
  Long-lived connections into a guest: streamed background commands (\<^verbatim>\<open>routes_logs.rs\<close>, and the guest
  side \<^verbatim>\<open>guest-agent/src/exec_stream.rs\<close>) and terminals (\<^verbatim>\<open>routes_pty.rs\<close>). Base64, the JSON text and
  the bytes of an error message are parameters. A connection is the list of the bytes that arrive on
  it before it ends.
\<close>

section \<open>The guest's side of a streamed command\<close>

text \<open>
  What a spawned command does: the chunks read from its two pipes (\<open>True\<close> for stdout) in the order
  in which the channel receives them, and the answer of \<^verbatim>\<open>wait\<close>.
\<close>

record child_run =
  chunks :: "(bool \<times> u8 list) list"
  wait_status :: "(io_error, int option) result"

definition chunk_event :: "(u8 list \<Rightarrow> string) \<Rightarrow> bool \<times> u8 list \<Rightarrow> exec_stream_event" where
  "chunk_event b64 c = (if fst c then Stdout (b64 (snd c)) else Stderr (b64 (snd c)))"

definition stream_exit_code :: "(io_error, int option) result \<Rightarrow> int" where
  "stream_exit_code r = (case r of Inr (Some code) \<Rightarrow> code | _ \<Rightarrow> - 1)"

definition send_event :: "(json \<Rightarrow> u8 list) \<Rightarrow> exec_stream_event \<Rightarrow> u8 list" where
  "send_event print ev = write_message (print (exec_stream_event_json ev))"

definition pump_and_wait :: "(u8 list \<Rightarrow> string) \<Rightarrow> child_run \<Rightarrow> exec_stream_event list" where
  "pump_and_wait b64 child = map (chunk_event b64) (chunks child) @ [Exit (stream_exit_code (wait_status child))]"

text \<open>All that the guest sends on one connection, to a host that keeps reading.\<close>

definition guest_exec_stream :: "(u8 list \<Rightarrow> string) \<Rightarrow> (message \<Rightarrow> u8 list) \<Rightarrow> (json \<Rightarrow> u8 list) \<Rightarrow>
    exec_stream_handshake \<Rightarrow> (io_error, child_run) result \<Rightarrow> u8 list" where
  "guest_exec_stream b64 msg print h spawned =
     concat (map (send_event print)
       (case spawned of
          Inl e \<Rightarrow> [Stderr (b64 (msg (Msg ''exec-stream: failed to spawn {}: {}'' [es_command h]))), Exit (- 1)]
        | Inr child \<Rightarrow> pump_and_wait b64 child))"

section \<open>The daemon's side\<close>

record start_exec_stream_request =
  ss_command :: string
  ss_args :: "string list"
  ss_env :: env_vars

definition start_exec_stream_request_of_json :: "json \<Rightarrow> start_exec_stream_request option" where
  "start_exec_stream_request_of_json j = do {
     kvs \<leftarrow> jobj j; c \<leftarrow> jreq ''command'' jstr kvs; as \<leftarrow> jdef ''args'' [] (jlist jstr) kvs; env \<leftarrow> jdef ''env'' [] unjmap kvs;
     Some \<lparr>ss_command = c, ss_args = as, ss_env = env\<rparr> }"

definition start_exec_stream :: "string \<Rightarrow> start_exec_stream_request \<Rightarrow> app \<Rightarrow> (app_error, json) result \<times> app" where
  "start_exec_stream i req st =
     (if ss_command req = [] then (Inl (BadRequest (Msg ''command must not be empty'' [])), st) else
     (let (session_id, st1) = app_uuid st;
          session = log_session_new session_id (ss_command req) (ss_args req) (system_now (wld st1)) in
      case hm_get i (sandboxes st1) of None \<Rightarrow> (Inl (SandboxNotFound i), st1) | Some s \<Rightarrow>
     (case on_world (vm_open_exec_stream (sb_vm s) (ss_command req) (ss_args req) (hm_extend (sb_env s) (ss_env req))) st1 of
        (Inl e, st2) \<Rightarrow> (Inl (Internal e), st2)
      | (Inr _, st2) \<Rightarrow>
          (Inr (JObj [(''id'', JStr session_id)]),
           update_sandbox i (\<lambda>s. s\<lparr>log_sessions := hm_insert session_id session (log_sessions s)\<rparr>) st2))))"

definition exec_stream_summary :: "log_session \<Rightarrow> json" where
  "exec_stream_summary s =
     JObj [(''id'', JStr (lsn_id s)), (''command'', JStr (lsn_command s)), (''args'', JArr (map JStr (lsn_args s))),
           (''started_at_unix'', JNum (unix_secs (started_at s))),
           (''exit_code'', case log_exit_code s of None \<Rightarrow> JNull | Some c \<Rightarrow> JNum c)]"

definition list_exec_streams :: "string \<Rightarrow> app \<Rightarrow> (app_error, json) result" where
  "list_exec_streams i st =
     (case hm_get i (sandboxes st) of None \<Rightarrow> Inl (SandboxNotFound i)
      | Some s \<Rightarrow> Inr (JObj [(''sessions'', JArr (map exec_stream_summary (hm_values (log_sessions s))))]))"

definition attach_logs :: "string \<Rightarrow> string \<Rightarrow> app \<Rightarrow> (app_error, log_session) result" where
  "attach_logs i session_id st =
     (case hm_get i (sandboxes st) of None \<Rightarrow> Inl (SandboxNotFound i)
      | Some s \<Rightarrow> ok_or (SandboxNotFound session_id) (hm_get session_id (log_sessions s)))"

text \<open>A chunk with invalid base64 is dropped.\<close>

definition append_chunk :: "(string \<Rightarrow> u8 list option) \<Rightarrow> string \<Rightarrow> log_session \<Rightarrow> log_session" where
  "append_chunk unb64 d s = (case unb64 d of None \<Rightarrow> s | Some bytes \<Rightarrow> log_append bytes s)"

definition decode_exec_stream_event :: "(u8 list \<Rightarrow> json option) \<Rightarrow> u8 list \<Rightarrow> exec_stream_event option" where
  "decode_exec_stream_event parse bs = Option.bind (parse bs) exec_stream_event_of_json"

lemma read_message_shorter: "read_message s = Inr (p, rest) \<Longrightarrow> length rest < length s"
  by (auto simp: read_message_def read_exact_def Let_def split: if_splits)

function pump_exec_stream :: "(u8 list \<Rightarrow> json option) \<Rightarrow> (string \<Rightarrow> u8 list option) \<Rightarrow> u8 list \<Rightarrow> log_session \<Rightarrow> log_session" where
  "pump_exec_stream parse unb64 stream s =
     (case read_message stream of
        Inl e \<Rightarrow> log_finish (- 1) s
      | Inr (raw, rest) \<Rightarrow>
          (case decode_exec_stream_event parse raw of
             Some (Stdout d) \<Rightarrow> pump_exec_stream parse unb64 rest (append_chunk unb64 d s)
           | Some (Stderr d) \<Rightarrow> pump_exec_stream parse unb64 rest (append_chunk unb64 d s)
           | Some (Exit code) \<Rightarrow> log_finish code s
           | None \<Rightarrow> log_finish (- 1) s))"
  by pat_completeness auto
termination
  by (relation "measure (\<lambda>(_, _, stream, _). length stream)") (auto simp: read_message_shorter)

declare pump_exec_stream.simps [simp del]

text \<open>The pump runs on the session wherever the sandbox is; a session of a sandbox that is gone is unreachable.\<close>

definition pump_session :: "(u8 list \<Rightarrow> json option) \<Rightarrow> (string \<Rightarrow> u8 list option) \<Rightarrow> string \<Rightarrow> string \<Rightarrow> u8 list \<Rightarrow> app \<Rightarrow> app" where
  "pump_session parse unb64 i session_id stream st =
     update_sandbox i (\<lambda>s. s\<lparr>log_sessions := hm_modify session_id (pump_exec_stream parse unb64 stream) (log_sessions s)\<rparr>) st"

section \<open>A client that attaches\<close>

datatype ws_message = WsText message | WsBinary "u8 list"

datatype tail_event = Received log_event | Lagged | Closed | ClientGone

definition exit_notice :: "int \<Rightarrow> ws_message" where
  "exit_notice code = WsText (Msg ''[process exited with code {}]'' [if code < 0 then CHR ''-'' # show_nat (nat (- code)) else show_nat (nat code)])"

text \<open>\<open>accepts\<close> says which messages the socket still takes, given those it took.\<close>

fun live_tail :: "(ws_message list \<Rightarrow> ws_message \<Rightarrow> bool) \<Rightarrow> ws_message list \<Rightarrow> tail_event list \<Rightarrow> ws_message list" where
  "live_tail accepts sent [] = sent"
| "live_tail accepts sent (Received (LogData bs) # es) =
     (if accepts sent (WsBinary bs) then live_tail accepts (sent @ [WsBinary bs]) es else sent)"
| "live_tail accepts sent (Received (LogExit code) # es) =
     (if accepts sent (exit_notice code) then sent @ [exit_notice code] else sent)"
| "live_tail accepts sent (Lagged # es) =
     (let m = WsText (Msg ''[... fell behind and some live output was dropped -- reconnect for the full log ...]'' []) in
      if accepts sent m then sent @ [m] else sent)"
| "live_tail accepts sent (Closed # es) = sent"
| "live_tail accepts sent (ClientGone # es) = sent"

definition stream_logs :: "(ws_message list \<Rightarrow> ws_message \<Rightarrow> bool) \<Rightarrow> log_session \<Rightarrow> tail_event list \<Rightarrow> ws_message list" where
  "stream_logs accepts s es =
     (let (replay, truncated, code, _) = log_subscribe s;
          notice = WsText (Msg ''[... {} earlier bytes truncated ...]'' [show_nat (unat truncated)]) in
      if 0 < truncated \<and> \<not> accepts [] notice then []
      else let sent = (if 0 < truncated then [notice] else []) in
        if replay \<noteq> [] \<and> \<not> accepts sent (WsBinary replay) then sent
        else let sent1 = sent @ (if replay = [] then [] else [WsBinary replay]) in
          (case code of
             Some c \<Rightarrow> if accepts sent1 (exit_notice c) then sent1 @ [exit_notice c] else sent1
           | None \<Rightarrow> live_tail accepts sent1 es))"

section \<open>Terminals\<close>

definition MAX_PTY_SESSIONS_PER_SANDBOX :: u32 where
  "MAX_PTY_SESSIONS_PER_SANDBOX = 64"

definition DEFAULT_COLS :: u16 where
  "DEFAULT_COLS = 80"

definition DEFAULT_ROWS :: u16 where
  "DEFAULT_ROWS = 24"

definition query_u16 :: "string \<Rightarrow> u16 \<Rightarrow> string hash_map \<Rightarrow> u16" where
  "query_u16 key preset query =
     (case Option.bind (hm_get key query) (parse_unsigned (2 ^ 16 - 1)) of None \<Rightarrow> preset | Some n \<Rightarrow> of_nat n)"

text \<open>Up to the upgrade: an \<open>Inr\<close> is a session that is open and holds a guard.\<close>

definition pty_session :: "string \<Rightarrow> string hash_map \<Rightarrow> app \<Rightarrow> (app_error, unit) result \<times> app" where
  "pty_session i query st =
     (let cols = query_u16 ''cols'' DEFAULT_COLS query; rows = query_u16 ''rows'' DEFAULT_ROWS query in
      case hm_get i (sandboxes st) of None \<Rightarrow> (Inl (SandboxNotFound i), st) | Some s \<Rightarrow>
        if MAX_PTY_SESSIONS_PER_SANDBOX \<le> pty_session_count s
        then (Inl (Conflict (Msg ''sandbox {} already has {} open PTY sessions'' [i, show_nat 64])), st)
        else
     (case on_world (vm_open_pty (sb_vm s) cols rows)
             (update_sandbox i (\<lambda>s. s\<lparr>pty_session_count := pty_session_count s + 1\<rparr>) st) of
        (Inl e, st1) \<Rightarrow> (Inl (Internal e), update_sandbox i (\<lambda>s. s\<lparr>pty_session_count := pty_session_count s - 1\<rparr>) st1)
      | (Inr _, st1) \<Rightarrow> (Inr (), st1)))"

text \<open>\<^verbatim>\<open>PtySessionGuard::drop\<close>.\<close>

definition drop_pty_guard :: "string \<Rightarrow> app \<Rightarrow> app" where
  "drop_pty_guard i st = update_sandbox i (\<lambda>s. s\<lparr>pty_session_count := pty_session_count s - 1\<rparr>) st"

section \<open>From the process to the client\<close>

text \<open>The codecs carry these events: base64 and the JSON text round-trip, and a message fits a frame.\<close>

definition carries :: "(u8 list \<Rightarrow> string) \<Rightarrow> (string \<Rightarrow> u8 list option) \<Rightarrow> (json \<Rightarrow> u8 list) \<Rightarrow> (u8 list \<Rightarrow> json option) \<Rightarrow> child_run \<Rightarrow> bool" where
  "carries b64 unb64 print parse child \<longleftrightarrow>
     (\<forall>c \<in> set (chunks child). unb64 (b64 (snd c)) = Some (snd c)) \<and> i32_ok (stream_exit_code (wait_status child))
     \<and> (\<forall>ev \<in> set (pump_and_wait b64 child). let j = exec_stream_event_json ev in
          parse (print j) = Some j \<and> length (print j) \<le> unat MAX_MESSAGE_LEN)"

lemma length_write_message [simp]: "length (write_message p) = 4 + length p"
  by (simp add: write_message_def)

lemma read_message_cut:
  assumes "length p \<le> unat MAX_MESSAGE_LEN" "k < 4 + length p"
  shows "\<exists>e. read_message (take k (write_message p @ rest)) = Inl e"
proof (cases "k < 4")
  case True
  then show ?thesis by (simp add: read_message_def read_exact_def)
next
  case False
  have len: "unat (of_nat (length p) :: u32) = length p"
    using assms(1) by (simp add: unsigned_of_nat take_bit_nat_eq_self_iff MAX_MESSAGE_LEN_def)
  then have fits: "\<not> MAX_MESSAGE_LEN < of_nat (length p)" using assms(1) by (simp add: word_less_nat_alt)
  define more where "more = take (k - 4) (p @ rest)"
  have "take k (write_message p @ rest) = to_le_bytes (of_nat (length p)) @ more"
    using False by (simp add: write_message_def more_def)
  moreover have "read_exact 4 (to_le_bytes (of_nat (length p)) @ more) = Inr (to_le_bytes (of_nat (length p)), more)"
    by (simp add: read_exact_def)
  moreover have "read_exact (length p) more = Inl eof_error"
    using assms(2) False by (simp add: read_exact_def more_def)
  ultimately show ?thesis using fits by (simp add: read_message_def from_to_le_bytes len Let_def)
qed

interpretation exec_events: wire_type exec_stream_event_json exec_stream_event_of_json
    "\<lambda>ev. case ev of Exit c \<Rightarrow> i32_ok c | _ \<Rightarrow> True" "\<lambda>print ev. print (exec_stream_event_json ev)" decode_exec_stream_event
  by unfold_locales (simp_all add: exec_stream_event_round decode_exec_stream_event_def)

text \<open>A frame that arrived in full is read; the rest of the stream is what follows it.\<close>

lemma pump_event:
  assumes "parse (print (exec_stream_event_json ev)) = Some (exec_stream_event_json ev)"
    "length (print (exec_stream_event_json ev)) \<le> unat MAX_MESSAGE_LEN" "case ev of Exit c \<Rightarrow> i32_ok c | _ \<Rightarrow> True"
  shows "length (send_event print ev) \<le> k \<Longrightarrow>
      pump_exec_stream parse unb64 (take k (send_event print ev @ rest)) s =
      (case ev of Exit c \<Rightarrow> log_finish c s
       | Stdout d \<Rightarrow> pump_exec_stream parse unb64 (take (k - length (send_event print ev)) rest) (append_chunk unb64 d s)
       | Stderr d \<Rightarrow> pump_exec_stream parse unb64 (take (k - length (send_event print ev)) rest) (append_chunk unb64 d s))"
    and "k < length (send_event print ev) \<Longrightarrow> pump_exec_stream parse unb64 (take k (send_event print ev @ rest)) s = log_finish (- 1) s"
proof -
  have d: "decode_exec_stream_event parse (print (exec_stream_event_json ev)) = Some ev"
    using exec_events.decode_encode [of print parse ev] assms by (simp add: fits_def)
  show "pump_exec_stream parse unb64 (take k (send_event print ev @ rest)) s =
      (case ev of Exit c \<Rightarrow> log_finish c s
       | Stdout d \<Rightarrow> pump_exec_stream parse unb64 (take (k - length (send_event print ev)) rest) (append_chunk unb64 d s)
       | Stderr d \<Rightarrow> pump_exec_stream parse unb64 (take (k - length (send_event print ev)) rest) (append_chunk unb64 d s))"
    if "length (send_event print ev) \<le> k"
    using that d read_write_message [OF assms(2)]
    by (subst pump_exec_stream.simps) (simp add: send_event_def split: exec_stream_event.splits)
  show "pump_exec_stream parse unb64 (take k (send_event print ev @ rest)) s = log_finish (- 1) s"
    if "k < length (send_event print ev)"
    using that read_message_cut [OF assms(2), of k rest] by (subst pump_exec_stream.simps) (auto simp: send_event_def)
qed

lemma pump_chunks:
  assumes "\<forall>c \<in> set cs. unb64 (b64 (snd c)) = Some (snd c)"
    "\<forall>ev \<in> set (map (chunk_event b64) cs @ [Exit code]). parse (print (exec_stream_event_json ev)) = Some (exec_stream_event_json ev)
       \<and> length (print (exec_stream_event_json ev)) \<le> unat MAX_MESSAGE_LEN"
    "i32_ok code"
  shows "\<exists>n \<le> length cs. \<exists>c. pump_exec_stream parse unb64 (take k (concat (map (send_event print) (map (chunk_event b64) cs @ [Exit code])))) s
      = log_finish c (fold (\<lambda>c. log_append (snd c)) (take n cs) s)
    \<and> (if length (concat (map (send_event print) (map (chunk_event b64) cs @ [Exit code]))) \<le> k then n = length cs \<and> c = code else c = - 1)"
  using assms
proof (induction cs arbitrary: k s)
  case Nil
  note E = pump_event [of parse print "Exit code" k unb64 "[]" s]
  from Nil E show ?case by (cases "length (send_event print (Exit code)) \<le> k") auto
next
  case (Cons x cs)
  let ?ev = "chunk_event b64 x" and ?rest = "concat (map (send_event print) (map (chunk_event b64) cs @ [Exit code]))"
  let ?l = "length (send_event print ?ev)"
  have "case ?ev of Exit c \<Rightarrow> i32_ok c | _ \<Rightarrow> True" by (simp add: chunk_event_def)
  note E = pump_event [of parse print ?ev k unb64 ?rest s, OF _ _ this]
  show ?case
  proof (cases "?l \<le> k")
    case True
    with E(1) Cons.prems have p: "pump_exec_stream parse unb64 (take k (send_event print ?ev @ ?rest)) s =
        pump_exec_stream parse unb64 (take (k - ?l) ?rest) (log_append (snd x) s)"
      by (simp add: chunk_event_def append_chunk_def)
    obtain n c where n: "n \<le> length cs" "pump_exec_stream parse unb64 (take (k - ?l) ?rest) (log_append (snd x) s)
        = log_finish c (fold (\<lambda>c. log_append (snd c)) (take n cs) (log_append (snd x) s))"
        "if length ?rest \<le> k - ?l then n = length cs \<and> c = code else c = - 1"
      using Cons.IH [of "k - ?l" "log_append (snd x) s"] Cons.prems by auto
    show ?thesis
      by (intro exI [of _ "Suc n"] exI [of _ c]) (use n p True in \<open>auto split: if_splits\<close>)
  next
    case False
    with E(2) Cons.prems have p: "pump_exec_stream parse unb64 (take k (send_event print ?ev @ ?rest)) s = log_finish (- 1) s"
      by simp
    show ?thesis by (intro exI [of _ 0] exI [of _ "- 1"]) (use p False in auto)
  qed
qed

lemma fold_append_output: "total_output (fold (\<lambda>c. log_append (snd c)) cs s) = total_output s @ concat (map snd cs)"
  by (induction cs arbitrary: s) simp_all

lemma fold_append_inv: "log_inv s \<Longrightarrow> log_inv (fold (\<lambda>c. log_append (snd c)) cs s)"
  by (induction cs arbitrary: s) (simp_all add: log_inv_append)

text \<open>The output bytes among the messages of a client.\<close>

definition ws_bytes :: "ws_message list \<Rightarrow> u8 list" where
  "ws_bytes msgs = concat (map (\<lambda>m. case m of WsBinary bs \<Rightarrow> bs | WsText _ \<Rightarrow> []) msgs)"

lemma stream_logs_finished:
  "log_exit_code s = Some c \<Longrightarrow> ws_bytes (stream_logs (\<lambda>_ _. True) s es) = log_buffer s
    \<and> last (stream_logs (\<lambda>_ _. True) s es) = exit_notice c"
  by (simp add: stream_logs_def log_subscribe_def ws_bytes_def exit_notice_def Let_def)

text \<open>
  C27. A streamed command's output goes from the process to a client unchanged: whatever chunks it
  prints, the session holds their bytes in the order in which the guest read them and then the exit
  code; if the connection breaks anywhere, the session holds the bytes of the frames that arrived
  in full and ends with code -1. A client that attaches afterwards gets the last megabyte of it and
  the notice of the exit.
\<close>

theorem streamed_output_arrives:
  assumes "carries b64 unb64 print parse child"
    "stream = guest_exec_stream b64 msg print h (Inr child)"
    "s = pump_exec_stream parse unb64 (take k stream) (log_session_new i cmd as t)"
  shows "\<exists>n \<le> length (chunks child).
     total_output s = concat (map snd (take n (chunks child)))
     \<and> (length stream \<le> k \<longrightarrow> n = length (chunks child) \<and> log_exit_code s = Some (stream_exit_code (wait_status child)))
     \<and> (k < length stream \<longrightarrow> log_exit_code s = Some (- 1))
     \<and> ws_bytes (stream_logs (\<lambda>_ _. True) s es) = drop (length (total_output s) - BUFFER_CAP_BYTES) (total_output s)
     \<and> (\<exists>c. log_exit_code s = Some c \<and> last (stream_logs (\<lambda>_ _. True) s es) = exit_notice c)"
proof -
  let ?s0 = "log_session_new i cmd as t" and ?code = "stream_exit_code (wait_status child)"
  have stream: "stream = concat (map (send_event print) (map (chunk_event b64) (chunks child) @ [Exit ?code]))"
    by (simp add: assms(2) guest_exec_stream_def pump_and_wait_def)
  have "\<forall>c \<in> set (chunks child). unb64 (b64 (snd c)) = Some (snd c)"
    "\<forall>ev \<in> set (map (chunk_event b64) (chunks child) @ [Exit ?code]). parse (print (exec_stream_event_json ev)) = Some (exec_stream_event_json ev)
       \<and> length (print (exec_stream_event_json ev)) \<le> unat MAX_MESSAGE_LEN" "i32_ok ?code"
    using assms(1) unfolding carries_def pump_and_wait_def Let_def by blast+
  from pump_chunks [OF this, of k ?s0] obtain n c where n: "n \<le> length (chunks child)"
      "s = log_finish c (fold (\<lambda>c. log_append (snd c)) (take n (chunks child)) ?s0)"
      "if length stream \<le> k then n = length (chunks child) \<and> c = ?code else c = - 1"
    unfolding assms(3) stream by blast
  have "total_output ?s0 = []" by (simp add: total_output_def log_session_new_def)
  then have out: "total_output s = concat (map snd (take n (chunks child)))" by (simp add: n(2) fold_append_output)
  have "log_inv s" unfolding n(2) by (intro log_inv_finish fold_append_inv log_inv_new)
  then have buf: "log_buffer s = drop (length (total_output s) - BUFFER_CAP_BYTES) (total_output s)" by (simp add: log_inv_def)
  have code: "log_exit_code s = Some c" by (simp add: n(2))
  from n(3) have "length stream \<le> k \<longrightarrow> n = length (chunks child) \<and> c = ?code" "k < length stream \<longrightarrow> c = - 1"
    by (auto split: if_splits)
  with n(1) out buf code stream_logs_finished [OF code, of es] show ?thesis by auto
qed

text \<open>A printer for one process that says three bytes and exits with 0.\<close>

definition small_child :: child_run where
  "small_child = \<lparr>chunks = [(True, [104, 105, 10])], wait_status = Inr (Some 0)\<rparr>"

definition small_print :: "json \<Rightarrow> u8 list" where
  "small_print j = (if j = exec_stream_event_json (Exit 0) then [1] else [2])"

definition small_parse :: "u8 list \<Rightarrow> json option" where
  "small_parse bs = (if bs = [1] then Some (exec_stream_event_json (Exit 0)) else Some (exec_stream_event_json (Stdout ''aGkK'')))"

theorem streamed_output_arrives_witness:
  "\<exists>s. s = pump_exec_stream small_parse (\<lambda>_. Some [104, 105, 10])
        (guest_exec_stream (\<lambda>_. ''aGkK'') (\<lambda>_. []) small_print \<lparr>es_command = ''c'', es_args = [], es_env = []\<rparr> (Inr small_child))
        (log_session_new ''l'' ''c'' [] 0)
     \<and> total_output s = [104, 105, 10] \<and> log_exit_code s = Some 0"
proof -
  let ?h = "\<lparr>es_command = ''c'', es_args = [], es_env = []\<rparr> :: exec_stream_handshake"
  have c: "carries (\<lambda>_. ''aGkK'') (\<lambda>_. Some [104, 105, 10]) small_print small_parse small_child"
    by (simp add: carries_def small_child_def pump_and_wait_def chunk_event_def stream_exit_code_def i32_ok_def small_print_def
        small_parse_def jtagged_def MAX_MESSAGE_LEN_def Let_def)
  show ?thesis
    using streamed_output_arrives [OF c refl refl, where msg = "\<lambda>_. []" and h = ?h and i = "''l''" and cmd = "''c''" and as = "[]"
        and t = 0 and k = "length (guest_exec_stream (\<lambda>_. ''aGkK'') (\<lambda>_. []) small_print ?h (Inr small_child))"]
    by (auto simp: small_child_def stream_exit_code_def)
qed

section \<open>Open terminals\<close>

datatype pty_event = PtyOpen "string hash_map" | PtyClose

text \<open>The state and the number of sessions that hold a guard; a close is that of one of them.\<close>

fun pty_event_step :: "string \<Rightarrow> pty_event \<Rightarrow> app \<times> nat \<Rightarrow> app \<times> nat" where
  "pty_event_step i (PtyOpen query) (st, n) =
     (case pty_session i query st of (Inr _, st1) \<Rightarrow> (st1, Suc n) | (Inl _, st1) \<Rightarrow> (st1, n))"
| "pty_event_step i PtyClose (st, n) = (if n = 0 then (st, 0) else (drop_pty_guard i st, n - 1))"

definition pty_run :: "string \<Rightarrow> pty_event list \<Rightarrow> app \<Rightarrow> app \<times> nat" where
  "pty_run i evs st = fold (pty_event_step i) evs (st, 0)"

definition pty_counted :: "string \<Rightarrow> nat \<Rightarrow> app \<times> nat \<Rightarrow> bool" where
  "pty_counted i t = (\<lambda>(st, n). n \<le> 64 \<and> (\<exists>s. hm_get i (sandboxes st) = Some s \<and> pty_session_count s = of_nat n \<and> last_activity s = t))"

lemma on_world_sandboxes: "on_world f st = (r, st') \<Longrightarrow> sandboxes st' = sandboxes st"
  by (auto simp: on_world_def split: prod.splits)

lemma update_get: "hm_get i (sandboxes (update_sandbox i f st)) = map_option f (hm_get i (sandboxes st))"
  by (simp add: update_sandbox_def)

lemma pty_session_counted:
  assumes "pty_counted i t (st, n)" "pty_session i query st = (r, st')"
  shows "pty_counted i t (st', if is_ok r then Suc n else n) \<and> (is_ok r \<longrightarrow> n < 64)"
proof -
  obtain s where s: "hm_get i (sandboxes st) = Some s" "pty_session_count s = of_nat n" "last_activity s = t" and n: "n \<le> 64"
    using assms(1) by (auto simp: pty_counted_def)
  have full: "MAX_PTY_SESSIONS_PER_SANDBOX \<le> pty_session_count s \<longleftrightarrow> n = 64"
  proof -
    have "unat (of_nat n :: u32) = n" using n by (simp add: unsigned_of_nat take_bit_nat_eq_self_iff)
    then show ?thesis using n by (simp add: s(2) MAX_PTY_SESSIONS_PER_SANDBOX_def word_le_nat_alt)
  qed
  show ?thesis
  proof (cases "n = 64")
    case True
    then have "r = Inl (Conflict (Msg ''sandbox {} already has {} open PTY sessions'' [i, show_nat 64]))" "st' = st"
      using assms(2) s full by (auto simp: pty_session_def Let_def)
    with assms(1) show ?thesis by simp
  next
    case False
    let ?st0 = "update_sandbox i (\<lambda>s. s\<lparr>pty_session_count := pty_session_count s + 1\<rparr>) st"
    obtain x st1 where o: "on_world (vm_open_pty (sb_vm s) (query_u16 ''cols'' DEFAULT_COLS query) (query_u16 ''rows'' DEFAULT_ROWS query)) ?st0 = (x, st1)"
      by (cases "on_world (vm_open_pty (sb_vm s) (query_u16 ''cols'' DEFAULT_COLS query) (query_u16 ''rows'' DEFAULT_ROWS query)) ?st0")
    have g: "hm_get i (sandboxes st1) = Some (s\<lparr>pty_session_count := of_nat (Suc n)\<rparr>)"
      using s by (simp add: on_world_sandboxes [OF o] update_get add.commute)
    show ?thesis
    proof (cases x)
      case (Inl e)
      then have "r = Inl (Internal e)" "st' = update_sandbox i (\<lambda>s. s\<lparr>pty_session_count := pty_session_count s - 1\<rparr>) st1"
        using assms(2) s False full o by (simp_all add: pty_session_def Let_def)
      with g s n show ?thesis by (simp add: pty_counted_def update_get)
    next
      case (Inr u)
      then have "r = Inr ()" "st' = st1" using assms(2) s False full o by (simp_all add: pty_session_def Let_def)
      with g s n False show ?thesis by (simp add: pty_counted_def)
    qed
  qed
qed

lemma pty_event_counted: "pty_counted i t p \<Longrightarrow> pty_counted i t (pty_event_step i ev p)"
proof (cases ev)
  case (PtyOpen query)
  assume p: "pty_counted i t p"
  obtain st n where p': "p = (st, n)" by (cases p)
  obtain r st1 where r: "pty_session i query st = (r, st1)" by (cases "pty_session i query st")
  from pty_session_counted [OF _ r] p p' PtyOpen r show ?thesis by (cases r) fastforce+
next
  case PtyClose
  assume "pty_counted i t p"
  then show ?thesis using PtyClose by (cases p) (auto simp: pty_counted_def drop_pty_guard_def update_get of_nat_diff)
qed

lemma pty_fold_counted: "pty_counted i t p \<Longrightarrow> pty_counted i t (fold (pty_event_step i) evs p)"
  by (induction evs arbitrary: p) (simp, metis fold_simps(2) pty_event_counted)

text \<open>
  C29. The counter of a sandbox's terminals is exact: after any sequence of opens (failing ones included) and
  closes it is the number of open sessions, never above the limit of 64 and never below zero; at the
  limit the next open is refused and changes nothing. None of it is activity for the reaper.
\<close>

theorem pty_sessions_bounded:
  assumes "hm_get i (sandboxes st) = Some s" "pty_session_count s = 0" "pty_run i evs st = (st', n)"
  shows "\<exists>s'. hm_get i (sandboxes st') = Some s' \<and> pty_session_count s' = of_nat n \<and> n \<le> 64
    \<and> last_activity s' = last_activity s \<and> (n = 64 \<longrightarrow> snd (pty_session i query st') = st' \<and> \<not> is_ok (fst (pty_session i query st')))"
proof -
  have "pty_counted i (last_activity s) (st, 0)" using assms(1,2) by (simp add: pty_counted_def)
  from pty_fold_counted [OF this, of evs] have c: "pty_counted i (last_activity s) (st', n)" using assms(3) by (simp add: pty_run_def)
  then obtain s' where s': "hm_get i (sandboxes st') = Some s'" "pty_session_count s' = of_nat n" "last_activity s' = last_activity s" "n \<le> 64"
    by (auto simp: pty_counted_def)
  have "snd (pty_session i query st') = st' \<and> \<not> is_ok (fst (pty_session i query st'))" if "n = 64"
    using s' that by (simp add: pty_session_def MAX_PTY_SESSIONS_PER_SANDBOX_def)
  with s' show ?thesis by blast
qed

theorem pty_sessions_bounded_witness:
  "\<exists>st' n s'. pty_run ''s1'' [PtyOpen [], PtyOpen [], PtyClose] (sample_app\<lparr>sandboxes := [(''s1'', sample_sandbox)]\<rparr>) = (st', n)
     \<and> hm_get ''s1'' (sandboxes st') = Some s' \<and> pty_session_count s' = of_nat n"
proof -
  let ?st = "sample_app\<lparr>sandboxes := [(''s1'', sample_sandbox)]\<rparr>"
  have s: "hm_get ''s1'' (sandboxes ?st) = Some sample_sandbox" "pty_session_count sample_sandbox = 0"
    by (simp_all add: hm_get_def sample_sandbox_def)
  obtain st' n where r: "pty_run ''s1'' [PtyOpen [], PtyOpen [], PtyClose] ?st = (st', n)"
    by (cases "pty_run ''s1'' [PtyOpen [], PtyOpen [], PtyClose] ?st")
  from pty_sessions_bounded [OF s r, of "[]"] r show ?thesis by blast
qed

end
