(* ===== verification/Tunnels.thy ===== *)
theory Tunnels
  imports Guest
begin

text \<open>
  Local tunnels: a port inside a sandbox that leads to the caller's machine (\<^verbatim>\<open>daemon/src/routes_tunnel.rs\<close>, the
  registry and the dispatch of \<^verbatim>\<open>vmm/src/tunnel.rs\<close>, the connection ids of \<^verbatim>\<open>guest-agent/src/tunnel.rs\<close>).
  All connections of a tunnel share one WebSocket; the proxy is a state machine over what happens on
  its sockets. A string on the wire is the list of its bytes.
\<close>

section \<open>Routes\<close>

definition tunnel_register :: "string \<Rightarrow> app \<Rightarrow> app" where
  "tunnel_register tid st = st\<lparr>tunnel_registry := List.insert tid (tunnel_registry st)\<rparr>"

definition tunnel_unregister :: "string \<Rightarrow> app \<Rightarrow> app" where
  "tunnel_unregister tid st = st\<lparr>tunnel_registry := removeAll tid (tunnel_registry st)\<rparr>"

definition start_tunnel :: "string \<Rightarrow> string \<Rightarrow> u16 \<Rightarrow> app \<Rightarrow> (app_error, unit) result \<times> app" where
  "start_tunnel i tid guest_port st =
     (case hm_get i (sandboxes st) of None \<Rightarrow> (Inl (SandboxNotFound i), st) | Some s \<Rightarrow>
     (case on_world (vm_call (sb_vm s) (StartTunnel tid guest_port)) st of
        (Inl e, st1) \<Rightarrow> (Inl (Internal e), st1)
      | (Inr ROk, st1) \<Rightarrow> (Inr (), st1)
      | (Inr (RError m), st1) \<Rightarrow> (Inl (BadRequest (Msg m [])), st1)
      | (Inr _, st1) \<Rightarrow> (Inl (Internal (io_other ''unexpected agent response to start_tunnel'' [])), st1)))"

definition create_tunnel :: "string \<Rightarrow> u16 \<Rightarrow> app \<Rightarrow> (app_error, json) result \<times> app" where
  "create_tunnel i guest_port st =
     (let (tid, st1) = app_uuid st in
      case start_tunnel i tid guest_port (tunnel_register tid st1) of
        (Inl e, st2) \<Rightarrow> (Inl e, tunnel_unregister tid st2)
      | (Inr _, st2) \<Rightarrow>
          (Inr (JObj [(''tunnel_id'', JStr tid), (''guest_port'', jword guest_port)]), st2\<lparr>tunnels := List.insert tid (tunnels st2)\<rparr>))"

definition delete_tunnel :: "string \<Rightarrow> string \<Rightarrow> app \<Rightarrow> (app_error, unit) result \<times> app" where
  "delete_tunnel i tid st =
     (let st1 = tunnel_unregister tid st;
          st2 = st1\<lparr>tunnels := removeAll tid (tunnels st1)\<rparr> in
      case hm_get i (sandboxes st2) of None \<Rightarrow> (Inl (SandboxNotFound i), st2)
      | Some s \<Rightarrow> (Inr (), snd (on_world (vm_call (sb_vm s) (StopTunnel tid)) st2)))"

definition tunnel_ws :: "string \<Rightarrow> string \<Rightarrow> app \<Rightarrow> (app_error, unit) result \<times> app" where
  "tunnel_ws i tid st =
     (if tid \<in> set (tunnels st) then (Inr (), st\<lparr>tunnels := removeAll tid (tunnels st)\<rparr>)
      else (Inl (Conflict (Msg ''tunnel {} has no pending connection to attach to'' [tid])), st))"

section \<open>The guest's connections\<close>

text \<open>\<^verbatim>\<open>accept_loop\<close> numbers its connections; a handshake names the tunnel and the connection.\<close>

definition guest_conn_id :: "string \<Rightarrow> nat \<Rightarrow> string" where
  "guest_conn_id tid n = tid @ ''-'' @ show_nat n"

text \<open>
  One accepted connection on the host: the tunnel its handshake names, if that is registered, gets it.
\<close>

definition dispatch_connection :: "(u8 list \<Rightarrow> json option) \<Rightarrow> string list \<Rightarrow> u8 list \<Rightarrow> (string \<times> string) option" where
  "dispatch_connection parse registered stream =
     (case read_message stream of
        Inl _ \<Rightarrow> None
      | Inr (raw, _) \<Rightarrow>
          (case Option.bind (parse raw) tunnel_open_of_json of
             None \<Rightarrow> None
           | Some t \<Rightarrow> if to_tunnel_id t \<in> set registered then Some (to_tunnel_id t, to_conn_id t) else None))"

section \<open>Frames on the WebSocket\<close>

definition OP_OPEN :: u8 where "OP_OPEN = 0"

definition OP_DATA :: u8 where "OP_DATA = 1"

definition OP_CLOSE :: u8 where "OP_CLOSE = 2"

definition encode_frame :: "u8 \<Rightarrow> u8 list \<Rightarrow> u8 list \<Rightarrow> u8 list" where
  "encode_frame op conn_id payload = op # of_nat (length conn_id) # conn_id @ payload"

text \<open>\<^verbatim>\<open>std::str::from_utf8\<close> succeeds.\<close>

definition cont_byte :: "u8 \<Rightarrow> bool" where
  "cont_byte b \<longleftrightarrow> 0x80 \<le> b \<and> b \<le> 0xBF"

fun utf8_ok :: "u8 list \<Rightarrow> bool" where
  "utf8_ok [] = True"
| "utf8_ok (a # bs) =
     (if a < 0x80 then utf8_ok bs
      else if 0xC2 \<le> a \<and> a \<le> 0xDF then (case bs of b # rest \<Rightarrow> cont_byte b \<and> utf8_ok rest | _ \<Rightarrow> False)
      else if 0xE0 \<le> a \<and> a \<le> 0xEF then
        (case bs of
           b # c # rest \<Rightarrow> cont_byte b \<and> cont_byte c \<and> (a = 0xE0 \<longrightarrow> 0xA0 \<le> b) \<and> (a = 0xED \<longrightarrow> b \<le> 0x9F) \<and> utf8_ok rest
         | _ \<Rightarrow> False)
      else if 0xF0 \<le> a \<and> a \<le> 0xF4 then
        (case bs of
           b # c # d # rest \<Rightarrow> cont_byte b \<and> cont_byte c \<and> cont_byte d \<and> (a = 0xF0 \<longrightarrow> 0x90 \<le> b) \<and> (a = 0xF4 \<longrightarrow> b \<le> 0x8F) \<and> utf8_ok rest
         | _ \<Rightarrow> False)
      else False)"

definition decode_frame :: "u8 list \<Rightarrow> (u8 \<times> u8 list \<times> u8 list) option" where
  "decode_frame dat =
     (case dat of
        op # len # rest \<Rightarrow>
          if unat len \<le> length rest \<and> utf8_ok (take (unat len) rest)
          then Some (op, take (unat len) rest, drop (unat len) rest) else None
      | _ \<Rightarrow> None)"

section \<open>The proxy\<close>

datatype tunnel_event =
    NewConnection "u8 list"
  | GuestSent "u8 list" "u8 list"
  | GuestClosed "u8 list"
  | CallerSent "u8 list"

text \<open>
  The connections with a write half, the frames sent to the caller, and what was written to the guest's
  connections (\<open>None\<close>: shut down). \<open>broken\<close> says which connections refuse a write. The events are those of
  a WebSocket that takes every frame; one that fails ends the sequence.
\<close>

record proxy =
  writers :: "u8 list list"
  ws_frames :: "u8 list list"
  guest_writes :: "(u8 list \<times> u8 list option) list"

definition ws_send :: "u8 list \<Rightarrow> proxy \<Rightarrow> proxy" where
  "ws_send f p = p\<lparr>ws_frames := ws_frames p @ [f]\<rparr>"

fun proxy_step :: "(u8 list \<Rightarrow> bool) \<Rightarrow> tunnel_event \<Rightarrow> proxy \<Rightarrow> proxy" where
  "proxy_step broken (NewConnection c) p = ws_send (encode_frame OP_OPEN c []) (p\<lparr>writers := List.insert c (writers p)\<rparr>)"
| "proxy_step broken (GuestSent c bs) p = ws_send (encode_frame OP_DATA c bs) p"
| "proxy_step broken (GuestClosed c) p = ws_send (encode_frame OP_CLOSE c []) (p\<lparr>writers := removeAll c (writers p)\<rparr>)"
| "proxy_step broken (CallerSent dat) p =
     (case decode_frame dat of
        None \<Rightarrow> p
      | Some (op, c, payload) \<Rightarrow>
          if op = OP_DATA then
            (if c \<notin> set (writers p) then p
             else if broken c then p\<lparr>writers := removeAll c (writers p)\<rparr>
             else p\<lparr>guest_writes := guest_writes p @ [(c, Some payload)]\<rparr>)
          else if op = OP_CLOSE then
            (if c \<notin> set (writers p) then p
             else p\<lparr>writers := removeAll c (writers p), guest_writes := guest_writes p @ [(c, None)]\<rparr>)
          else p)"

definition proxy_run :: "(u8 list \<Rightarrow> bool) \<Rightarrow> tunnel_event list \<Rightarrow> proxy" where
  "proxy_run broken evs = fold (proxy_step broken) evs \<lparr>writers = [], ws_frames = [], guest_writes = []\<rparr>"

section \<open>Frames survive\<close>

lemma decode_encode_frame:
  "decode_frame (encode_frame op c payload) =
     (let n = length c mod 256 in
      if utf8_ok (take n c) then Some (op, take n c, drop n c @ payload) else None)"
proof -
  have n: "unat (of_nat (length c) :: u8) = length c mod 256" by (simp add: unsigned_of_nat take_bit_eq_mod)
  have le: "length c mod 256 \<le> length c" by simp
  then show ?thesis by (simp add: decode_frame_def encode_frame_def n Let_def)
qed

text \<open>
  A frame of the tunnel protocol is read back as it was written exactly when the connection's id is
  valid UTF-8 shorter than 256 bytes. A longer id loses its length modulo 256: the reader takes its
  first bytes for the id and the rest for payload.
\<close>

theorem tunnel_frames_round_trip:
  "(decode_frame (encode_frame op c payload) = Some (op, c, payload) \<longleftrightarrow> length c < 256 \<and> utf8_ok c)
   \<and> (length c < 256 \<longrightarrow> \<not> utf8_ok c \<longrightarrow> decode_frame (encode_frame op c payload) = None)
   \<and> (256 \<le> length c \<longrightarrow> utf8_ok (take (length c mod 256) c) \<longrightarrow>
        decode_frame (encode_frame op c payload) = Some (op, take (length c mod 256) c, drop (length c mod 256) c @ payload))"
proof -
  have "length (take (length c mod 256) c) < length c" if "256 \<le> length c"
    using that by (simp add: min_def)
  then have "take (length c mod 256) c \<noteq> c" if "256 \<le> length c" using that by (metis less_irrefl)
  then show ?thesis by (cases "length c < 256") (auto simp: decode_encode_frame Let_def)
qed

section \<open>Connections do not disturb each other\<close>

text \<open>One connection on its own: what is written to it, given whether it is open.\<close>

fun conn_view :: "u8 list \<Rightarrow> bool \<Rightarrow> bool \<Rightarrow> tunnel_event list \<Rightarrow> u8 list option list" where
  "conn_view c refuses opened [] = []"
| "conn_view c refuses opened (NewConnection d # es) = conn_view c refuses (c = d \<or> opened) es"
| "conn_view c refuses opened (GuestSent d bs # es) = conn_view c refuses opened es"
| "conn_view c refuses opened (GuestClosed d # es) = conn_view c refuses (opened \<and> c \<noteq> d) es"
| "conn_view c refuses opened (CallerSent dat # es) =
     (case decode_frame dat of
        Some (op, d, payload) \<Rightarrow>
          if d \<noteq> c \<or> \<not> opened then conn_view c refuses opened es
          else if op = OP_DATA then
            (if refuses then conn_view c refuses False es else Some payload # conn_view c refuses True es)
          else if op = OP_CLOSE then None # conn_view c refuses False es
          else conn_view c refuses opened es
      | None \<Rightarrow> conn_view c refuses opened es)"

definition writes_to :: "u8 list \<Rightarrow> proxy \<Rightarrow> u8 list option list" where
  "writes_to c p = map snd (filter (\<lambda>w. fst w = c) (guest_writes p))"

lemma conn_view_run:
  "writes_to c (fold (proxy_step broken) evs p) = writes_to c p @ conn_view c (broken c) (c \<in> set (writers p)) evs"
proof (induction evs arbitrary: p)
  case Nil
  then show ?case by (simp add: writes_to_def)
next
  case (Cons e evs)
  have step: "writes_to c (proxy_step broken e p) @ conn_view c (broken c) (c \<in> set (writers (proxy_step broken e p))) evs
      = writes_to c p @ conn_view c (broken c) (c \<in> set (writers p)) (e # evs)"
    by (cases e) (auto simp: writes_to_def ws_send_def OP_DATA_def OP_CLOSE_def split: option.splits)
  show ?case using Cons.IH [of "proxy_step broken e p"] step by simp
qed

text \<open>The frames that the guest's side causes.\<close>

fun guest_frames :: "tunnel_event list \<Rightarrow> (u8 \<times> u8 list \<times> u8 list) list" where
  "guest_frames [] = []"
| "guest_frames (NewConnection c # es) = (OP_OPEN, c, []) # guest_frames es"
| "guest_frames (GuestSent c bs # es) = (OP_DATA, c, bs) # guest_frames es"
| "guest_frames (GuestClosed c # es) = (OP_CLOSE, c, []) # guest_frames es"
| "guest_frames (CallerSent dat # es) = guest_frames es"

lemma guest_frames_run:
  "ws_frames (fold (proxy_step broken) evs p) = ws_frames p @ map (\<lambda>(op, c, bs). encode_frame op c bs) (guest_frames evs)"
proof (induction evs arbitrary: p)
  case (Cons e evs)
  show ?case by (cases e) (auto simp: Cons.IH ws_send_def split: option.splits)
qed simp

text \<open>
  C28. The connections of a tunnel share one WebSocket and do not disturb each other: what is written to a
  connection in the guest is what it would get alone (the caller's data for it while it is open, in
  order, then its close), whatever the other connections and the caller do; and the caller reads,
  in order, every open, every piece of data and every close of the guest, if the ids are short enough.
\<close>

theorem tunnel_multiplexes:
  "writes_to c (proxy_run broken evs) = conn_view c (broken c) False evs
   \<and> ((\<forall>(op, d, bs) \<in> set (guest_frames evs). length d < 256 \<and> utf8_ok d) \<longrightarrow>
        map decode_frame (ws_frames (proxy_run broken evs)) = map Some (guest_frames evs))"
proof -
  have "map decode_frame (map (\<lambda>(op, d, bs). encode_frame op d bs) fs) = map Some fs"
    if "\<forall>(op, d, bs) \<in> set fs. length d < 256 \<and> utf8_ok d" for fs
    using that by (induction fs) (auto simp: decode_encode_frame)
  moreover have "writes_to c \<lparr>writers = [], ws_frames = [], guest_writes = []\<rparr> = []" by (simp add: writes_to_def)
  ultimately show ?thesis by (simp add: proxy_run_def conn_view_run guest_frames_run)
qed

theorem tunnel_multiplexes_witness:
  "let evs = [NewConnection [65], GuestSent [65] [1, 2], CallerSent (encode_frame OP_DATA [65] [3]), GuestClosed [65]] in
     map decode_frame (ws_frames (proxy_run (\<lambda>_. False) evs)) = [Some (0, [65], []), Some (1, [65], [1, 2]), Some (2, [65], [])]
     \<and> writes_to [65] (proxy_run (\<lambda>_. False) evs) = [Some [3]]"
  using tunnel_multiplexes [of "[65]" "\<lambda>_. False"
      "[NewConnection [65], GuestSent [65] [1, 2], CallerSent (encode_frame OP_DATA [65] [3]), GuestClosed [65]]"]
  by (simp add: decode_encode_frame OP_OPEN_def OP_DATA_def OP_CLOSE_def Let_def)

section \<open>The life of a tunnel\<close>

definition tunnels_registered :: "app \<Rightarrow> bool" where
  "tunnels_registered st \<longleftrightarrow> set (tunnels st) \<subseteq> set (tunnel_registry st)"

lemma start_tunnel_keeps: "start_tunnel i tid port st = (r, st') \<Longrightarrow> tunnels st' = tunnels st \<and> tunnel_registry st' = tunnel_registry st"
  by (auto simp: start_tunnel_def on_world_def split: option.splits prod.splits sum.splits response.splits)

lemma app_uuid_tunnels: "app_uuid st = (i, st') \<Longrightarrow> tunnels st' = tunnels st \<and> tunnel_registry st' = tunnel_registry st"
  by (auto simp: app_uuid_def on_world_def new_uuid_def)

lemma delete_tunnel_effect:
  "tunnels (snd (delete_tunnel i tid st)) = removeAll tid (tunnels st)
   \<and> tunnel_registry (snd (delete_tunnel i tid st)) = removeAll tid (tunnel_registry st)"
  by (auto simp: delete_tunnel_def tunnel_unregister_def on_world_def Let_def split: option.splits prod.splits)

text \<open>
  A tunnel can be attached to from the success of its creation on, once: every waiting receiver stays
  registered; a creation that fails leaves nothing registered under its id; attaching takes the
  receiver, so a second attach is refused; deleting removes both whatever the guest answers, and
  it does so for the tunnel of any sandbox: the sandbox in the path is not compared.
\<close>

theorem tunnel_lifecycle:
  assumes "tunnels_registered st" "create_tunnel i port st = (r, st1)" "fst (app_uuid st) = tid" "tid \<notin> set (tunnels st)"
  shows "tunnels_registered st1 \<and> tunnels_registered (snd (tunnel_ws k u st)) \<and> tunnels_registered (snd (delete_tunnel k u st))
    \<and> (is_ok r \<longrightarrow> is_ok (fst (tunnel_ws k tid st1)) \<and> \<not> is_ok (fst (tunnel_ws l tid (snd (tunnel_ws k tid st1)))))
    \<and> (\<not> is_ok r \<longrightarrow> set (tunnel_registry st1) = set (tunnel_registry st) - {tid} \<and> tunnels st1 = tunnels st)
    \<and> (let st2 = snd (delete_tunnel k tid st1) in tid \<notin> set (tunnel_registry st2) \<and> \<not> is_ok (fst (tunnel_ws l tid st2)))"
proof -
  obtain st0 where u: "app_uuid st = (tid, st0)" using assms(3) by (cases "app_uuid st") auto
  obtain x st2 where s: "start_tunnel i tid port (tunnel_register tid st0) = (x, st2)"
    by (cases "start_tunnel i tid port (tunnel_register tid st0)")
  have t: "tunnels st2 = tunnels st" "tunnel_registry st2 = List.insert tid (tunnel_registry st)"
    using start_tunnel_keeps [OF s] app_uuid_tunnels [OF u] by (simp_all add: tunnel_register_def)
  have c: "(\<exists>e. x = Inl e \<and> r = Inl e \<and> st1 = tunnel_unregister tid st2)
      \<or> (is_ok r \<and> st1 = st2\<lparr>tunnels := List.insert tid (tunnels st2)\<rparr>)"
    using assms(2) u s by (cases x) (auto simp: create_tunnel_def)
  then have "tunnels_registered st1" using assms(1,4) t by (auto simp: tunnels_registered_def tunnel_unregister_def)
  moreover have "tunnels_registered (snd (tunnel_ws k u st))" "tunnels_registered (snd (delete_tunnel k u st))" for k u
    using assms(1) delete_tunnel_effect [of k u st] by (auto simp: tunnels_registered_def tunnel_ws_def)
  moreover have "is_ok (fst (tunnel_ws k tid st1)) \<and> \<not> is_ok (fst (tunnel_ws l tid (snd (tunnel_ws k tid st1))))" if "is_ok r"
    using c that by (auto simp: tunnel_ws_def)
  moreover have "set (tunnel_registry st1) = set (tunnel_registry st) - {tid} \<and> tunnels st1 = tunnels st" if "\<not> is_ok r"
    using c that t by (auto simp: tunnel_unregister_def)
  moreover have "let st2 = snd (delete_tunnel k tid st1) in tid \<notin> set (tunnel_registry st2) \<and> \<not> is_ok (fst (tunnel_ws l tid st2))"
    using delete_tunnel_effect [of k tid st1] by (simp add: tunnel_ws_def Let_def)
  ultimately show ?thesis by blast
qed

theorem tunnel_lifecycle_witness:
  "\<exists>r st1. create_tunnel ''s1'' 3000 (sample_app\<lparr>sandboxes := [(''s1'', sample_sandbox)]\<rparr>) = (r, st1) \<and> tunnels_registered st1
     \<and> fst (app_uuid (sample_app\<lparr>sandboxes := [(''s1'', sample_sandbox)]\<rparr>)) \<notin> set (tunnel_registry (snd (delete_tunnel ''s2'' (fst (app_uuid (sample_app\<lparr>sandboxes := [(''s1'', sample_sandbox)]\<rparr>))) st1)))"
proof -
  let ?st = "sample_app\<lparr>sandboxes := [(''s1'', sample_sandbox)]\<rparr>"
  obtain r st1 where c: "create_tunnel ''s1'' 3000 ?st = (r, st1)" by (cases "create_tunnel ''s1'' 3000 ?st")
  have t: "tunnels ?st = []" by (simp add: sample_app_def app_new_def)
  then have "tunnels_registered ?st" by (simp add: tunnels_registered_def)
  from tunnel_lifecycle [OF this c refl, of "''s2''"] t c show ?thesis by (auto simp: Let_def)
qed

end
