(* ===== verification/Preview.thy ===== *)
theory Preview
  imports Guest
begin

text \<open>
  Authentication (\<^verbatim>\<open>auth.rs\<close>) and the preview proxy (\<^verbatim>\<open>routes_preview.rs\<close>), which forwards a request to a port of a
  sandbox. Header names are lower case, as the \<^verbatim>\<open>http\<close> crate keeps them. Parameters: whether a header
  value is text (\<open>to_str\<close>), whether a string parses as a URI (\<open>valid_uri\<close>), and the HTTP client.
\<close>

section \<open>Tokens\<close>

type_synonym headers = "(string \<times> string) list"

definition header_text :: "(string \<Rightarrow> string option) \<Rightarrow> string \<Rightarrow> headers \<Rightarrow> string option" where
  "header_text to_str name hs = Option.bind (map_of hs name) to_str"

definition token_matches :: "string option \<Rightarrow> string \<Rightarrow> bool" where
  "token_matches header_value expected \<longleftrightarrow> Option.bind header_value (strip_prefix ''Bearer '') = Some expected"

definition require_bearer_token :: "(string \<Rightarrow> string option) \<Rightarrow> headers \<Rightarrow> app \<Rightarrow> bool" where
  "require_bearer_token to_str hs st =
     (case auth_token (app_config st) of
        None \<Rightarrow> True
      | Some expected \<Rightarrow> token_matches (header_text to_str ''authorization'' hs) expected)"

definition preview_token_matches :: "string option \<Rightarrow> string option \<Rightarrow> string \<Rightarrow> bool" where
  "preview_token_matches header_value query_token expected \<longleftrightarrow> token_matches header_value expected \<or> query_token = Some expected"

section \<open>The query string\<close>

definition TOKEN_QUERY_PARAM :: string where
  "TOKEN_QUERY_PARAM = ''token''"

definition raw_param_value :: "string \<Rightarrow> string \<Rightarrow> string option" where
  "raw_param_value segment key =
     (case strip_prefix key segment of
        None \<Rightarrow> None
      | Some rest \<Rightarrow>
          (case strip_prefix ''='' rest of
             Some v \<Rightarrow> Some v
           | None \<Rightarrow> if rest = [] then Some [] else None))"

definition query_segments :: "string \<Rightarrow> string list" where
  "query_segments query = filter (\<lambda>s. s \<noteq> []) (split_on (CHR ''&'') query)"

fun find_map :: "('a \<Rightarrow> 'b option) \<Rightarrow> 'a list \<Rightarrow> 'b option" where
  "find_map f [] = None"
| "find_map f (x # xs) = (case f x of None \<Rightarrow> find_map f xs | Some y \<Rightarrow> Some y)"

definition find_token_param :: "string \<Rightarrow> string option" where
  "find_token_param query = find_map (\<lambda>s. raw_param_value s TOKEN_QUERY_PARAM) (query_segments query)"

definition strip_token_param :: "string \<Rightarrow> string option" where
  "strip_token_param query =
     (let remaining = filter (\<lambda>s. raw_param_value s TOKEN_QUERY_PARAM = None) (query_segments query) in
      if remaining = [] then None else Some (join_with (CHR ''&'') remaining))"

record http_request =
  hr_method :: string
  hr_query :: "string option"
  hr_headers :: headers
  hr_body :: "u8 list"

definition require_preview_token :: "(string \<Rightarrow> string option) \<Rightarrow> http_request \<Rightarrow> app \<Rightarrow> bool" where
  "require_preview_token to_str req st =
     (case auth_token (app_config st) of
        None \<Rightarrow> True
      | Some expected \<Rightarrow>
          preview_token_matches (header_text to_str ''authorization'' (hr_headers req))
            (Option.bind (hr_query req) find_token_param) expected)"

section \<open>Headers\<close>

definition HOP_BY_HOP_HEADERS :: "string list" where
  "HOP_BY_HOP_HEADERS =
     [''connection'', ''keep-alive'', ''proxy-authenticate'', ''proxy-authorization'', ''te'', ''trailers'', ''transfer-encoding'', ''upgrade'']"

definition is_hop_by_hop :: "string \<Rightarrow> bool" where
  "is_hop_by_hop name = list_ex (eq_ignore_ascii_case name) HOP_BY_HOP_HEADERS"

definition request_headers_to_forward :: "headers \<Rightarrow> headers" where
  "request_headers_to_forward hs = filter (\<lambda>(name, _). \<not> is_hop_by_hop name \<and> name \<noteq> ''host'' \<and> name \<noteq> ''authorization'') hs"

definition response_headers_to_forward :: "headers \<Rightarrow> headers" where
  "response_headers_to_forward hs = filter (\<lambda>(name, _). \<not> is_hop_by_hop name) hs"

section \<open>The proxy\<close>

text \<open>A decoded capture of the path; an empty query is left out.\<close>

definition build_target_uri :: "ipv4 \<Rightarrow> u16 \<Rightarrow> string \<Rightarrow> string option \<Rightarrow> string" where
  "build_target_uri ip port tail_path query =
     (let path = (if tail_path = [] then ''/'' else if hd tail_path = CHR ''/'' then tail_path else CHR ''/'' # tail_path) in
      ''http://'' @ show_ipv4 ip @ '':'' @ show_nat (unat port) @ path
      @ (case query of Some q \<Rightarrow> if q = [] then [] else CHR ''?'' # q | None \<Rightarrow> []))"

definition preview_guest_ip :: "string \<Rightarrow> app \<Rightarrow> (app_error, ipv4) result" where
  "preview_guest_ip i st =
     (case hm_get i (sandboxes st) of None \<Rightarrow> Inl (SandboxNotFound i) | Some s \<Rightarrow>
     (case sb_network s of
        Some l \<Rightarrow> Inr (guest_ip (lease_config l))
      | None \<Rightarrow>
     (case source_snapshot_id s of
        None \<Rightarrow> Inl (Internal (io_other ''sandbox {} has no network lease and no source snapshot -- this is a bug'' [i]))
      | Some sid \<Rightarrow>
     (case hm_get sid (snapshots st) of
        None \<Rightarrow> Inl (Internal (io_other ''sandbox {} was forked from snapshot {}, which no longer exists -- this is a bug'' [i, sid]))
      | Some sn \<Rightarrow> Inr (guest_ip (lease_config (sn_network sn)))))))"

record forwarded =
  fw_method :: string
  fw_uri :: string
  fw_headers :: headers
  fw_body :: "u8 list"

datatype upstream = Answered nat headers "u8 list" | Unreachable message | NoAnswer

text \<open>Up to the request that goes out; the port is checked before the sandbox is looked up.\<close>

definition preview_request :: "(string \<Rightarrow> bool) \<Rightarrow> string \<Rightarrow> string \<Rightarrow> string \<Rightarrow> http_request \<Rightarrow> app \<Rightarrow> (app_error, forwarded) result \<times> app" where
  "preview_request valid_uri i port_str tail_path req st =
     (case parse_unsigned (2 ^ 16 - 1) port_str of
        None \<Rightarrow> (Inl (BadRequest (Msg ''invalid preview port: {}'' [port_str])), st)
      | Some port \<Rightarrow>
     (let st1 = note_activity i st in
      case preview_guest_ip i st1 of
        Inl e \<Rightarrow> (Inl e, st1)
      | Inr ip \<Rightarrow>
     (let uri = build_target_uri ip (of_nat port) tail_path (strip_token_param (case hr_query req of None \<Rightarrow> [] | Some q \<Rightarrow> q)) in
      if \<not> valid_uri uri then (Inl (BadRequest (Msg ''could not build preview target for {}'' [i])), st1)
      else (Inr \<lparr>fw_method = hr_method req, fw_uri = uri, fw_headers = request_headers_to_forward (hr_headers req), fw_body = hr_body req\<rparr>,
            st1))))"

definition preview_proxy :: "(string \<Rightarrow> bool) \<Rightarrow> (forwarded \<Rightarrow> upstream) \<Rightarrow> string \<Rightarrow> string \<Rightarrow> string \<Rightarrow> http_request \<Rightarrow> app \<Rightarrow>
    (app_error, nat \<times> headers \<times> u8 list) result \<times> app" where
  "preview_proxy valid_uri client i port_str tail_path req st =
     (case preview_request valid_uri i port_str tail_path req st of
        (Inl e, st1) \<Rightarrow> (Inl e, st1)
      | (Inr fw, st1) \<Rightarrow>
          ((case client fw of
              NoAnswer \<Rightarrow> Inl (GatewayTimeout (Msg ''sandbox {} port {} did not respond within the preview timeout'' [i, port_str]))
            | Unreachable m \<Rightarrow> Inl (BadGateway (Msg ''sandbox {} port {} is not reachable'' [i, port_str]))
            | Answered code hs body \<Rightarrow> Inr (code, response_headers_to_forward hs, body)), st1))"

text \<open>The route with its guard: \<open>None\<close> is the bare status 401.\<close>

definition preview_route :: "(string \<Rightarrow> string option) \<Rightarrow> (string \<Rightarrow> bool) \<Rightarrow> (forwarded \<Rightarrow> upstream) \<Rightarrow> string \<Rightarrow> string \<Rightarrow> string \<Rightarrow> http_request \<Rightarrow> app \<Rightarrow>
    (app_error, nat \<times> headers \<times> u8 list) result option \<times> app" where
  "preview_route to_str valid_uri client i port_str tail_path req st =
     (if require_preview_token to_str req st
      then (let (r, st1) = preview_proxy valid_uri client i port_str tail_path req st in (Some r, st1))
      else (None, st))"

section \<open>What is stripped\<close>

lemma filter_nonempty_segments: "\<forall>s \<in> set (query_segments q). s \<noteq> [] \<and> CHR ''&'' \<notin> set s"
  by (auto simp: query_segments_def dest: split_on_parts)

lemma segments_join:
  assumes "ss \<noteq> []" "\<forall>s \<in> set ss. s \<noteq> [] \<and> CHR ''&'' \<notin> set s"
  shows "query_segments (join_with (CHR ''&'') ss) = ss"
  using assms by (simp add: query_segments_def split_on_join_with)

lemma find_map_none: "find_map f xs = None \<longleftrightarrow> (\<forall>x \<in> set xs. f x = None)"
  by (induction xs) (auto split: option.splits)

lemma strip_token_segments:
  "query_segments (case strip_token_param q of None \<Rightarrow> [] | Some r \<Rightarrow> r)
     = filter (\<lambda>s. raw_param_value s TOKEN_QUERY_PARAM = None) (query_segments q)"
proof (cases "filter (\<lambda>s. raw_param_value s TOKEN_QUERY_PARAM = None) (query_segments q) = []")
  case True
  then show ?thesis by (simp add: strip_token_param_def query_segments_def)
next
  case False
  moreover have "\<forall>s \<in> set (filter (\<lambda>s. raw_param_value s TOKEN_QUERY_PARAM = None) (query_segments q)). s \<noteq> [] \<and> CHR ''&'' \<notin> set s"
    using filter_nonempty_segments by auto
  ultimately show ?thesis by (simp add: strip_token_param_def segments_join Let_def)
qed

lemma strip_token_nonempty: "strip_token_param q = Some r \<Longrightarrow> r \<noteq> []"
proof -
  assume s: "strip_token_param q = Some r"
  have "query_segments r = filter (\<lambda>s. raw_param_value s TOKEN_QUERY_PARAM = None) (query_segments q)"
    using strip_token_segments [of q] s by simp
  moreover have "\<dots> \<noteq> []" using s by (auto simp: strip_token_param_def Let_def split: if_splits)
  ultimately show "r \<noteq> []" by (auto simp: query_segments_def)
qed

lemma token_matches_iff: "token_matches h t \<longleftrightarrow> h = Some (''Bearer '' @ t)"
  by (cases h) (simp_all only: token_matches_def Option.bind.simps strip_prefix_some option.simps simp_thms)


definition sample_preview :: http_request where
  "sample_preview =
     \<lparr>hr_method = ''GET'', hr_query = Some ''a=1&token=s3&b'',
      hr_headers = [(''host'', ''h''), (''authorization'', ''Bearer s3''), (''accept'', ''x'')], hr_body = []\<rparr>"


end
