(* ===== verification/GuestSteps.thy ===== *)
theory GuestSteps
  imports Mounts Streams Tunnels Preview Handlers
begin

text \<open>
  The calls that go into a sandbox as steps of the ownership specification: they draw ids and rewrite
  sandboxes without touching what a sandbox owns.
\<close>

section \<open>Touching a sandbox\<close>

lemma hm_modify_missing: "hm_get k m = None \<Longrightarrow> hm_modify k f m = m"
  by (induction m) (auto simp: hm_modify_def hm_get_def split: if_splits)

lemma own_of_tunnels [simp]: "own_of (st\<lparr>tunnels := x\<rparr>) = own_of st" "own_of (st\<lparr>tunnel_registry := x\<rparr>) = own_of st"
  by (simp_all add: own_of_def)

lemma update_steps: "(\<And>s. same_owner (f s) s) \<Longrightarrow> own_steps N (own_of st) (own_of (update_sandbox i f st))"
proof (cases "hm_get i (sandboxes st)")
  case None
  then show ?thesis by (simp add: update_sandbox_def hm_modify_missing own_of_def)
next
  case (Some s)
  assume f: "\<And>s. same_owner (f s) s"
  have "own_step N (own_of st) ((own_of st)\<lparr>os_sandboxes := hm_modify i f (sandboxes st)\<rparr>)"
    using own_step.touch [of i "own_of st" s f N] Some f by simp
  then show ?thesis by (auto simp: update_sandbox_def)
qed

lemma update_after:
  assumes "own_of y = own_of x" "own_steps N a (own_of x)" "\<And>s. same_owner (f s) s"
  shows "own_steps N a (own_of (update_sandbox i f y))"
  using own_steps_trans [of N a "own_of y"] update_steps [OF assms(3), of N y i] assms(1,2) by simp

lemma vm_open_ids:
  "vm_open_pty v c r w = (x, w') \<Longrightarrow> ids_of w' = ids_of w" "vm_open_exec_stream v cmd as env w = (x, w') \<Longrightarrow> ids_of w' = ids_of w"
proof -
  have o: "open_stream s p h w = (x, w') \<Longrightarrow> ids_of w' = ids_of w" for s p h w x w'
    by (auto simp: open_stream_def split: prod.splits sum.splits dest: fc_do_ids)
  show "vm_open_pty v c r w = (x, w') \<Longrightarrow> ids_of w' = ids_of w" "vm_open_exec_stream v cmd as env w = (x, w') \<Longrightarrow> ids_of w' = ids_of w"
    unfolding vm_open_pty_def vm_open_exec_stream_def retry_with_backoff_def by (erule retry_loop_ids, erule o)+
qed

lemma draw_steps: "app_uuid st = (i, st') \<Longrightarrow> own_steps N (own_of st) (own_of st')"
  using app_uuid_own [of st i st'] own_step.draw [of N "own_of st"] by auto

section \<open>Calls to the agent\<close>

lemma note_activity_steps: "own_steps N (own_of st) (own_of (note_activity i st))"
  unfolding note_activity_def by (rule update_steps) (simp add: same_owner_def)

lemma call_agent_steps: "own_steps N (own_of st) (own_of (snd (call_agent i req st)))"
proof -
  obtain r st' where c: "call_agent i req st = (r, st')" by (cases "call_agent i req st")
  then show ?thesis
  proof (cases rule: call_agent_cases)
    case (called s x w)
    have "ids_of w = ids_of (wld st)" by (rule vm_call_ids [OF called(2)])
    moreover have "wld (note_activity i st) = wld st" by (simp add: note_activity_def update_sandbox_def)
    ultimately have "own_of st' = own_of (note_activity i st)" by (simp add: called(4) own_of_def)
    with c note_activity_steps [of N st i] show ?thesis by simp
  qed (use c in simp)
qed

lemma agent_route_steps: "own_steps N (own_of st) (own_of (snd (agent_route d i req st)))"
  using call_agent_steps [of N st i req] by (auto simp: agent_route_def split: prod.splits sum.splits)

lemma best_effort_steps: "own_steps N (own_of st) (own_of (best_effort i c as st))"
  unfolding best_effort_def by (rule call_agent_steps)

lemma exec_steps: "own_steps N (own_of st) (own_of (snd (exec_command i body st)))"
  by (simp add: exec_command_def agent_route_steps split: sum.splits)

lemma file_route_steps:
  "own_steps N (own_of st) (own_of (snd (read_file_route i p st)))" "own_steps N (own_of st) (own_of (snd (write_file_route i p c st)))"
  "own_steps N (own_of st) (own_of (snd (chmod_route i p m st)))" "own_steps N (own_of st) (own_of (snd (chown_route i p u g st)))"
  "own_steps N (own_of st) (own_of (snd (mkdir_route i p b st)))" "own_steps N (own_of st) (own_of (snd (rename_route i p q st)))"
  "own_steps N (own_of st) (own_of (snd (copy_route i p q st)))" "own_steps N (own_of st) (own_of (snd (symlink_route i p q st)))"
  "own_steps N (own_of st) (own_of (snd (readlink_route i p st)))" "own_steps N (own_of st) (own_of (snd (truncate_route i p n st)))"
  "own_steps N (own_of st) (own_of (snd (list_dir_route i p st)))"
  by (simp_all add: read_file_route_def write_file_route_def chmod_route_def chown_route_def mkdir_route_def rename_route_def
      copy_route_def symlink_route_def readlink_route_def truncate_route_def list_dir_route_def agent_route_steps)

section \<open>Mounts, streams, terminals, tunnels, previews\<close>

lemma mount_in_guest_steps: "own_steps N (own_of st) (own_of (snd (mount_in_guest b i cfg req st)))"
proof -
  let ?wr = "WriteFile cfg (b (rclone_config_content (access_key req) (secret_key req) (cm_endpoint req)))"
  let ?rc = "Exec ''rclone'' (rclone_mount_args cfg (cm_bucket req) (cm_mount_path req) (cm_read_only req)) []"
  obtain r1 st1 where 1: "agent_route expect_ok i (Mkdir (cm_mount_path req) True) st = (r1, st1)"
    by (cases "agent_route expect_ok i (Mkdir (cm_mount_path req) True) st")
  obtain r2 st2 where 2: "agent_route expect_ok i ?wr st1 = (r2, st2)" by (cases "agent_route expect_ok i ?wr st1")
  obtain r3 st3 where 3: "agent_route expect_ok i (Chmod cfg 0x180) st2 = (r3, st3)" by (cases "agent_route expect_ok i (Chmod cfg 0x180) st2")
  obtain r4 st4 where 4: "agent_route exec_ok i ?rc st3 = (r4, st4)" by (cases "agent_route exec_ok i ?rc st3")
  obtain r5 st5 where 5: "call_agent i (Exec ''mountpoint'' [''-q'', cm_mount_path req] []) st4 = (r5, st5)"
    by (cases "call_agent i (Exec ''mountpoint'' [''-q'', cm_mount_path req] []) st4")
  have s1: "own_steps N (own_of st) (own_of st1)" using agent_route_steps [of N st expect_ok i "Mkdir (cm_mount_path req) True"] 1 by simp
  have s2: "own_steps N (own_of st) (own_of st2)"
    using own_steps_trans [OF s1] agent_route_steps [of N st1 expect_ok i ?wr] 2 by simp
  have s3: "own_steps N (own_of st) (own_of st3)"
    using own_steps_trans [OF s2] agent_route_steps [of N st2 expect_ok i "Chmod cfg 0x180"] 3 by simp
  have s4: "own_steps N (own_of st) (own_of st4)" using own_steps_trans [OF s3] agent_route_steps [of N st3 exec_ok i ?rc] 4 by simp
  have s5: "own_steps N (own_of st) (own_of st5)"
    using own_steps_trans [OF s4] call_agent_steps [of N st4 i "Exec ''mountpoint'' [''-q'', cm_mount_path req] []"] 5 by simp
  have more: "own_steps N (own_of st) (own_of (best_effort i c as st'))" if "own_steps N (own_of st) (own_of st')" for c as st'
    using own_steps_trans [OF that best_effort_steps] .
  obtain r st' where m: "mount_in_guest b i cfg req st = (r, st')" by (cases "mount_in_guest b i cfg req st")
  have "st' \<in> {st1, st2, st3, st4, best_effort i ''rm'' [''-f'', cfg] st4, st5,
      best_effort i ''rm'' [''-f'', cfg] (best_effort i ''umount'' [cm_mount_path req] st5)}"
    using m 1 2 3 4 5 by (auto simp: mount_in_guest_def split: sum.splits if_splits prod.splits)
  with m s1 s2 s3 s4 s5 more [OF s4, of "''rm''" "[''-f'', cfg]"] more [OF more [OF s5, of "''umount''" "[cm_mount_path req]"], of "''rm''" "[''-f'', cfg]"]
  show ?thesis by (elim insertE emptyE) simp_all
qed

lemma mount_steps:
  "own_steps N (own_of st) (own_of (snd (create_mount b i req st)))" "own_steps N (own_of st) (own_of (snd (delete_mount i mid st)))"
proof -
  obtain k st1 where u: "app_uuid st = (k, st1)" by (cases "app_uuid st")
  obtain r st2 where m: "mount_in_guest b i (config_path_for k) req st1 = (r, st2)" by (cases "mount_in_guest b i (config_path_for k) req st1")
  have s2: "own_steps N (own_of st) (own_of st2)"
    using own_steps_trans [OF draw_steps [OF u]] mount_in_guest_steps [of N st1 b i "config_path_for k" req] m by simp
  have "own_steps N (own_of st2) (own_of (update_sandbox i (\<lambda>s. s\<lparr>sb_mounts := sb_mounts s @ [new_mount k req]\<rparr>) st2))"
    by (rule update_steps) (simp add: same_owner_def)
  with s2 u m show "own_steps N (own_of st) (own_of (snd (create_mount b i req st)))"
    by (auto simp: create_mount_def Let_def split: sum.splits option.splits intro: own_steps_trans)
  have t: "own_steps N (own_of st) (own_of (update_sandbox i (\<lambda>s. s\<lparr>sb_mounts := l\<rparr>) st))" for l
    by (rule update_steps) (simp add: same_owner_def)
  show "own_steps N (own_of st) (own_of (snd (delete_mount i mid st)))"
    using own_steps_trans [OF own_steps_trans [OF t best_effort_steps] best_effort_steps]
    by (auto simp: delete_mount_def Let_def split: option.splits prod.splits)
qed

lemma stream_steps:
  "own_steps N (own_of st) (own_of (snd (start_exec_stream i req st)))"
  "own_steps N (own_of st) (own_of (pump_session parse unb i sid bytes st))"
proof -
  obtain k st1 where u: "app_uuid st = (k, st1)" by (cases "app_uuid st")
  have w: "own_of st2 = own_of st1" if "on_world (vm_open_exec_stream v c as env) st1 = (x, st2)" for v c as env x st2
    using on_world_own [OF that] vm_open_ids(2) by blast
  show "own_steps N (own_of st) (own_of (snd (start_exec_stream i req st)))"
    using draw_steps [OF u, of N] u
    by (auto simp: start_exec_stream_def Let_def same_owner_def split: option.splits prod.splits sum.splits dest!: w intro!: update_after)
  show "own_steps N (own_of st) (own_of (pump_session parse unb i sid bytes st))"
    unfolding pump_session_def by (rule update_steps) (simp add: same_owner_def)
qed

lemma pty_steps:
  "own_steps N (own_of st) (own_of (snd (pty_session i query st)))" "own_steps N (own_of st) (own_of (drop_pty_guard i st))"
proof -
  have t: "own_steps N (own_of st2) (own_of (update_sandbox i (\<lambda>s. s\<lparr>pty_session_count := g (pty_session_count s)\<rparr>) st2))" for st2 g
    by (rule update_steps) (simp add: same_owner_def)
  then show "own_steps N (own_of st) (own_of (drop_pty_guard i st))" by (simp add: drop_pty_guard_def)
  let ?st0 = "update_sandbox i (\<lambda>s. s\<lparr>pty_session_count := pty_session_count s + 1\<rparr>) st"
  have w: "own_of st2 = own_of ?st0" if "on_world (vm_open_pty v c r) ?st0 = (x, st2)" for v c r x st2
    using on_world_own [OF that] vm_open_ids(1) by blast
  have up: "own_steps N (own_of st) (own_of ?st0)" using t [of st "\<lambda>n. n + 1"] .
  show "own_steps N (own_of st) (own_of (snd (pty_session i query st)))"
    using up
    by (auto simp: pty_session_def Let_def same_owner_def split: option.splits prod.splits sum.splits dest!: w
        intro!: update_after [where x = ?st0])
qed

lemma tunnel_steps:
  "own_steps N (own_of st) (own_of (snd (create_tunnel i port st)))" "own_steps N (own_of st) (own_of (snd (delete_tunnel i tid st)))"
  "own_steps N (own_of st) (own_of (snd (tunnel_ws i tid st)))"
proof -
  obtain k st1 where u: "app_uuid st = (k, st1)" by (cases "app_uuid st")
  have w: "own_of st2 = own_of st0" if "on_world (vm_call v q) st0 = (x, st2)" for v q st0 x st2
    using on_world_own [OF that] vm_call_ids by blast
  have s: "own_of st2 = own_of st0" if "start_tunnel i k port st0 = (x, st2)" for st0 x st2
    using that by (auto simp: start_tunnel_def split: option.splits prod.splits sum.splits response.splits dest!: w)
  show "own_steps N (own_of st) (own_of (snd (create_tunnel i port st)))"
    using draw_steps [OF u, of N] u
    by (auto simp: create_tunnel_def tunnel_register_def tunnel_unregister_def Let_def split: prod.splits sum.splits dest!: s)
  show "own_steps N (own_of st) (own_of (snd (delete_tunnel i tid st)))"
    using w [OF prod.collapse [symmetric]] by (simp add: delete_tunnel_def tunnel_unregister_def Let_def split: option.splits)
  show "own_steps N (own_of st) (own_of (snd (tunnel_ws i tid st)))" by (simp add: tunnel_ws_def)
qed

lemma preview_steps: "own_steps N (own_of st) (own_of (snd (preview_route to_str valid_uri client i p tail req st)))"
proof -
  have "own_steps N (own_of st) (own_of (snd (preview_request valid_uri i p tail req st)))"
    using note_activity_steps [of N st i] by (simp add: preview_request_def Let_def split: option.splits sum.splits)
  then show ?thesis
    by (auto simp: preview_route_def preview_proxy_def Let_def split: prod.splits sum.splits)
qed

end
