(* ===== verification/Daemon.thy ===== *)
theory Daemon
  imports Reaper Routes GuestSteps
begin

text \<open>
  The daemon as a whole (\<^verbatim>\<open>main.rs\<close>): how it starts and what each request or background tick
  does to its state. A call is a decoded request (the HTTP layer is in \<open>Router\<close>). The properties
  hold for every sequence of calls from a start, failures of any program, disk or Firecracker
  answer included.
\<close>

section \<open>Startup\<close>

definition tap_names :: "config \<Rightarrow> string list" where
  "tap_names c = map (\<lambda>i. tap_pool_prefix c @ show_nat i) [0..<unat (tap_pool_size c)]"

definition prepare_network :: "config \<Rightarrow> world \<Rightarrow> (io_error, network_manager) result \<times> world" where
  "prepare_network c w =
     (case (case cf_uplink_iface c of Some i \<Rightarrow> (Inr i, w) | None \<Rightarrow> on_sys detect_default_iface w) of
        (Inl e, w1) \<Rightarrow> (Inl e, w1)
      | (Inr up, w1) \<Rightarrow>
     (let net = network_new (cf_bridge_name c) (cf_bridge_gateway c) up (tap_names c) in
      case on_sys (ensure_ready net) w1 of
        (Inl e, w2) \<Rightarrow> (Inl e, w2) | (Inr _, w2) \<Rightarrow> (Inr net, w2)))"

definition check_jailer :: "config \<Rightarrow> world \<Rightarrow> (io_error, unit) result \<times> world" where
  "check_jailer c w =
     (case cf_jailer c of None \<Rightarrow> (Inr (), w) | Some j \<Rightarrow>
     (case on_fs (create_dir_all (jc_chroot_base_dir j)) w of
        (Inl e, w1) \<Rightarrow> (Inl e, w1)
      | (Inr _, w1) \<Rightarrow>
          if is_file (jc_jailer_bin j) (w_fs w1) then (Inr (), w1)
          else (Inl (io_other ''SANDKILN_JAILER_BIN does not point at a file: {}'' [jc_jailer_bin j]), w1)))"

text \<open>
  \<^verbatim>\<open>async_main\<close> up to the listener; a failed \<^verbatim>\<open>expect\<close> ends the process. Opening the history
  database is sqlite's: its content is an argument.
\<close>

definition start_daemon :: "environment \<Rightarrow> json_codec \<Rightarrow> history_store \<Rightarrow> world \<Rightarrow> (message, app) result" where
  "start_daemon env cdc hist w =
     (case from_env env of Inl m \<Rightarrow> Inl m | Inr c \<Rightarrow>
     (case prepare_network c w of (Inl e, _) \<Rightarrow> Inl (io_err_msg e) | (Inr net, w1) \<Rightarrow>
     (case on_fs (drive_store_new (drives_dir c)) w1 of (Inl e, _) \<Rightarrow> Inl (io_err_msg e) | (Inr drs, w2) \<Rightarrow>
     (case on_fs (image_store_new (images_dir c)) w2 of (Inl e, _) \<Rightarrow> Inl (io_err_msg e) | (Inr imgs, w3) \<Rightarrow>
     (case reconcile cdc (archive_dir c) net (w_fs w3) of (snaps, net1, f4) \<Rightarrow>
     (case reconcile_retired cdc f4 of (retired, f5) \<Rightarrow>
     (let w5 = w3\<lparr>w_fs := f5\<rparr> in
      case mark_unended_as_orphaned_on_startup hist (system_now w5) of (Inl m, _) \<Rightarrow> Inl m | (Inr _, hist1) \<Rightarrow>
     (case check_jailer c w5 of (Inl e, _) \<Rightarrow> Inl (io_err_msg e) | (Inr _, w6) \<Rightarrow>
        Inr (app_new c cdc net1 drs imgs snaps retired hist1 w6)))))))))"

section \<open>Calls\<close>

datatype file_call =
    ReadAt string | WriteAt string string | ChmodAt string u32 | ChownAt string u32 u32 | MkdirAt string bool
  | RenameTo string string | CopyTo string string | SymlinkTo string string | ReadlinkAt string | TruncateAt string u64 | ListAt string

datatype api_call =
    CreateSandbox "u8 list" | GetOrCreateSandbox get_or_create_request | StopSandbox string "string hash_map"
  | SnapshotSandbox string | ResumeSnapshot string "string hash_map" | ForkSnapshot string | DeleteSnapshot string
  | RestoreCheckpoint string | DeleteCheckpoint string
  | CreatePool create_pool_request | DeletePool string
  | CreateDrive u64 | ListDrives | DeleteDrive string
  | CreateImage string string | ListImages | DeleteImage string
  | ReplenisherPass | ReaperTick
  | RunCommand string exec_body | FileCall string file_call
  | CreateMount string create_mount_request | DeleteMount string string
  | StartExecStream string start_exec_stream_request | StreamEnded string string "u8 list"
  | OpenPty string "string hash_map" | PtyEnded string
  | CreateTunnel string u16 | DeleteTunnel string string | AttachTunnel string string
  | PreviewRequest string string string http_request

text \<open>
  What other code decides: the files' creation times, base64, header text, valid URIs, and what the
  proxied request gets for an answer.
\<close>

record externals =
  file_created :: "string \<Rightarrow> int option"
  base64_encode :: "string \<Rightarrow> string"
  base64_decode :: "string \<Rightarrow> u8 list option"
  header_to_str :: "string \<Rightarrow> string option"
  uri_is_valid :: "string \<Rightarrow> bool"
  http_client :: "forwarded \<Rightarrow> upstream"

fun serve_file :: "string \<Rightarrow> file_call \<Rightarrow> app \<Rightarrow> app" where
  "serve_file i (ReadAt p) st = snd (read_file_route i p st)"
| "serve_file i (WriteAt p c) st = snd (write_file_route i p c st)"
| "serve_file i (ChmodAt p m) st = snd (chmod_route i p m st)"
| "serve_file i (ChownAt p u g) st = snd (chown_route i p u g st)"
| "serve_file i (MkdirAt p ps) st = snd (mkdir_route i p ps st)"
| "serve_file i (RenameTo p q) st = snd (rename_route i p q st)"
| "serve_file i (CopyTo p q) st = snd (copy_route i p q st)"
| "serve_file i (SymlinkTo t l) st = snd (symlink_route i t l st)"
| "serve_file i (ReadlinkAt p) st = snd (readlink_route i p st)"
| "serve_file i (TruncateAt p n) st = snd (truncate_route i p n st)"
| "serve_file i (ListAt p) st = snd (list_dir_route i p st)"

text \<open>What a call leaves behind.\<close>

fun serve :: "externals \<Rightarrow> api_call \<Rightarrow> app \<Rightarrow> app" where
  "serve ext (CreateSandbox body) st = snd (create_sandbox body st)"
| "serve ext (GetOrCreateSandbox q) st = snd (get_or_create_sandbox q st)"
| "serve ext (StopSandbox i params) st = snd (stop_sandbox i params st)"
| "serve ext (SnapshotSandbox i) st = snd (snapshot_sandbox i st)"
| "serve ext (ResumeSnapshot i params) st = snd (resume_snapshot i params st)"
| "serve ext (ForkSnapshot i) st = snd (fork_snapshot i st)"
| "serve ext (DeleteSnapshot i) st = snd (delete_snapshot i st)"
| "serve ext (RestoreCheckpoint i) st = snd (restore_snapshot_history i st)"
| "serve ext (DeleteCheckpoint i) st = snd (delete_snapshot_history i st)"
| "serve ext (CreatePool q) st = snd (create_pool q st)"
| "serve ext (DeletePool i) st = snd (delete_pool i st)"
| "serve ext (CreateDrive mib) st = snd (create_drive mib st)"
| "serve ext ListDrives st = snd (list_drives (file_created ext) st)"
| "serve ext (DeleteDrive i) st = snd (delete_drive i st)"
| "serve ext (CreateImage i p) st = snd (create_image (file_created ext) i p st)"
| "serve ext ListImages st = snd (list_images (file_created ext) st)"
| "serve ext (DeleteImage i) st = snd (delete_image i st)"
| "serve ext ReplenisherPass st = replenish_once st"
| "serve ext ReaperTick st = reaper_tick (app_config st) st"
| "serve ext (RunCommand i body) st = snd (exec_command i body st)"
| "serve ext (FileCall i c) st = serve_file i c st"
| "serve ext (CreateMount i q) st = snd (create_mount (base64_encode ext) i q st)"
| "serve ext (DeleteMount i m) st = snd (delete_mount i m st)"
| "serve ext (StartExecStream i q) st = snd (start_exec_stream i q st)"
| "serve ext (StreamEnded i sid stream) st = pump_session (json_value (app_codec st)) (base64_decode ext) i sid stream st"
| "serve ext (OpenPty i query) st = snd (pty_session i query st)"
| "serve ext (PtyEnded i) st = drop_pty_guard i st"
| "serve ext (CreateTunnel i port) st = snd (create_tunnel i port st)"
| "serve ext (DeleteTunnel i tid) st = snd (delete_tunnel i tid st)"
| "serve ext (AttachTunnel i tid) st = snd (tunnel_ws i tid st)"
| "serve ext (PreviewRequest i port tail_path q) st =
     snd (preview_route (header_to_str ext) (uri_is_valid ext) (http_client ext) i port tail_path q st)"

definition serve_all :: "externals \<Rightarrow> api_call list \<Rightarrow> app \<Rightarrow> app" where
  "serve_all ext calls st = fold (serve ext) calls st"

section \<open>Every call refines ownership steps\<close>

lemma on_disk_own: "own_of (snd (on_world (on_disk g) st)) = own_of st"
  by (cases "on_world (on_disk g) st") (simp, erule on_world_own, erule on_ids(3))

lemma on_fs_own: "own_of (snd (on_world (on_fs g) st)) = own_of st"
  by (cases "on_world (on_fs g) st") (simp add: on_world_keeps(1))

lemma store_routes_own:
  "own_of (snd (list_drives created st)) = own_of st" "own_of (snd (delete_drive i st)) = own_of st"
  "own_of (snd (create_image created i p st)) = own_of st" "own_of (snd (list_images created st)) = own_of st"
  "own_of (snd (delete_image i st)) = own_of st"
  using on_disk_own [of "image_register (images st) i p" st] on_fs_own
  by (auto simp: list_drives_def delete_drive_def create_image_def list_images_def delete_image_def Let_def
      dest!: on_world_keeps(1) split: prod.splits sum.splits option.splits)

lemma create_drive_steps: "own_steps N (own_of st) (own_of (snd (create_drive mib st)))"
proof -
  obtain i st1 where u: "app_uuid st = (i, st1)" by (cases "app_uuid st")
  have "own_of (snd (create_drive mib st)) = own_of st1"
    using on_disk_own [of "drive_create (drives st1) i mib" st1] u
    by (auto simp: create_drive_def split: prod.splits sum.splits)
  then show ?thesis using app_uuid_own [OF u] draw [of N "own_of st"] by auto
qed

lemma sandbox_routes_steps:
  assumes "own_inv (own_of st)"
  shows "own_steps UNIV (own_of st) (own_of (snd (stop_sandbox i params st)))"
    "own_steps UNIV (own_of st) (own_of (snd (snapshot_sandbox i st)))"
    "own_steps UNIV (own_of st) (own_of (snd (resume_snapshot i params st)))"
    "own_steps UNIV (own_of st) (own_of (snd (delete_snapshot i st)))"
    "own_steps UNIV (own_of st) (own_of (snd (restore_snapshot_history i st)))"
    "own_steps UNIV (own_of st) (own_of (snd (delete_snapshot_history i st)))"
proof -
  show "own_steps UNIV (own_of st) (own_of (snd (stop_sandbox i params st)))"
    by (auto simp: stop_sandbox_def split: sum.splits prod.splits stop_error.splits intro: stop_sandbox_by_id_steps [OF _ assms])
  show "own_steps UNIV (own_of st) (own_of (snd (snapshot_sandbox i st)))"
    by (auto simp: snapshot_sandbox_def split: sum.splits prod.splits snapshot_stop_error.splits intro: snapshot_and_stop_steps(1) [OF _ assms])
  show "own_steps UNIV (own_of st) (own_of (snd (resume_snapshot i params st)))"
    by (auto simp: resume_snapshot_def split: sum.splits prod.splits intro: resume_steps)
  show "own_steps UNIV (own_of st) (own_of (snd (delete_snapshot i st)))"
    by (auto simp: delete_snapshot_def split: sum.splits prod.splits intro: delete_steps)
  show "own_steps UNIV (own_of st) (own_of (snd (restore_snapshot_history i st)))"
    by (auto simp: restore_snapshot_history_def split: sum.splits prod.splits intro: restore_steps [OF _ assms])
  show "own_steps UNIV (own_of st) (own_of (snd (delete_snapshot_history i st)))"
    by (rule forget_steps)
qed

lemma serve_file_steps: "own_steps N (own_of st) (own_of (serve_file i c st))"
  by (cases c) (simp_all add: file_route_steps)

lemmas guest_route_steps = serve_file_steps exec_steps mount_steps stream_steps pty_steps tunnel_steps preview_steps

lemma serve_steps:
  assumes "own_inv (own_of st)"
  shows "own_steps UNIV (own_of st) (own_of (serve ext call st))"
proof (cases call)
  case (CreateSandbox body)
  then show ?thesis using create_sandbox_steps [OF prod.collapse [symmetric] assms, where body = body] by simp
next
  case (GetOrCreateSandbox q)
  then show ?thesis using get_or_create_steps [OF prod.collapse [symmetric] assms, where q = q] by simp
next
  case (ForkSnapshot i)
  then show ?thesis using fork_steps [OF prod.collapse [symmetric] assms, where sid = i] by simp
next
  case (CreatePool q)
  then show ?thesis using pool_route_steps(1) [OF prod.collapse [symmetric], where req = q and st = st] by simp
next
  case (DeletePool i)
  then show ?thesis using pool_route_steps(2) [OF prod.collapse [symmetric], where i = i and st = st] by simp
qed (use assms in \<open>simp_all add: sandbox_routes_steps store_routes_own create_drive_steps guest_route_steps replenish_once_steps reaper_tick_steps\<close>)

text \<open>The daemon, call by call, is simulated by the ownership steps.\<close>

definition serves :: "externals \<Rightarrow> app \<Rightarrow> app \<Rightarrow> bool" where
  "serves ext st st' \<longleftrightarrow> (\<exists>call. st' = serve ext call st)"

interpretation daemon: simulation "own_step UNIV" own_inv "serves ext" own_of
  by unfold_locales (auto simp: serves_def own_steps_def [symmetric] intro: own_step_inv serve_steps)

interpretation daemon_drives: simulation "own_step UNIV" drives_inv "serves ext" own_of
  by unfold_locales (auto simp: serves_def own_steps_def [symmetric] drives_inv_def intro: own_step_drives serve_steps)

lemma serve_all_steps: "own_inv (own_of st) \<Longrightarrow> own_steps UNIV (own_of st) (own_of (serve_all ext calls st))"
  unfolding own_steps_def serve_all_def by (rule daemon.fold_simulates) (auto simp: serves_def)

section \<open>The state after startup\<close>

definition found_ok :: "snapshot hash_map \<Rightarrow> network_manager \<Rightarrow> bool" where
  "found_ok found net \<longleftrightarrow>
     hm_wf found \<and> distinct (free_taps net)
     \<and> (\<forall>i s. hm_get i found = Some s \<longrightarrow> sn_id s = i \<and> forked_into s = None \<and> lease_tap (sn_network s) \<notin> set (free_taps net))"

lemma load_meta_id: "load_meta cdc of_json mid dir i f = (Some m, f') \<Longrightarrow> mid m = i"
  by (auto simp: load_meta_def Let_def split: if_splits prod.splits sum.splits option.splits)

lemma load_one_found:
  assumes "load_one cdc dir i (net, f) = (r, net1, f1)" "distinct (free_taps net)"
  shows "distinct (free_taps net1) \<and> set (free_taps net1) \<subseteq> set (free_taps net)
    \<and> (\<forall>s. r = Some s \<longrightarrow> sn_id s = i \<and> forked_into s = None \<and> lease_tap (sn_network s) \<notin> set (free_taps net1))"
proof (cases "load_meta cdc snapshot_meta_of_json sm_id dir i f")
  case (Pair m g)
  show ?thesis
  proof (cases m)
    case (Some x)
    obtain l b1 b2 n where v: "reserve net (sm_network x) (sm_host_octet x) = ((l, b1, b2), n)"
      by (metis prod.collapse)
    note R = reserve_net [OF v]
    have "sm_id x = i" using load_meta_id Pair Some by metis
    with assms Pair Some v R(1,2) R(4) [OF assms(2)] show ?thesis
      by (auto simp: load_one_def snapshot_of_meta_def lease_tap_def)
  qed (use assms Pair in \<open>simp add: load_one_def\<close>)
qed

lemma scan_entries_found:
  "scan_entries (load_one cdc) root es (found, net, f) = (found', net', f') \<Longrightarrow> found_ok found net \<Longrightarrow> found_ok found' net'"
proof (induction "load_one cdc" root es "(found, net, f)" arbitrary: found net f rule: scan_entries.induct)
  case (3 root i es found net f)
  show ?case
  proof (cases "is_dir (path_join root i) f")
    case True
    obtain r net1 f1 where l: "load_one cdc (path_join root i) i (net, f) = (r, net1, f1)"
      by (cases "load_one cdc (path_join root i) i (net, f)") auto
    have "distinct (free_taps net)" using 3(5) by (simp add: found_ok_def)
    note L = load_one_found [OF l this]
    show ?thesis
    proof (cases r)
      case None
      have "found_ok found net1" using 3(5) L by (auto simp: found_ok_def)
      with 3 True l None show ?thesis by simp
    next
      case (Some s)
      have "found_ok (hm_insert i s found) net1" using 3(5) L Some by (auto simp: found_ok_def split: if_splits)
      with 3 True l Some show ?thesis by simp
    qed
  qed (use 3 in simp)
qed simp_all

lemma scan_root_found: "scan_root cdc root (found, net, f) = (found', net', f') \<Longrightarrow> found_ok found net \<Longrightarrow> found_ok found' net'"
  by (auto simp: scan_root_def split: prod.splits sum.splits dest: scan_entries_found)

lemma reconcile_found:
  assumes "reconcile cdc root net f = (found, net', f')" "distinct (free_taps net)"
  shows "found_ok found net'"
proof -
  obtain found1 net1 f1 where s: "scan_root cdc snapshots_root ([], net, f) = (found1, net1, f1)"
    by (cases "scan_root cdc snapshots_root ([], net, f)")
  have "found_ok [] net" using assms(2) by (simp add: found_ok_def)
  from scan_root_found [OF s this] assms(1) s show ?thesis
    by (auto simp: reconcile_def intro: scan_root_found)
qed

lemma distinct_tap_names: "distinct (tap_names c)"
  by (auto simp: tap_names_def distinct_map inj_on_def dest: show_nat_inject)

text \<open>
  A start whose ids are fresh (\<^verbatim>\<open>Uuid::new_v4\<close> repeats no id and none on disk) on a disk where
  no two snapshots share a tap device or a name.
\<close>

definition sound_start :: "environment \<Rightarrow> json_codec \<Rightarrow> history_store \<Rightarrow> world \<Rightarrow> app \<Rightarrow> bool" where
  "sound_start env cdc hist w st \<longleftrightarrow>
     start_daemon env cdc hist w = Inr st \<and> inj (w_uuid w) \<and> (\<forall>n. hm_get (w_uuid w n) (snapshots st) = None)
     \<and> at_most_once (hm_sum snapshot_taps (snapshots st)) \<and> at_most_once (hm_sum snapshot_name (snapshots st))"

lemma start_daemon_state:
  assumes "start_daemon env cdc hist w = Inr st"
  shows "sandboxes st = [] \<and> app_pools st = [] \<and> found_ok (snapshots st) (network st) \<and> w_uuid (wld st) = w_uuid w"
proof -
  from assms obtain c where c: "from_env env = Inr c" by (auto simp: start_daemon_def split: sum.splits)
  from assms c obtain net w1 where n: "prepare_network c w = (Inr net, w1)"
    by (auto simp: start_daemon_def split: sum.splits prod.splits)
  from assms c n obtain drs w2 where d: "on_fs (drive_store_new (drives_dir c)) w1 = (Inr drs, w2)"
    by (auto simp: start_daemon_def split: sum.splits prod.splits)
  from assms c n d obtain imgs w3 where i: "on_fs (image_store_new (images_dir c)) w2 = (Inr imgs, w3)"
    by (auto simp: start_daemon_def split: sum.splits prod.splits)
  obtain snaps net1 f4 where r: "reconcile cdc (archive_dir c) net (w_fs w3) = (snaps, net1, f4)"
    by (cases "reconcile cdc (archive_dir c) net (w_fs w3)") auto
  obtain retired f5 where rr: "reconcile_retired cdc f4 = (retired, f5)" by (cases "reconcile_retired cdc f4")
  let ?w5 = "w3\<lparr>w_fs := f5\<rparr>"
  from assms c n d i r rr obtain k hist1 where h: "mark_unended_as_orphaned_on_startup hist (system_now ?w5) = (Inr k, hist1)"
    by (auto simp: start_daemon_def Let_def split: sum.splits prod.splits)
  from assms c n d i r rr h obtain u w6 where j: "check_jailer c ?w5 = (Inr u, w6)"
    by (auto simp: start_daemon_def Let_def split: sum.splits prod.splits)
  from assms c n d i r rr h j have st: "st = app_new c cdc net1 drs imgs snaps retired hist1 w6"
    by (simp add: start_daemon_def Let_def)
  have "free_taps net = tap_names c" "ids_of w1 = ids_of w"
    using n by (auto simp: prepare_network_def Let_def network_new_def split: prod.splits sum.splits option.splits dest!: on_ids(2))
  moreover have "ids_of w6 = ids_of ?w5"
    using j by (auto simp: check_jailer_def split: prod.splits sum.splits option.splits if_splits dest: on_ids(1))
  ultimately show ?thesis
    using reconcile_found [OF r] distinct_tap_names on_ids(1) [OF d] on_ids(1) [OF i]
    by (simp add: st app_new_def ids_of_def)
qed

lemma hm_sum_empty [simp]: "hm_sum g [] = {#}"
  by (simp add: hm_sum_def)

lemma sound_start_inv:
  assumes "sound_start env cdc hist w st"
  shows "own_inv (own_of st)"
proof -
  note S = start_daemon_state [of env cdc hist w st]
  have s: "sandboxes st = []" "found_ok (snapshots st) (network st)" "w_uuid (wld st) = w_uuid w"
    using S assms by (auto simp: sound_start_def)
  have wf: "hm_wf (snapshots st)" using s(2) by (simp add: found_ok_def)
  have "at_most_once (mset (free_taps (network st)) + hm_sum snapshot_taps (snapshots st))"
    unfolding at_most_once_def
  proof
    fix x
    have "count (mset (free_taps (network st))) x \<le> 1" using s(2) by (simp add: found_ok_def distinct_count_atmost_1)
    moreover have "count (hm_sum snapshot_taps (snapshots st)) x \<le> 1" using assms by (simp add: sound_start_def at_most_once_def)
    moreover have "x \<notin># hm_sum snapshot_taps (snapshots st)" if "x \<in> set (free_taps (network st))"
      using that s(2) hm_values_get [OF wf] by (auto simp: in_hm_sum [OF wf] snapshot_taps_def found_ok_def)
    ultimately show "count (mset (free_taps (network st)) + hm_sum snapshot_taps (snapshots st)) x \<le> 1"
      by (cases "x \<in> set (free_taps (network st))") (simp_all add: not_in_iff count_mset_0_iff [THEN iffD2])
  qed
  with s wf assms show ?thesis
    by (auto simp: own_inv_def all_taps_def held_taps_def held_names_def forks_locked_def ids_fresh_def filed_def
        locks_live_def sound_start_def ids_of_def found_ok_def)
qed

lemma daemon_drives_inv:
  assumes "sound_start env cdc hist w st" "drives_shared_ok (own_of st)"
  shows "drives_inv (own_of (serve_all ext calls st))"
proof -
  have "sandboxes st = []" using assms(1) start_daemon_state by (auto simp: sound_start_def)
  then have "drives_inv (own_of st)"
    using sound_start_inv [OF assms(1)] assms(2) by (simp add: drives_inv_def fork_drives_ok_def)
  with daemon_drives.impl.fold_inv [of ext "serve ext" st calls] show ?thesis by (auto simp: serves_def serve_all_def)
qed

lemma daemon_inv: "sound_start env cdc hist w st \<Longrightarrow> own_inv (own_of (serve_all ext calls st))"
  unfolding serve_all_def by (rule daemon.impl.fold_inv) (auto simp: serves_def sound_start_inv)

section \<open>A start that succeeds\<close>

text \<open>A disk with directories only, where no system call fails, and a host whose programs all succeed.\<close>

definition bare_disk :: "fs \<Rightarrow> bool" where
  "bare_disk f \<longleftrightarrow> (\<forall>q d l. hm_get q (fs_nodes f) \<noteq> Some (FileNode d l)) \<and> fs_faults f = (\<lambda>_ _. None)"

lemma bare_create_dir_all: "bare_disk f \<Longrightarrow> \<exists>f'. create_dir_all p f = (Inr (), f') \<and> bare_disk f'"
proof -
  assume f: "bare_disk f"
  have keep: "\<forall>q d l. hm_get q (fold (\<lambda>q ns. hm_insert q DirNode ns) qs ns) \<noteq> Some (FileNode d l)"
    if "\<forall>q d l. hm_get q ns \<noteq> Some (FileNode d l)" for qs ns
    using that by (induction qs arbitrary: ns) auto
  have "\<not> list_ex (\<lambda>q. case hm_get q (fs_nodes f) of Some (FileNode _ _) \<Rightarrow> True | _ \<Rightarrow> False) qs" for qs
    using f by (auto simp: bare_disk_def list_ex_iff split: option.splits node.splits)
  with f keep [of "fs_nodes f"] show ?thesis
    by (simp add: create_dir_all_def fs_try_def bare_disk_def Let_def)
qed

lemma bare_load_one: "bare_disk f \<Longrightarrow> load_one cdc dir i (net, f) = (None, net, f)"
  by (auto simp: load_one_def load_meta_def dir_complete_def is_file_def node_at_def bare_disk_def Let_def split: option.splits node.splits if_splits)

lemma scan_entries_none: "(\<And>dir i. load dir i (u, f) = (None, u, f)) \<Longrightarrow> scan_entries load root es (found, u, f) = (found, u, f)"
proof (induction es)
  case (Cons x es)
  then show ?case by (cases x) (simp_all add: Let_def)
qed simp

lemma bare_read_dir: "bare_disk f \<Longrightarrow> read_dir root f = (r, f1) \<Longrightarrow> bare_disk f1"
  by (auto simp: read_dir_def fs_try_def bare_disk_def split: option.splits if_splits)

lemma bare_scan_root: "bare_disk f \<Longrightarrow> \<exists>f'. scan_root cdc root (found, net, f) = (found, net, f') \<and> bare_disk f'"
proof -
  assume f: "bare_disk f"
  obtain r f1 where r: "read_dir root f = (r, f1)" by (cases "read_dir root f")
  with f have "bare_disk f1" by (rule bare_read_dir)
  with r show ?thesis by (cases r) (simp_all add: scan_root_def scan_entries_none bare_load_one)
qed

lemma bare_reconcile: "bare_disk f \<Longrightarrow> \<exists>f'. reconcile cdc root net f = ([], net, f') \<and> bare_disk f'"
  using bare_scan_root [of f cdc snapshots_root "[]" net] bare_scan_root [of _ cdc root "[]" net]
  by (auto simp: reconcile_def)

lemma bare_reconcile_retired: "bare_disk f \<Longrightarrow> \<exists>f'. reconcile_retired cdc f = ([], f')"
proof -
  assume f: "bare_disk f"
  obtain r f1 where r: "read_dir retired_root f = (r, f1)" by (cases "read_dir retired_root f")
  with f have "bare_disk f1" by (rule bare_read_dir)
  then have "retired_load_one cdc dir i f1 = (None, f1)" for dir i
    by (auto simp: retired_load_one_def load_meta_def dir_complete_def is_file_def node_at_def bare_disk_def Let_def
        split: option.splits node.splits if_splits)
  with r show ?thesis by (cases r) (simp_all add: reconcile_retired_def scan_entries_none)
qed

definition willing :: "sys \<Rightarrow> bool" where
  "willing s \<longleftrightarrow> answer s = answer_ok"

lemma willing_output: "willing s \<Longrightarrow> \<exists>o1 s'. command_output c s = (Inr o1, s') \<and> out_success o1 \<and> willing s'"
  by (simp add: willing_def command_output_def answer_ok_def)

lemma willing_run: "willing s \<Longrightarrow> \<exists>s'. run p args s = (Inr (), s') \<and> willing s'"
  using willing_output [of s "Command p args []"] by (auto simp: run_def)

lemma willing_run_all: "willing s \<Longrightarrow> \<exists>s'. run_all cs s = (Inr (), s') \<and> willing s'"
proof (induction cs arbitrary: s)
  case (Cons c cs)
  obtain p args where c: "c = (p, args)" by (cases c)
  obtain s1 where "run p args s = (Inr (), s1)" "willing s1" using willing_run [OF Cons.prems] by blast
  with Cons.IH [of s1] c show ?case by auto
qed simp

lemma willing_link: "willing s \<Longrightarrow> \<exists>s'. link_exists n s = (Inr True, s') \<and> willing s'"
  using willing_output [of s "Command ''ip'' [''link'', ''show'', n] []"] by (auto simp: link_exists_def)

lemma willing_rules: "willing s \<Longrightarrow> \<exists>s'. ensure_iptables_rules rs s = (Inr (), s') \<and> willing s'"
proof (induction rs arbitrary: s)
  case (Cons r rs)
  obtain s1 where "ensure_iptables_rule r s = (Inr (), s1)" "willing s1"
    using willing_output [OF Cons.prems, of "Command ''iptables'' (iptables_check_args r) []"] by (auto simp: ensure_iptables_rule_def)
  with Cons.IH [of s1] show ?case by auto
qed simp

lemma willing_taps: "willing s \<Longrightarrow> \<exists>s'. missing_taps ts s = (Inr [], s') \<and> willing s'"
proof (induction ts arbitrary: s)
  case (Cons t ts)
  obtain s1 where "link_exists t s = (Inr True, s1)" "willing s1" using willing_link [OF Cons.prems] by blast
  with Cons.IH [of s1] show ?case by auto
qed simp

lemma willing_ready: "willing s \<Longrightarrow> \<exists>s'. ensure_ready m s = (Inr (), s') \<and> willing s'"
proof -
  assume "willing s"
  then obtain s1 where "ensure_bridge m s = (Inr (), s1)" "willing s1"
    using willing_link [of s "bridge_name m"] by (auto simp: ensure_bridge_def)
  moreover obtain s2 where "run_all [(''ip'', [''addr'', ''replace'', show_ipv4 (gateway_ip m) @ ''/'' @ show_nat (unat (prefix_len m)),
      ''dev'', bridge_name m]), (''ip'', [''link'', ''set'', bridge_name m, ''up'']), (''sysctl'', [''-w'', ''net.ipv4.ip_forward=1''])] s1
      = (Inr (), s2)" "willing s2" using willing_run_all [OF calculation(2)] by blast
  moreover obtain s3 where "ensure_iptables_rules (nat_rules m) s2 = (Inr (), s3)" "willing s3" using willing_rules [OF calculation(4)] by blast
  moreover obtain s4 where "missing_taps (free_taps m) s3 = (Inr [], s4)" "willing s4" using willing_taps [OF calculation(6)] by blast
  ultimately show ?thesis by (simp add: ensure_ready_def)
qed

lemma start_succeeds:
  assumes "from_env env = Inr c" "cf_uplink_iface c = Some up" "cf_jailer c = None" "willing (w_sys w)" "bare_disk (w_fs w)"
    "db_fault hist (hist_rows hist) = False" "inj (w_uuid w)"
  shows "\<exists>st. sound_start env cdc hist w st \<and> snapshots st = [] \<and> retired_snapshots st = [] \<and> free_taps (network st) = tap_names c"
proof -
  let ?net = "network_new (cf_bridge_name c) (cf_bridge_gateway c) up (tap_names c)"
  obtain s1 where r: "ensure_ready ?net (w_sys w) = (Inr (), s1)" using willing_ready [OF assms(4)] by blast
  obtain f1 where d: "create_dir_all (drives_dir c) (w_fs w) = (Inr (), f1)" "bare_disk f1" using bare_create_dir_all [OF assms(5)] by blast
  obtain f2 where i: "create_dir_all (images_dir c) f1 = (Inr (), f2)" "bare_disk f2" using bare_create_dir_all [OF d(2)] by blast
  obtain f3 where rc: "reconcile cdc (archive_dir c) ?net f2 = ([], ?net, f3)" "bare_disk f3" using bare_reconcile [OF i(2)] by blast
  obtain f4 where rr: "reconcile_retired cdc f3 = ([], f4)" using bare_reconcile_retired [OF rc(2)] by blast
  have "\<exists>st. start_daemon env cdc hist w = Inr st \<and> snapshots st = [] \<and> retired_snapshots st = [] \<and> free_taps (network st) = tap_names c"
    using assms(1-3,6) r d i rc rr
    by (simp add: start_daemon_def prepare_network_def on_sys_def on_fs_def drive_store_new_def image_store_new_def check_jailer_def
        mark_unended_as_orphaned_on_startup_def Let_def) (simp add: app_new_def network_new_def)
  with assms(7) show ?thesis by (auto simp: sound_start_def at_most_once_def)
qed

definition start_env :: environment where
  "start_env k =
     (if k = ''HOME'' then Some ''/root'' else if k = ''SANDKILN_UPLINK_IFACE'' then Some ''eth0''
      else if k = ''SANDKILN_TAP_POOL_SIZE'' then Some ''2'' else None)"

lemma sample_start_fresh: "\<exists>st. sound_start start_env sample_codec sample_store sample_world st \<and> snapshots st = [] \<and> retired_snapshots st = []"
proof -
  have "is_ok (from_env start_env)"
    by (simp add: from_env_def env_number_def expect_number_def env_or_def env_path_def expand_home_def
        parse_timeout_secs_env_def jailer_config_from_env_def parse_bool_env_def check_suspend_precedes_destroy_def
        parse_unsigned_def parse_ipv4_def parse_octet_def is_digit_def digit_val_def start_env_def)
  then obtain c where c: "from_env start_env = Inr c" by (cases "from_env start_env") auto
  have "cf_jailer c = None"
    using from_env_parts(5) [OF c] by (simp add: jailer_config_from_env_def parse_bool_env_def start_env_def)
  moreover have "cf_uplink_iface c = Some ''eth0''"
    using c by (auto simp: from_env_def and_then_ok start_env_def split: if_splits)
  moreover have "willing (w_sys sample_world)" "bare_disk (w_fs sample_world)" "inj (w_uuid sample_world)"
    by (auto simp: willing_def sample_world_def sample_sys_def bare_disk_def hm_get_def inj_def dest: show_nat_inject)
  moreover have "db_fault sample_store (hist_rows sample_store) = False" by (simp add: sample_store_def)
  ultimately show ?thesis using start_succeeds [OF c] by blast
qed

lemma sample_start: "\<exists>st. sound_start start_env sample_codec sample_store sample_world st"
  using sample_start_fresh by blast

definition no_externals :: externals where
  "no_externals =
     \<lparr>file_created = \<lambda>_. None, base64_encode = \<lambda>s. s, base64_decode = \<lambda>_. None, header_to_str = Some, uri_is_valid = \<lambda>_. True,
      http_client = \<lambda>_. NoAnswer\<rparr>"

definition sample_calls :: "api_call list" where
  "sample_calls =
     [CreateSandbox [], CreateSandbox [], RunCommand ''0'' \<lparr>eb_command = ''ls'', eb_args = [], eb_env = []\<rparr>, SnapshotSandbox ''0'', ForkSnapshot ''2'', StopSandbox ''1'' [], ReplenisherPass,
      ResumeSnapshot ''2'' [], ReaperTick]"

section \<open>Reading the invariant\<close>

lemma at_most_once_holder:
  assumes "at_most_once (A + hm_sum g m)" "hm_wf m" "hm_get i m = Some v" "x \<in># g v"
  shows "x \<notin># A" "hm_get j m = Some u \<Longrightarrow> x \<in># g u \<Longrightarrow> j = i"
proof -
  have c: "count A x + count (g v) x + count (hm_sum g (hm_remove i m)) x \<le> 1"
    using assms(1) hm_sum_remove [OF assms(2,3), of g] by (simp add: at_most_once_def add.assoc)
  moreover have "1 \<le> count (g v) x" using assms(4) by (simp add: Suc_le_eq)
  ultimately have z: "count A x = 0" "count (hm_sum g (hm_remove i m)) x = 0" by linarith+
  then show "x \<notin># A" by (simp add: not_in_iff)
  assume j: "hm_get j m = Some u" "x \<in># g u"
  show "j = i"
  proof (rule ccontr)
    assume "j \<noteq> i"
    with j(1) have "hm_sum g (hm_remove i m) = g u + hm_sum g (hm_remove j (hm_remove i m))"
      using assms(2) by (intro hm_sum_remove) auto
    with z(2) j(2) show False by (simp add: not_in_iff [symmetric])
  qed
qed

lemma at_most_once_distinct: "at_most_once (mset xs) \<Longrightarrow> distinct xs"
proof (induction xs)
  case (Cons x xs)
  have "at_most_once (mset xs)" by (rule at_most_once_sub [OF Cons.prems]) simp
  moreover have "count (mset (x # xs)) x \<le> 1" using Cons.prems unfolding at_most_once_def by blast
  then have "x \<notin># mset xs" by (simp add: not_in_iff)
  ultimately show ?case using Cons.IH by simp
qed simp

lemma in_hm_sumI: "hm_wf m \<Longrightarrow> hm_get i m = Some v \<Longrightarrow> x \<in># g v \<Longrightarrow> x \<in># hm_sum g m"
  using hm_sum_remove [of m i v g] by simp

text \<open>Two maps whose contributions are disjoint: each entry's, within its map and across.\<close>

lemma exclusive_across:
  assumes "at_most_once (hm_sum g m + hm_sum h n)" "hm_wf m" "hm_wf n" "hm_get i m = Some v" "x \<in># g v"
  shows "hm_get j m = Some u \<Longrightarrow> x \<in># g u \<Longrightarrow> j = i" "hm_get k n = Some y \<Longrightarrow> x \<notin># h y"
  using at_most_once_holder [of "hm_sum h n" g m, OF _ assms(2,4,5)] assms(1) in_hm_sumI [OF assms(3), of k y x h]
  by (auto simp: add.commute)

text \<open>No two of the sandboxes and snapshots with a network identity have the same one.\<close>

lemma identities_exclusive:
  assumes inv: "own_inv (own_of st)"
  shows "distinct (free_taps (network st))
    \<and> (\<forall>i s l. hm_get i (sandboxes st) = Some s \<longrightarrow> sb_network s = Some l \<longrightarrow>
         lease_tap l \<notin> set (free_taps (network st))
         \<and> (\<forall>j t m. hm_get j (sandboxes st) = Some t \<longrightarrow> sb_network t = Some m \<longrightarrow> lease_tap m = lease_tap l \<longrightarrow> j = i)
         \<and> (\<forall>j t. hm_get j (snapshots st) = Some t \<longrightarrow> lease_tap (sn_network t) \<noteq> lease_tap l))
    \<and> (\<forall>i s. hm_get i (snapshots st) = Some s \<longrightarrow>
         lease_tap (sn_network s) \<notin> set (free_taps (network st))
         \<and> (\<forall>j t. hm_get j (snapshots st) = Some t \<longrightarrow> lease_tap (sn_network t) = lease_tap (sn_network s) \<longrightarrow> j = i))"
proof -
  let ?F = "mset (free_taps (network st))" and ?A = "hm_sum sandbox_taps (sandboxes st)" and ?B = "hm_sum snapshot_taps (snapshots st)"
  from inv have wf: "hm_wf (sandboxes st)" "hm_wf (snapshots st)" and once: "at_most_once (?F + (?A + ?B))"
    by (simp_all add: own_inv_def all_taps_def held_taps_def)
  have parts: "at_most_once ?F" "at_most_once (?A + ?B)" "at_most_once (?B + ?A)" "at_most_once (?F + ?A)" "at_most_once (?F + ?B)"
    by (rule at_most_once_sub [OF once]; simp add: add.commute)+
  have tap: "x \<in># sandbox_taps s \<longleftrightarrow> (\<exists>l. sb_network s = Some l \<and> lease_tap l = x)" "x \<in># snapshot_taps sn \<longleftrightarrow> lease_tap (sn_network sn) = x"
    for x s sn by (auto simp: sandbox_taps_def snapshot_taps_def split: option.splits)
  have 1: "distinct (free_taps (network st))" by (rule at_most_once_distinct [OF parts(1)])
  have 2: "lease_tap l \<notin> set (free_taps (network st))
         \<and> (\<forall>j t m. hm_get j (sandboxes st) = Some t \<longrightarrow> sb_network t = Some m \<longrightarrow> lease_tap m = lease_tap l \<longrightarrow> j = i)
         \<and> (\<forall>j t. hm_get j (snapshots st) = Some t \<longrightarrow> lease_tap (sn_network t) \<noteq> lease_tap l)"
    if "hm_get i (sandboxes st) = Some s" "sb_network s = Some l" for i s l
  proof -
    have x: "lease_tap l \<in># sandbox_taps s" using that(2) by (simp add: tap)
    note E = exclusive_across [OF parts(2) wf that(1) x, unfolded tap]
    show ?thesis using at_most_once_holder(1) [OF parts(4) wf(1) that(1) x] E by auto
  qed
  have 3: "lease_tap (sn_network s) \<notin> set (free_taps (network st))
         \<and> (\<forall>j t. hm_get j (snapshots st) = Some t \<longrightarrow> lease_tap (sn_network t) = lease_tap (sn_network s) \<longrightarrow> j = i)"
    if "hm_get i (snapshots st) = Some s" for i s
  proof -
    have x: "lease_tap (sn_network s) \<in># snapshot_taps s" by (simp add: tap)
    note E = exclusive_across(1) [OF parts(3) wf(2,1) that x, unfolded tap]
    show ?thesis using at_most_once_holder(1) [OF parts(5) wf(2) that x] E by auto
  qed
  show ?thesis using 1 2 3 by blast
qed

text \<open>
  C1. Network identities are never shared: after any sequence of calls from a sound start, no tap
  device belongs to two live sandboxes, to two held snapshots, or to a sandbox and a snapshot
  (a suspended guest wakes up with the address frozen in its memory), and none of them is in
  the free pool, from which the next sandbox is served.
\<close>

theorem network_identity_exclusive:
  assumes "sound_start env cdc hist w st0" "st = serve_all ext calls st0"
  shows "distinct (free_taps (network st))
    \<and> (\<forall>i s l. hm_get i (sandboxes st) = Some s \<longrightarrow> sb_network s = Some l \<longrightarrow>
         lease_tap l \<notin> set (free_taps (network st))
         \<and> (\<forall>j t m. hm_get j (sandboxes st) = Some t \<longrightarrow> sb_network t = Some m \<longrightarrow> lease_tap m = lease_tap l \<longrightarrow> j = i)
         \<and> (\<forall>j t. hm_get j (snapshots st) = Some t \<longrightarrow> lease_tap (sn_network t) \<noteq> lease_tap l))
    \<and> (\<forall>i s. hm_get i (snapshots st) = Some s \<longrightarrow>
         lease_tap (sn_network s) \<notin> set (free_taps (network st))
         \<and> (\<forall>j t. hm_get j (snapshots st) = Some t \<longrightarrow> lease_tap (sn_network t) = lease_tap (sn_network s) \<longrightarrow> j = i))"
  unfolding assms(2) by (rule identities_exclusive [OF daemon_inv [OF assms(1)]])

theorem network_identity_exclusive_witness:
  "\<exists>st0 st. sound_start start_env sample_codec sample_store sample_world st0 \<and> st = serve_all no_externals sample_calls st0
     \<and> distinct (free_taps (network st))
     \<and> (\<forall>i s l. hm_get i (sandboxes st) = Some s \<longrightarrow> sb_network s = Some l \<longrightarrow> lease_tap l \<notin> set (free_taps (network st)))"
proof -
  obtain st0 where s: "sound_start start_env sample_codec sample_store sample_world st0" using sample_start by blast
  show ?thesis using network_identity_exclusive [OF s refl, of no_externals sample_calls] s by blast
qed

text \<open>
  C2. Names are never ambiguous: after any sequence of calls from a sound start, no two holders of
  a name, live sandboxes that are no forks and held snapshots, carry the same one, and a fork
  carries exactly the name of the snapshot it locks. Creating, claiming from a pool, resuming
  and restoring all keep this.
\<close>

theorem names_exclusive:
  assumes "sound_start env cdc hist w st0" "st = serve_all ext calls st0"
  shows "(\<forall>i s n. hm_get i (sandboxes st) = Some s \<longrightarrow> source_snapshot_id s = None \<longrightarrow> sb_name s = Some n \<longrightarrow>
         (\<forall>j t. hm_get j (sandboxes st) = Some t \<longrightarrow> source_snapshot_id t = None \<longrightarrow> sb_name t = Some n \<longrightarrow> j = i)
         \<and> (\<forall>j t. hm_get j (snapshots st) = Some t \<longrightarrow> sn_name t \<noteq> Some n))
    \<and> (\<forall>i s n. hm_get i (snapshots st) = Some s \<longrightarrow> sn_name s = Some n \<longrightarrow>
         (\<forall>j t. hm_get j (snapshots st) = Some t \<longrightarrow> sn_name t = Some n \<longrightarrow> j = i))
    \<and> (\<forall>i s sid. hm_get i (sandboxes st) = Some s \<longrightarrow> source_snapshot_id s = Some sid \<longrightarrow>
         map_option sn_name (hm_get sid (snapshots st)) = Some (sb_name s))"
proof -
  have inv: "own_inv (own_of st)" unfolding assms(2) by (rule daemon_inv [OF assms(1)])
  let ?A = "hm_sum held_name (sandboxes st)" and ?B = "hm_sum snapshot_name (snapshots st)"
  from inv have wf: "hm_wf (sandboxes st)" "hm_wf (snapshots st)" and once: "at_most_once (?A + ?B)" "at_most_once (?B + ?A)"
    by (simp_all add: own_inv_def held_names_def add.commute)
  have nm: "x \<in># held_name s \<longleftrightarrow> source_snapshot_id s = None \<and> sb_name s = Some x" "x \<in># snapshot_name sn \<longleftrightarrow> sn_name sn = Some x"
    for x s sn by (auto simp: held_name_def snapshot_name_def opt_mset_def split: option.splits)
  have 1: "(\<forall>j t. hm_get j (sandboxes st) = Some t \<longrightarrow> source_snapshot_id t = None \<longrightarrow> sb_name t = Some n \<longrightarrow> j = i)
         \<and> (\<forall>j t. hm_get j (snapshots st) = Some t \<longrightarrow> sn_name t \<noteq> Some n)"
    if "hm_get i (sandboxes st) = Some s" "source_snapshot_id s = None" "sb_name s = Some n" for i s n
  proof -
    have "n \<in># held_name s" using that(2,3) by (simp add: nm)
    note E = exclusive_across [OF once(1) wf that(1) this, unfolded nm]
    show ?thesis using E by auto
  qed
  have 2: "\<forall>j t. hm_get j (snapshots st) = Some t \<longrightarrow> sn_name t = Some n \<longrightarrow> j = i"
    if "hm_get i (snapshots st) = Some s" "sn_name s = Some n" for i s n
  proof -
    have "n \<in># snapshot_name s" using that(2) by (simp add: nm)
    note E = exclusive_across(1) [OF once(2) wf(2,1) that(1) this, unfolded nm]
    show ?thesis using E by auto
  qed
  have 3: "map_option sn_name (hm_get sid (snapshots st)) = Some (sb_name s)"
    if "hm_get i (sandboxes st) = Some s" "source_snapshot_id s = Some sid" for i s sid
    using own_inv_forks [OF inv that(1)] that(2) by (auto simp: fork_locked_def)
  show ?thesis using 1 2 3 by blast
qed

theorem names_exclusive_witness:
  "\<exists>st0 st. sound_start start_env sample_codec sample_store sample_world st0 \<and> st = serve_all no_externals sample_calls st0
     \<and> (\<forall>i s n. hm_get i (sandboxes st) = Some s \<longrightarrow> source_snapshot_id s = None \<longrightarrow> sb_name s = Some n \<longrightarrow>
         (\<forall>j t. hm_get j (snapshots st) = Some t \<longrightarrow> sn_name t \<noteq> Some n))"
proof -
  obtain st0 where s: "sound_start start_env sample_codec sample_store sample_world st0" using sample_start by blast
  note N = conjunct1 [OF names_exclusive [OF s refl, of no_externals sample_calls]]
  show ?thesis
  proof (intro exI conjI allI impI)
    fix i x n j t
    assume x: "hm_get i (sandboxes (serve_all no_externals sample_calls st0)) = Some x" "source_snapshot_id x = None" "sb_name x = Some n"
      and t: "hm_get j (snapshots (serve_all no_externals sample_calls st0)) = Some t"
    from N [rule_format, OF x] t show "sn_name t \<noteq> Some n" by simp
  qed (rule s refl)+
qed

text \<open>
  C4. Fork locks are exact: after any sequence of calls from a sound start, a live sandbox is a
  fork of a snapshot iff that snapshot is held and locked by exactly it, forks hold no lease and
  every other sandbox holds one, so that stopping one with a snapshot never hits the
  \<^verbatim>\<open>expect\<close> on its lease; no lock outlives its fork; and while the lock is there, resuming,
  deleting, archiving and forking the snapshot are refused.
\<close>

theorem fork_locks_exact:
  assumes "sound_start env cdc hist w st0" "st = serve_all ext calls st0"
  shows "(\<forall>i s. hm_get i (sandboxes st) = Some s \<longrightarrow>
         (case source_snapshot_id s of
            None \<Rightarrow> sb_network s \<noteq> None
          | Some sid \<Rightarrow> sb_network s = None \<and> map_option forked_into (hm_get sid (snapshots st)) = Some (Some i)))
    \<and> (\<forall>i m. fst (snapshot_and_stop i st) \<noteq> Inl (SnapPanic m))
    \<and> (\<forall>sid sn i. hm_get sid (snapshots st) = Some sn \<longrightarrow> forked_into sn = Some i \<longrightarrow>
         (\<exists>s. hm_get i (sandboxes st) = Some s \<and> source_snapshot_id s = Some sid)
         \<and> (\<forall>retain. \<exists>m. resume_snapshot_by_id sid retain st = (Inl (Conflict m), st))
         \<and> (\<exists>m. delete_snapshot_by_id sid st = (Inl (Conflict m), st))
         \<and> (\<forall>root. archive_snapshot_by_id sid root st = (Inl ArchiveForked, st))
         \<and> (\<exists>m. fst (fork_snapshot sid st) = Inl (Conflict m)))"
proof -
  have inv: "own_inv (own_of st)" unfolding assms(2) by (rule daemon_inv [OF assms(1)])
  have 1: "case source_snapshot_id s of None \<Rightarrow> sb_network s \<noteq> None
          | Some sid \<Rightarrow> sb_network s = None \<and> map_option forked_into (hm_get sid (snapshots st)) = Some (Some i)"
    if "hm_get i (sandboxes st) = Some s" for i s
    using own_inv_forks [OF inv that] by (auto simp: fork_locked_def split: option.splits)
  have 2: "fst (snapshot_and_stop i st) \<noteq> Inl (SnapPanic m)" for i m
    by (rule snapshot_and_stop_steps(2) [OF prod.collapse [symmetric] inv])
  have 3: "\<exists>s. hm_get i (sandboxes st) = Some s \<and> source_snapshot_id s = Some sid"
    if "hm_get sid (snapshots st) = Some sn" "forked_into sn = Some i" for sid sn i
    using inv that by (simp add: own_inv_def locks_live_def)
  have 4: "(\<forall>retain. \<exists>m. resume_snapshot_by_id sid retain st = (Inl (Conflict m), st))
      \<and> (\<exists>m. delete_snapshot_by_id sid st = (Inl (Conflict m), st))
      \<and> (\<forall>root. archive_snapshot_by_id sid root st = (Inl ArchiveForked, st))
      \<and> (\<exists>m. fst (fork_snapshot sid st) = Inl (Conflict m))"
    if "hm_get sid (snapshots st) = Some sn" "forked_into sn = Some i" for sid sn i
  proof -
    have "snapshots (snd (app_uuid st)) = snapshots st" by (simp add: app_uuid_def on_world_def new_uuid_def)
    then show ?thesis
      using that by (auto simp: resume_snapshot_by_id_def delete_snapshot_by_id_def archive_snapshot_by_id_def fork_snapshot_def
          check_no_live_fork_def Let_def split: prod.splits)
  qed
  show ?thesis using 1 2 3 4 by blast
qed

theorem fork_locks_exact_witness:
  "\<exists>st0 st. sound_start start_env sample_codec sample_store sample_world st0 \<and> st = serve_all no_externals sample_calls st0
     \<and> (\<forall>i m. fst (snapshot_and_stop i st) \<noteq> Inl (SnapPanic m))"
proof -
  obtain st0 where s: "sound_start start_env sample_codec sample_store sample_world st0" using sample_start by blast
  show ?thesis using fork_locks_exact [OF s refl, of no_externals sample_calls] s by blast
qed

text \<open>
  Holders with different network identities share a drive read-only only; a fork counts under
  the identity of its snapshot.
\<close>

definition drives_disjoint :: "attached_drive list \<Rightarrow> attached_drive list \<Rightarrow> bool" where
  "drives_disjoint ds es \<longleftrightarrow>
     (\<forall>d \<in> set ds. \<forall>e \<in> set es. ad_drive_id d = ad_drive_id e \<longrightarrow> ad_read_only d \<and> ad_read_only e)"

lemma drives_apart:
  assumes "drives_shared_ok a" "(t, ds) \<in> drive_holds a" "(u, es) \<in> drive_holds a" "t \<noteq> u"
  shows "drives_disjoint ds es"
proof -
  from assms have "distinct (map ad_drive_id ds)" "distinct (map ad_drive_id es)" and s: "read_only_shared ds es"
    unfolding drives_shared_ok_def by blast+
  then show ?thesis
    unfolding drives_disjoint_def read_only_shared_def by (metis attached_mode_in)
qed

text \<open>The identity a live sandbox runs with.\<close>

lemma runs_as:
  assumes "drives_inv (own_of st)" "hm_get i (sandboxes st) = Some s"
  obtains (leased) l where "sb_network s = Some l" "source_snapshot_id s = None" "(lease_tap l, sb_attached_drives s) \<in> drive_holds (own_of st)"
  | (fork) sid sn where "source_snapshot_id s = Some sid" "hm_get sid (snapshots st) = Some sn" "forked_into sn = Some i"
      "(lease_tap (sn_network sn), sb_attached_drives s) \<in> drive_holds (own_of st)"
proof (cases "source_snapshot_id s")
  case None
  with assms own_inv_forks [of st i s] obtain l where "sb_network s = Some l" by (auto simp: drives_inv_def fork_locked_def)
  with None assms(2) show thesis by (intro leased) (auto simp: drive_holds_def)
next
  case (Some sid)
  with assms own_inv_forks [of st i s] obtain sn where sn: "hm_get sid (snapshots st) = Some sn" "forked_into sn = Some i"
    by (auto simp: drives_inv_def fork_locked_def)
  moreover have "sb_attached_drives s = sn_attached_drives sn"
    using assms Some sn(1) by (simp add: drives_inv_def fork_drives_ok_def)
  ultimately show thesis using Some by (intro fork) (auto simp: drive_holds_def)
qed

text \<open>
  C3. A drive never has two writers: after any sequence of calls from a sound start on whose disk
  checkpoints share drives read-only only, no two live sandboxes (forks included), no two held
  snapshots, and no sandbox and snapshot it is not a fork of attach the same drive, unless both
  do so read-only. Creating checks this against every holder, and suspending, resuming, forking,
  restoring, retiring and claiming pass drives on to nobody else.
\<close>

theorem drives_exclusive:
  assumes "sound_start env cdc hist w st0" "drives_shared_ok (own_of st0)" "st = serve_all ext calls st0"
  shows "(\<forall>i s. hm_get i (sandboxes st) = Some s \<longrightarrow>
         (\<forall>j t. hm_get j (sandboxes st) = Some t \<longrightarrow> j \<noteq> i \<longrightarrow> drives_disjoint (sb_attached_drives s) (sb_attached_drives t))
         \<and> (\<forall>j t. hm_get j (snapshots st) = Some t \<longrightarrow> source_snapshot_id s \<noteq> Some j \<longrightarrow>
              drives_disjoint (sb_attached_drives s) (sn_attached_drives t)))
    \<and> (\<forall>i s j t. hm_get i (snapshots st) = Some s \<longrightarrow> hm_get j (snapshots st) = Some t \<longrightarrow> j \<noteq> i \<longrightarrow>
         drives_disjoint (sn_attached_drives s) (sn_attached_drives t))"
proof -
  have inv: "drives_inv (own_of st)" unfolding assms(3) by (rule daemon_drives_inv [OF assms(1,2)])
  then have ok: "drives_shared_ok (own_of st)" and own: "own_inv (own_of st)" by (simp_all add: drives_inv_def)
  have apart: "hm_get i (sandboxes st) = Some s \<Longrightarrow> hm_get j (sandboxes st) = Some t \<Longrightarrow> sb_network s = Some l \<Longrightarrow>
      sb_network t = Some m \<Longrightarrow> lease_tap m = lease_tap l \<Longrightarrow> j = i"
    "hm_get i (sandboxes st) = Some s \<Longrightarrow> hm_get j (snapshots st) = Some sn \<Longrightarrow> sb_network s = Some l \<Longrightarrow> lease_tap (sn_network sn) \<noteq> lease_tap l"
    "hm_get i (snapshots st) = Some sn \<Longrightarrow> hm_get j (snapshots st) = Some sm \<Longrightarrow> lease_tap (sn_network sm) = lease_tap (sn_network sn) \<Longrightarrow> j = i"
    for i j s t l m sn sm using identities_exclusive [OF own] by blast+
  have held: "(lease_tap (sn_network t), sn_attached_drives t) \<in> drive_holds (own_of st)" if "hm_get j (snapshots st) = Some t" for j t
    using that by (auto simp: drive_holds_def)
  have 1: "drives_disjoint (sb_attached_drives s) (sb_attached_drives t)"
    if s: "hm_get i (sandboxes st) = Some s" and t: "hm_get j (sandboxes st) = Some t" and "j \<noteq> i" for i j s t
    by (rule runs_as [OF inv s]; rule runs_as [OF inv t]; rule drives_apart [OF ok]; assumption?)
      (metis apart s t that(3) option.inject)+
  have 2: "drives_disjoint (sb_attached_drives s) (sn_attached_drives t)"
    if s: "hm_get i (sandboxes st) = Some s" and t: "hm_get j (snapshots st) = Some t" and "source_snapshot_id s \<noteq> Some j" for i j s t
    by (rule runs_as [OF inv s]; rule drives_apart [OF ok _ held [OF t]]; assumption?) (metis apart s t that(3) option.inject)+
  have 3: "drives_disjoint (sn_attached_drives s) (sn_attached_drives t)"
    if "hm_get i (snapshots st) = Some s" "hm_get j (snapshots st) = Some t" "j \<noteq> i" for i j s t
    by (rule drives_apart [OF ok held [OF that(1)] held [OF that(2)]]) (use apart(3) that in metis)
  show ?thesis using 1 2 3 by blast
qed

theorem drives_exclusive_witness:
  "\<exists>st0 st. sound_start start_env sample_codec sample_store sample_world st0 \<and> st = serve_all no_externals sample_calls st0
     \<and> (\<forall>i s j t. hm_get i (sandboxes st) = Some s \<longrightarrow> hm_get j (sandboxes st) = Some t \<longrightarrow> j \<noteq> i \<longrightarrow>
          drives_disjoint (sb_attached_drives s) (sb_attached_drives t))"
proof -
  obtain st0 where s: "sound_start start_env sample_codec sample_store sample_world st0" and e: "snapshots st0 = []" "retired_snapshots st0 = []"
    using sample_start_fresh by blast
  have "sandboxes st0 = []" using s start_daemon_state by (auto simp: sound_start_def)
  with e have "drives_shared_ok (own_of st0)" by (simp add: drives_shared_ok_def drive_holds_def)
  from drives_exclusive [OF s this refl, of no_externals sample_calls] s show ?thesis by blast
qed

text \<open>
  C23. The maps stay well-formed: after any sequence of calls from a sound start, every live
  sandbox and held snapshot is filed exactly once and under its own id, and no id that has not
  been drawn yet is in use.
\<close>

theorem records_filed_once:
  assumes "sound_start env cdc hist w st0" "st = serve_all ext calls st0"
  shows "hm_wf (sandboxes st) \<and> hm_wf (snapshots st)
    \<and> (\<forall>s \<in> set (hm_values (sandboxes st)). hm_get (sb_id s) (sandboxes st) = Some s)
    \<and> (\<forall>s \<in> set (hm_values (snapshots st)). hm_get (sn_id s) (snapshots st) = Some s)
    \<and> (\<forall>n \<ge> w_uuid_next (wld st). \<not> hm_contains (w_uuid (wld st) n) (sandboxes st) \<and> \<not> hm_contains (w_uuid (wld st) n) (snapshots st))"
proof -
  have inv: "own_inv (own_of st)" unfolding assms(2) by (rule daemon_inv [OF assms(1)])
  then have wf: "hm_wf (sandboxes st)" "hm_wf (snapshots st)" by (simp_all add: own_inv_def)
  have "hm_get (sb_id s) (sandboxes st) = Some s" if "s \<in> set (hm_values (sandboxes st))" for s
    using hm_values_get [OF wf(1)] that inv by (fastforce simp: own_inv_def filed_def)
  moreover have "hm_get (sn_id s) (snapshots st) = Some s" if "s \<in> set (hm_values (snapshots st))" for s
    using hm_values_get [OF wf(2)] that inv by (fastforce simp: own_inv_def filed_def)
  ultimately show ?thesis
    using inv wf by (simp add: own_inv_def ids_fresh_def ids_of_def hm_contains_iff)
qed

theorem records_filed_once_witness:
  "\<exists>st0 st. sound_start start_env sample_codec sample_store sample_world st0 \<and> st = serve_all no_externals sample_calls st0
     \<and> hm_wf (sandboxes st) \<and> hm_wf (snapshots st)"
proof -
  obtain st0 where s: "sound_start start_env sample_codec sample_store sample_world st0" using sample_start by blast
  show ?thesis using records_filed_once [OF s refl, of no_externals sample_calls] s by blast
qed

text \<open>
  C5. Every call refines the abstract ownership specification: what a request, a replenisher pass or
  a reaper tick does to the sandboxes, snapshots, retired checkpoints, free pools and ids, on every
  path through its handler, is a sequence of the abstract steps (draw, create, claim, touch,
  suspend, retire, resume, fork, restore, rewrite, delete, forget, destroy, shrink), and these
  keep the ownership invariant.
\<close>

theorem calls_refine_ownership:
  assumes "own_inv (own_of st)"
  shows "own_steps UNIV (own_of st) (own_of (serve ext call st)) \<and> own_inv (own_of (serve ext call st))"
  using serve_steps [OF assms] own_steps_inv assms by blast

theorem calls_refine_ownership_witness:
  "\<exists>st. sound_start start_env sample_codec sample_store sample_world st
     \<and> own_steps UNIV (own_of st) (own_of (serve no_externals (CreateSandbox []) st))"
proof -
  obtain st where s: "sound_start start_env sample_codec sample_store sample_world st" using sample_start by blast
  show ?thesis
    by (rule exI [of _ st], rule conjI [OF s],
        rule conjunct1 [OF calls_refine_ownership [OF sound_start_inv [OF s], of no_externals "CreateSandbox []"]])
qed

end
