(* ===== verification/Router.thy ===== *)
theory Router
  imports Daemon
begin

text \<open>
  The routes of \<^verbatim>\<open>main.rs\<close> and of the modules it merges, with the token check each router is wrapped in, and a
  request on its way through them: the route is found, the token is checked, the handler's arguments are taken from the
  request, the handler runs. Axum itself is a parameter: the choice of a route by a function that keeps the documented rule
  (\<open>routes_as_documented\<close>: a literal segment before a parameter before a wildcard), decoding (percent
  escapes, query strings, JSON bodies, the WebSocket handshake) by any function.
\<close>

section \<open>Patterns\<close>

datatype segment = Lit string | Param | Wild

definition parse_segment :: "string \<Rightarrow> segment" where
  "parse_segment s = (case s of
     c # _ \<Rightarrow> if c = CHR '':'' then Param else if c = CHR ''*'' then Wild else Lit s
   | [] \<Rightarrow> Lit [])"

text \<open>A path without its first slash.\<close>

definition path_segments :: "string \<Rightarrow> string list" where
  "path_segments p = split_on CHR ''/'' (tl p)"

definition pattern :: "string \<Rightarrow> segment list" where
  "pattern p = map parse_segment (path_segments p)"

fun join_path :: "string list \<Rightarrow> string" where
  "join_path [] = []"
| "join_path [s] = s"
| "join_path (s # ss) = s @ CHR ''/'' # join_path ss"

text \<open>The captures of a match. A parameter takes one segment that is not empty, a wildcard the rest, which is not empty.\<close>

fun match_path :: "segment list \<Rightarrow> string list \<Rightarrow> string list option" where
  "match_path [] [] = Some []"
| "match_path [Wild] ss = (if ss = [] \<or> ss = [[]] then None else Some [join_path ss])"
| "match_path (Lit l # ps) (s # ss) = (if s = l then match_path ps ss else None)"
| "match_path (Param # ps) (s # ss) = (if s = [] then None else map_option (Cons s) (match_path ps ss))"
| "match_path _ _ = None"

fun segment_rank :: "segment \<Rightarrow> nat" where
  "segment_rank (Lit _) = 0"
| "segment_rank Param = 1"
| "segment_rank Wild = 2"

fun precedes :: "segment list \<Rightarrow> segment list \<Rightarrow> bool" where
  "precedes (p # ps) (q # qs) = (segment_rank p < segment_rank q \<or> (segment_rank p = segment_rank q \<and> precedes ps qs))"
| "precedes _ _ = False"

section \<open>The table\<close>

datatype guard = Unguarded | BearerToken | PreviewToken

datatype endpoint =
    H_healthz | H_metrics
  | H_create_sandbox | H_list_sandboxes | H_sandbox_history | H_get_or_create_sandbox | H_get_sandbox_by_name | H_stop_sandbox
  | H_exec | H_read_file | H_write_file | H_chmod | H_chown | H_mkdir | H_rename | H_copy | H_symlink | H_readlink | H_truncate
  | H_list_dir | H_start_exec_stream | H_list_exec_streams | H_create_mount | H_list_mounts | H_delete_mount
  | H_create_tunnel | H_delete_tunnel | H_pty_session | H_attach_logs | H_tunnel_ws
  | H_create_drive | H_list_drives | H_delete_drive | H_create_image | H_list_images | H_delete_image
  | H_create_pool | H_list_pools | H_delete_pool
  | H_snapshot_sandbox | H_list_snapshots | H_resume_snapshot | H_fork_snapshot | H_delete_snapshot
  | H_list_snapshot_history | H_restore_snapshot_history | H_delete_snapshot_history
  | H_preview_root | H_preview_path

text \<open>A route has the handlers of its methods; \<^verbatim>\<open>any\<close> is no method.\<close>

type_synonym method_router = "(string option \<times> endpoint) list"

definition on_get :: "endpoint \<Rightarrow> method_router" where "on_get h = [(Some ''GET'', h)]"
definition on_post :: "endpoint \<Rightarrow> method_router" where "on_post h = [(Some ''POST'', h)]"
definition on_delete :: "endpoint \<Rightarrow> method_router" where "on_delete h = [(Some ''DELETE'', h)]"
definition on_any :: "endpoint \<Rightarrow> method_router" where "on_any h = [(None, h)]"

definition mounts_router :: "(string \<times> method_router) list" where
  "mounts_router =
    [(''/sandboxes/:id/mounts'', on_post H_create_mount @ on_get H_list_mounts),
     (''/sandboxes/:id/mounts/:mount_id'', on_delete H_delete_mount)]"

definition tunnel_router :: "(string \<times> method_router) list" where
  "tunnel_router =
    [(''/sandboxes/:id/tunnel'', on_post H_create_tunnel),
     (''/sandboxes/:id/tunnel/:tunnel_id'', on_delete H_delete_tunnel)]"

definition tunnel_ws_router :: "(string \<times> method_router) list" where
  "tunnel_ws_router = [(''/sandboxes/:id/tunnel/:tunnel_id/ws'', on_get H_tunnel_ws)]"

definition snapshot_router :: "(string \<times> method_router) list" where
  "snapshot_router =
    [(''/sandboxes/:id/snapshot'', on_post H_snapshot_sandbox),
     (''/snapshots'', on_get H_list_snapshots),
     (''/snapshots/:id/resume'', on_post H_resume_snapshot),
     (''/snapshots/:id/fork'', on_post H_fork_snapshot),
     (''/snapshots/:id'', on_delete H_delete_snapshot)]"

definition snapshot_history_router :: "(string \<times> method_router) list" where
  "snapshot_history_router =
    [(''/snapshots/history'', on_get H_list_snapshot_history),
     (''/snapshots/history/:id/restore'', on_post H_restore_snapshot_history),
     (''/snapshots/history/:id'', on_delete H_delete_snapshot_history)]"

definition sandbox_routes :: "(string \<times> method_router) list" where
  "sandbox_routes =
    [(''/sandboxes'', on_post H_create_sandbox @ on_get H_list_sandboxes),
     (''/sandboxes/history'', on_get H_sandbox_history),
     (''/sandboxes/get-or-create'', on_post H_get_or_create_sandbox),
     (''/sandboxes/by-name/:name'', on_get H_get_sandbox_by_name),
     (''/sandboxes/:id'', on_delete H_stop_sandbox),
     (''/sandboxes/:id/exec'', on_post H_exec),
     (''/sandboxes/:id/read-file'', on_post H_read_file),
     (''/sandboxes/:id/write-file'', on_post H_write_file),
     (''/sandboxes/:id/chmod'', on_post H_chmod),
     (''/sandboxes/:id/chown'', on_post H_chown),
     (''/sandboxes/:id/mkdir'', on_post H_mkdir),
     (''/sandboxes/:id/rename'', on_post H_rename),
     (''/sandboxes/:id/copy'', on_post H_copy),
     (''/sandboxes/:id/symlink'', on_post H_symlink),
     (''/sandboxes/:id/readlink'', on_post H_readlink),
     (''/sandboxes/:id/truncate'', on_post H_truncate),
     (''/sandboxes/:id/list-dir'', on_post H_list_dir),
     (''/sandboxes/:id/exec-stream'', on_post H_start_exec_stream @ on_get H_list_exec_streams)]
    @ mounts_router @ tunnel_router"

definition websocket_routes :: "(string \<times> method_router) list" where
  "websocket_routes =
    [(''/sandboxes/:id/pty'', on_get H_pty_session),
     (''/sandboxes/:id/exec-stream/:session_id/logs'', on_get H_attach_logs)]
    @ tunnel_ws_router"

definition drive_routes :: "(string \<times> method_router) list" where
  "drive_routes = [(''/drives'', on_post H_create_drive @ on_get H_list_drives), (''/drives/:id'', on_delete H_delete_drive)]"

definition image_routes :: "(string \<times> method_router) list" where
  "image_routes = [(''/images'', on_post H_create_image @ on_get H_list_images), (''/images/:id'', on_delete H_delete_image)]"

definition pool_routes :: "(string \<times> method_router) list" where
  "pool_routes = [(''/pools'', on_post H_create_pool @ on_get H_list_pools), (''/pools/:id'', on_delete H_delete_pool)]"

definition snapshot_routes :: "(string \<times> method_router) list" where
  "snapshot_routes = snapshot_router @ snapshot_history_router"

definition preview_routes :: "(string \<times> method_router) list" where
  "preview_routes =
    [(''/sandboxes/:id/preview/:port'', on_any H_preview_root),
     (''/sandboxes/:id/preview/:port/'', on_any H_preview_root),
     (''/sandboxes/:id/preview/:port/*path'', on_any H_preview_path)]"

definition open_routes :: "(string \<times> method_router) list" where
  "open_routes = [(''/healthz'', on_get H_healthz), (''/metrics'', on_get H_metrics)]"

definition route_layer :: "guard \<Rightarrow> (string \<times> method_router) list \<Rightarrow> (segment list \<times> guard \<times> method_router) list" where
  "route_layer g rs = map (\<lambda>(p, m). (pattern p, g, m)) rs"

definition app_routes :: "(segment list \<times> guard \<times> method_router) list" where
  "app_routes =
     route_layer Unguarded open_routes
   @ route_layer BearerToken sandbox_routes
   @ route_layer BearerToken drive_routes
   @ route_layer BearerToken image_routes
   @ route_layer BearerToken pool_routes
   @ route_layer BearerToken snapshot_routes
   @ route_layer PreviewToken preview_routes
   @ route_layer PreviewToken websocket_routes"

section \<open>The choice of a route\<close>

datatype routed = NoRoute | NoMethod | Routed guard endpoint "string list"

text \<open>\<^verbatim>\<open>get\<close> also answers \<^verbatim>\<open>HEAD\<close>.\<close>

definition takes_method :: "string \<Rightarrow> string option \<Rightarrow> bool" where
  "takes_method m v \<longleftrightarrow> (case v of None \<Rightarrow> True | Some w \<Rightarrow> m = w \<or> (m = ''HEAD'' \<and> w = ''GET''))"

definition method_handler :: "string \<Rightarrow> method_router \<Rightarrow> endpoint option" where
  "method_handler m hs = map_option snd (find (\<lambda>h. takes_method m (fst h)) hs)"

text \<open>
  What axum's documentation says of its router: a route is an entry of the table, and of the patterns that match the
  path the one that every other one comes after is taken.
\<close>

definition routes_as_documented :: "(string \<Rightarrow> string \<Rightarrow> routed) \<Rightarrow> bool" where
  "routes_as_documented router \<longleftrightarrow>
     (\<forall>m path p g hs caps. (p, g, hs) \<in> set app_routes \<longrightarrow> match_path p (path_segments path) = Some caps \<longrightarrow>
        (\<forall>(q, y) \<in> set app_routes. match_path q (path_segments path) \<noteq> None \<longrightarrow> (q, y) = (p, g, hs) \<or> (precedes p q \<and> \<not> precedes q p)) \<longrightarrow>
        router m path = (case method_handler m hs of None \<Rightarrow> NoMethod | Some h \<Rightarrow> Routed g h caps))
   \<and> (\<forall>m path g h caps. router m path = Routed g h caps \<longrightarrow> (\<exists>p hs v. (p, g, hs) \<in> set app_routes \<and> (v, h) \<in> set hs))"

lemma documented_choice:
  "routes_as_documented router \<Longrightarrow> (p, g, hs) \<in> set app_routes \<Longrightarrow> match_path p (path_segments path) = Some caps
    \<Longrightarrow> \<forall>(q, y) \<in> set app_routes. match_path q (path_segments path) \<noteq> None \<longrightarrow> (q, y) = (p, g, hs) \<or> (precedes p q \<and> \<not> precedes q p)
    \<Longrightarrow> method_handler m hs = Some h \<Longrightarrow> router m path = Routed g h caps"
  unfolding routes_as_documented_def by (metis (mono_tags) option.simps(5))

section \<open>From a request to a call\<close>

text \<open>What axum and serde make of a request; \<open>None\<close> is a rejection, answered before the handler runs.\<close>

record decoders =
  route_of :: "string \<Rightarrow> string \<Rightarrow> routed"
  path_decode :: "string \<Rightarrow> string option"
  query_decode :: "string option \<Rightarrow> string hash_map option"
  upgrade_decode :: "http_request \<Rightarrow> bool"
  raw_body :: "http_request \<Rightarrow> u8 list option"
  get_or_create_body :: "http_request \<Rightarrow> get_or_create_request option"
  exec_body_of :: "http_request \<Rightarrow> exec_body option"
  file_body :: "endpoint \<Rightarrow> http_request \<Rightarrow> file_call option"
  exec_stream_body :: "http_request \<Rightarrow> start_exec_stream_request option"
  mount_body :: "http_request \<Rightarrow> create_mount_request option"
  tunnel_body :: "http_request \<Rightarrow> u16 option"
  drive_body :: "http_request \<Rightarrow> u64 option"
  image_body :: "http_request \<Rightarrow> (string \<times> string) option"
  pool_body :: "http_request \<Rightarrow> create_pool_request option"

datatype action = Rejected | Reads | Calls api_call

definition with_arg :: "'a option \<Rightarrow> ('a \<Rightarrow> api_call) \<Rightarrow> action" where
  "with_arg x f = (case x of None \<Rightarrow> Rejected | Some a \<Rightarrow> Calls (f a))"

definition first_capture :: "string list \<Rightarrow> string" where
  "first_capture ps = (case ps of [] \<Rightarrow> [] | i # _ \<Rightarrow> i)"

definition second_capture :: "string list \<Rightarrow> string" where
  "second_capture ps = (case ps of _ # j # _ \<Rightarrow> j | _ \<Rightarrow> [])"

definition third_capture :: "string list \<Rightarrow> string" where
  "third_capture ps = (case ps of _ # _ # k # _ \<Rightarrow> k | _ \<Rightarrow> [])"

text \<open>The arguments of each handler: the captures of the path, the query, the body or the upgrade.\<close>

definition action_of :: "decoders \<Rightarrow> endpoint \<Rightarrow> string list \<Rightarrow> http_request \<Rightarrow> action" where
  "action_of dec h ps req =
     (let i = first_capture ps; j = second_capture ps; query = query_decode dec (hr_query req) in
      case h of
        H_create_sandbox \<Rightarrow> with_arg (raw_body dec req) CreateSandbox
      | H_get_or_create_sandbox \<Rightarrow> with_arg (get_or_create_body dec req) GetOrCreateSandbox
      | H_stop_sandbox \<Rightarrow> with_arg query (StopSandbox i)
      | H_exec \<Rightarrow> with_arg (exec_body_of dec req) (RunCommand i)
      | H_start_exec_stream \<Rightarrow> with_arg (exec_stream_body dec req) (StartExecStream i)
      | H_create_mount \<Rightarrow> with_arg (mount_body dec req) (CreateMount i)
      | H_delete_mount \<Rightarrow> Calls (DeleteMount i j)
      | H_create_tunnel \<Rightarrow> with_arg (tunnel_body dec req) (CreateTunnel i)
      | H_delete_tunnel \<Rightarrow> Calls (DeleteTunnel i j)
      | H_pty_session \<Rightarrow> if upgrade_decode dec req then with_arg query (OpenPty i) else Rejected
      | H_attach_logs \<Rightarrow> if upgrade_decode dec req then Reads else Rejected
      | H_tunnel_ws \<Rightarrow> if upgrade_decode dec req then Calls (AttachTunnel i j) else Rejected
      | H_create_drive \<Rightarrow> with_arg (drive_body dec req) CreateDrive
      | H_list_drives \<Rightarrow> Calls ListDrives
      | H_delete_drive \<Rightarrow> Calls (DeleteDrive i)
      | H_create_image \<Rightarrow> with_arg (image_body dec req) (\<lambda>(n, p). CreateImage n p)
      | H_list_images \<Rightarrow> Calls ListImages
      | H_delete_image \<Rightarrow> Calls (DeleteImage i)
      | H_create_pool \<Rightarrow> with_arg (pool_body dec req) CreatePool
      | H_delete_pool \<Rightarrow> Calls (DeletePool i)
      | H_snapshot_sandbox \<Rightarrow> Calls (SnapshotSandbox i)
      | H_resume_snapshot \<Rightarrow> with_arg query (ResumeSnapshot i)
      | H_fork_snapshot \<Rightarrow> Calls (ForkSnapshot i)
      | H_delete_snapshot \<Rightarrow> Calls (DeleteSnapshot i)
      | H_restore_snapshot_history \<Rightarrow> Calls (RestoreCheckpoint i)
      | H_delete_snapshot_history \<Rightarrow> Calls (DeleteCheckpoint i)
      | H_preview_root \<Rightarrow> Calls (PreviewRequest i j [] req)
      | H_preview_path \<Rightarrow> Calls (PreviewRequest i j (third_capture ps) req)
      | H_list_sandboxes \<Rightarrow> if query = None then Rejected else Reads
      | H_sandbox_history \<Rightarrow> if query = None then Rejected else Reads
      | H_list_snapshots \<Rightarrow> if query = None then Rejected else Reads
      | H_list_snapshot_history \<Rightarrow> if query = None then Rejected else Reads
      | H_healthz \<Rightarrow> Reads | H_metrics \<Rightarrow> Reads | H_get_sandbox_by_name \<Rightarrow> Reads
      | H_list_exec_streams \<Rightarrow> Reads | H_list_mounts \<Rightarrow> Reads | H_list_pools \<Rightarrow> Reads
      | _ \<Rightarrow> with_arg (file_body dec h req) (FileCall i))"

text \<open>The token check that wraps the handler.\<close>

definition passes :: "externals \<Rightarrow> guard \<Rightarrow> http_request \<Rightarrow> app \<Rightarrow> bool" where
  "passes ext g req st =
     (case g of
        Unguarded \<Rightarrow> True
      | BearerToken \<Rightarrow> require_bearer_token (header_to_str ext) (hr_headers req) st
      | PreviewToken \<Rightarrow> require_preview_token (header_to_str ext) req st)"

datatype http_reply = NotRouted | MethodNotAllowed | Unauthorized | Unreadable | Ran endpoint

definition http_serve :: "externals \<Rightarrow> decoders \<Rightarrow> string \<Rightarrow> http_request \<Rightarrow> app \<Rightarrow> http_reply \<times> app" where
  "http_serve ext dec path req st =
     (case route_of dec (hr_method req) path of
        NoRoute \<Rightarrow> (NotRouted, st)
      | NoMethod \<Rightarrow> (MethodNotAllowed, st)
      | Routed g h caps \<Rightarrow>
          if \<not> passes ext g req st then (Unauthorized, st)
          else (case those (map (path_decode dec) caps) of
                  None \<Rightarrow> (Unreadable, st)
                | Some ps \<Rightarrow>
                    (case action_of dec h ps req of
                       Rejected \<Rightarrow> (Unreadable, st)
                     | Reads \<Rightarrow> (Ran h, st)
                     | Calls c \<Rightarrow> (Ran h, serve ext c st))))"

section \<open>Every handler is reached\<close>

lemma app_routes_table:
  "app_routes =
    [([Lit ''healthz''], Unguarded, [(Some ''GET'', H_healthz)]),
     ([Lit ''metrics''], Unguarded, [(Some ''GET'', H_metrics)]),
     ([Lit ''sandboxes''], BearerToken, [(Some ''POST'', H_create_sandbox), (Some ''GET'', H_list_sandboxes)]),
     ([Lit ''sandboxes'', Lit ''history''], BearerToken, [(Some ''GET'', H_sandbox_history)]),
     ([Lit ''sandboxes'', Lit ''get-or-create''], BearerToken, [(Some ''POST'', H_get_or_create_sandbox)]),
     ([Lit ''sandboxes'', Lit ''by-name'', Param], BearerToken, [(Some ''GET'', H_get_sandbox_by_name)]),
     ([Lit ''sandboxes'', Param], BearerToken, [(Some ''DELETE'', H_stop_sandbox)]),
     ([Lit ''sandboxes'', Param, Lit ''exec''], BearerToken, [(Some ''POST'', H_exec)]),
     ([Lit ''sandboxes'', Param, Lit ''read-file''], BearerToken, [(Some ''POST'', H_read_file)]),
     ([Lit ''sandboxes'', Param, Lit ''write-file''], BearerToken, [(Some ''POST'', H_write_file)]),
     ([Lit ''sandboxes'', Param, Lit ''chmod''], BearerToken, [(Some ''POST'', H_chmod)]),
     ([Lit ''sandboxes'', Param, Lit ''chown''], BearerToken, [(Some ''POST'', H_chown)]),
     ([Lit ''sandboxes'', Param, Lit ''mkdir''], BearerToken, [(Some ''POST'', H_mkdir)]),
     ([Lit ''sandboxes'', Param, Lit ''rename''], BearerToken, [(Some ''POST'', H_rename)]),
     ([Lit ''sandboxes'', Param, Lit ''copy''], BearerToken, [(Some ''POST'', H_copy)]),
     ([Lit ''sandboxes'', Param, Lit ''symlink''], BearerToken, [(Some ''POST'', H_symlink)]),
     ([Lit ''sandboxes'', Param, Lit ''readlink''], BearerToken, [(Some ''POST'', H_readlink)]),
     ([Lit ''sandboxes'', Param, Lit ''truncate''], BearerToken, [(Some ''POST'', H_truncate)]),
     ([Lit ''sandboxes'', Param, Lit ''list-dir''], BearerToken, [(Some ''POST'', H_list_dir)]),
     ([Lit ''sandboxes'', Param, Lit ''exec-stream''], BearerToken, [(Some ''POST'', H_start_exec_stream), (Some ''GET'', H_list_exec_streams)]),
     ([Lit ''sandboxes'', Param, Lit ''mounts''], BearerToken, [(Some ''POST'', H_create_mount), (Some ''GET'', H_list_mounts)]),
     ([Lit ''sandboxes'', Param, Lit ''mounts'', Param], BearerToken, [(Some ''DELETE'', H_delete_mount)]),
     ([Lit ''sandboxes'', Param, Lit ''tunnel''], BearerToken, [(Some ''POST'', H_create_tunnel)]),
     ([Lit ''sandboxes'', Param, Lit ''tunnel'', Param], BearerToken, [(Some ''DELETE'', H_delete_tunnel)]),
     ([Lit ''drives''], BearerToken, [(Some ''POST'', H_create_drive), (Some ''GET'', H_list_drives)]),
     ([Lit ''drives'', Param], BearerToken, [(Some ''DELETE'', H_delete_drive)]),
     ([Lit ''images''], BearerToken, [(Some ''POST'', H_create_image), (Some ''GET'', H_list_images)]),
     ([Lit ''images'', Param], BearerToken, [(Some ''DELETE'', H_delete_image)]),
     ([Lit ''pools''], BearerToken, [(Some ''POST'', H_create_pool), (Some ''GET'', H_list_pools)]),
     ([Lit ''pools'', Param], BearerToken, [(Some ''DELETE'', H_delete_pool)]),
     ([Lit ''sandboxes'', Param, Lit ''snapshot''], BearerToken, [(Some ''POST'', H_snapshot_sandbox)]),
     ([Lit ''snapshots''], BearerToken, [(Some ''GET'', H_list_snapshots)]),
     ([Lit ''snapshots'', Param, Lit ''resume''], BearerToken, [(Some ''POST'', H_resume_snapshot)]),
     ([Lit ''snapshots'', Param, Lit ''fork''], BearerToken, [(Some ''POST'', H_fork_snapshot)]),
     ([Lit ''snapshots'', Param], BearerToken, [(Some ''DELETE'', H_delete_snapshot)]),
     ([Lit ''snapshots'', Lit ''history''], BearerToken, [(Some ''GET'', H_list_snapshot_history)]),
     ([Lit ''snapshots'', Lit ''history'', Param, Lit ''restore''], BearerToken, [(Some ''POST'', H_restore_snapshot_history)]),
     ([Lit ''snapshots'', Lit ''history'', Param], BearerToken, [(Some ''DELETE'', H_delete_snapshot_history)]),
     ([Lit ''sandboxes'', Param, Lit ''preview'', Param], PreviewToken, [(None, H_preview_root)]),
     ([Lit ''sandboxes'', Param, Lit ''preview'', Param, Lit []], PreviewToken, [(None, H_preview_root)]),
     ([Lit ''sandboxes'', Param, Lit ''preview'', Param, Wild], PreviewToken, [(None, H_preview_path)]),
     ([Lit ''sandboxes'', Param, Lit ''pty''], PreviewToken, [(Some ''GET'', H_pty_session)]),
     ([Lit ''sandboxes'', Param, Lit ''exec-stream'', Param, Lit ''logs''], PreviewToken, [(Some ''GET'', H_attach_logs)]),
     ([Lit ''sandboxes'', Param, Lit ''tunnel'', Param, Lit ''ws''], PreviewToken, [(Some ''GET'', H_tunnel_ws)])]"
  by code_simp

fun holes :: "segment list \<Rightarrow> nat" where
  "holes [] = 0"
| "holes (Lit _ # ps) = holes ps"
| "holes (_ # ps) = Suc (holes ps)"

fun fill_path :: "segment list \<Rightarrow> string list \<Rightarrow> string list" where
  "fill_path [] _ = []"
| "fill_path (Lit l # ps) cs = l # fill_path ps cs"
| "fill_path (Param # ps) (c # cs) = c # fill_path ps cs"
| "fill_path (Wild # ps) (c # cs) = split_on CHR ''/'' c"
| "fill_path _ [] = []"

lemma split_on_not_nil: "split_on c s \<noteq> []"
  by (cases s) (simp_all split: list.split)

lemma split_on_single: "split_on c s = [[]] \<longleftrightarrow> s = []"
  using split_on_not_nil [of c] by (cases s) (auto split: list.split)

lemma split_on_segment: "c \<notin> set a \<Longrightarrow> split_on c (a @ c # s) = a # split_on c s"
  using split_on_not_nil [of c s] by (induction a) (auto split: list.split)

lemma split_on_plain: "c \<notin> set a \<Longrightarrow> split_on c a = [a]"
  by (induction a) auto

lemma split_on_slashless: "c \<notin> \<Union> (set ` set (split_on c s))"
  by (induction s) (auto split: list.splits)

lemma join_split: "join_path (split_on CHR ''/'' s) = s"
proof (induction s)
  case (Cons x s)
  then show ?case using split_on_not_nil [of "CHR ''/''" s] by (cases "split_on CHR ''/'' s" rule: join_path.cases) auto
qed simp

lemma split_join: "ss \<noteq> [] \<Longrightarrow> CHR ''/'' \<notin> \<Union> (set ` set ss) \<Longrightarrow> split_on CHR ''/'' (join_path ss) = ss"
  by (induction ss rule: join_path.induct) (simp_all add: split_on_plain split_on_segment)

definition plain_capture :: "string \<Rightarrow> bool" where
  "plain_capture c \<longleftrightarrow> c \<noteq> [] \<and> c \<noteq> ''history'' \<and> c \<noteq> ''get-or-create'' \<and> c \<noteq> ''by-name''"

text \<open>Whether a pattern may match what fills another one.\<close>

fun clash :: "segment list \<Rightarrow> segment list \<Rightarrow> bool" where
  "clash [] [] = True"
| "clash (Wild # _) qs = (qs \<noteq> [] \<and> qs \<noteq> [Lit []])"
| "clash (_ # _) (Wild # _) = True"
| "clash (Lit l # ps) (Lit k # qs) = (l = k \<and> clash ps qs)"
| "clash (Lit l # ps) (Param # qs) = (l \<noteq> [] \<and> clash ps qs)"
| "clash (Param # ps) (Lit k # qs) = (plain_capture k \<and> clash ps qs)"
| "clash (Param # ps) (Param # qs) = clash ps qs"
| "clash _ _ = False"

fun wild_last :: "segment list \<Rightarrow> bool" where
  "wild_last [] = True"
| "wild_last (Wild # ps) = (ps = [])"
| "wild_last (_ # ps) = wild_last ps"

lemma fill_path_not_nil: "p \<noteq> [] \<Longrightarrow> length cs = holes p \<Longrightarrow> fill_path p cs \<noteq> []"
  by (cases "(p, cs)" rule: fill_path.cases) (auto simp: split_on_not_nil)

lemma match_nil: "match_path q [] = (if q = [] then Some [] else None)"
  by (cases "(q, [] :: string list)" rule: match_path.cases) auto

lemma match_clash:
  "match_path q (fill_path p cs) \<noteq> None \<Longrightarrow> length cs = holes p \<Longrightarrow> list_all plain_capture cs \<Longrightarrow> clash p q"
proof (induction p q arbitrary: cs rule: clash.induct)
  case (2 ps qs)
  then obtain c cs' where cs: "cs = c # cs'" "c \<noteq> []" by (cases cs) (auto simp: plain_capture_def)
  have "qs \<noteq> []" using 2(1) cs split_on_not_nil [of "CHR ''/''" c] by (cases "split_on CHR ''/'' c") auto
  moreover have "qs \<noteq> [Lit []]"
    using 2(1) cs split_on_single [of "CHR ''/''" c] by (cases "split_on CHR ''/'' c" rule: join_path.cases) (auto split: if_splits)
  ultimately show ?case by simp
next
  case (6 ps k qs)
  then show ?case by (cases cs) (auto split: if_splits)
next
  case (7 ps qs)
  then show ?case by (cases cs) (auto split: if_splits)
qed (auto split: if_splits simp: length_Suc_conv match_nil)

lemma match_fill:
  "wild_last p \<Longrightarrow> length cs = holes p \<Longrightarrow> list_all plain_capture cs \<Longrightarrow> match_path p (fill_path p cs) = Some cs"
proof (induction p arbitrary: cs rule: wild_last.induct)
  case (2 ps)
  then obtain c where "cs = [c]" "c \<noteq> []" by (cases cs) (auto simp: plain_capture_def)
  then show ?case using 2(1) by (simp add: split_on_not_nil split_on_single join_split)
qed (auto simp: length_Suc_conv plain_capture_def)

lemma routes_unambiguous:
  "list_all (\<lambda>(p, x). p \<noteq> [] \<and> wild_last p \<and> list_all (\<lambda>(q, y). (p, x) = (q, y) \<or> \<not> clash p q \<or> (precedes p q \<and> \<not> precedes q p)) app_routes) app_routes"
  unfolding app_routes_table by code_simp

lemma routes_methods:
  "list_all (\<lambda>(p, g, hs). length hs = 1 \<or> map fst hs = [Some ''POST'', Some ''GET'']) app_routes"
  unfolding app_routes_table by code_simp

lemma method_handler_found:
  assumes "length hs = 1 \<or> map fst hs = [Some ''POST'', Some ''GET'']" "(v, h) \<in> set hs" "takes_method m v"
  shows "method_handler m hs = Some h"
  using assms by (auto simp: method_handler_def takes_method_def length_Suc_conv map_eq_Cons_conv)

section \<open>A router that keeps the rule\<close>

fun best_match :: "string list \<Rightarrow> (segment list \<times> 'a) list \<Rightarrow> (segment list \<times> string list \<times> 'a) option" where
  "best_match ss [] = None"
| "best_match ss ((p, x) # rs) =
     (case match_path p ss of
        None \<Rightarrow> best_match ss rs
      | Some caps \<Rightarrow>
          (case best_match ss rs of
             None \<Rightarrow> Some (p, caps, x)
           | Some (q, caps', y) \<Rightarrow> if precedes q p then Some (q, caps', y) else Some (p, caps, x)))"

definition find_route :: "string \<Rightarrow> string \<Rightarrow> routed" where
  "find_route m path =
     (case best_match (path_segments path) app_routes of
        None \<Rightarrow> NoRoute
      | Some (_, caps, g, hs) \<Rightarrow> (case method_handler m hs of None \<Rightarrow> NoMethod | Some h \<Rightarrow> Routed g h caps))"

lemma best_match_in: "best_match ss rs = Some (q, c, y) \<Longrightarrow> (q, y) \<in> set rs \<and> match_path q ss = Some c"
  by (induction rs arbitrary: q c y) (auto split: option.splits prod.splits if_splits)

lemma precedes_irrefl: "\<not> precedes p p"
  by (induction p) auto

lemma best_matchI:
  "(p, x) \<in> set rs \<Longrightarrow> match_path p ss = Some caps
    \<Longrightarrow> \<forall>(q, y) \<in> set rs. match_path q ss \<noteq> None \<longrightarrow> (q, y) = (p, x) \<or> (precedes p q \<and> \<not> precedes q p)
    \<Longrightarrow> best_match ss rs = Some (p, caps, x)"
proof (induction rs)
  case (Cons r rs)
  obtain q y where r: "r = (q, y)" by (cases r)
  show ?case
  proof (cases "(q, y) = (p, x)")
    case True
    then show ?thesis
      using Cons.prems(2,3) r precedes_irrefl [of p]
      by (auto split: option.split dest!: best_match_in)
  next
    case False
    then have "best_match ss rs = Some (p, caps, x)" using Cons r by auto
    then show ?thesis using Cons.prems(3) r False by (auto split: option.split)
  qed
qed simp

lemma find_route_documented: "routes_as_documented find_route"
  unfolding routes_as_documented_def
proof (intro conjI allI impI)
  fix m path p g hs caps
  assume "(p, g, hs) \<in> set app_routes" "match_path p (path_segments path) = Some caps"
    "\<forall>(q, y) \<in> set app_routes. match_path q (path_segments path) \<noteq> None \<longrightarrow> (q, y) = (p, g, hs) \<or> (precedes p q \<and> \<not> precedes q p)"
  from best_matchI [OF this] show "find_route m path = (case method_handler m hs of None \<Rightarrow> NoMethod | Some h \<Rightarrow> Routed g h caps)"
    by (simp add: find_route_def)
next
  fix m path g h caps
  assume "find_route m path = Routed g h caps"
  then obtain p hs where b: "best_match (path_segments path) app_routes = Some (p, caps, g, hs)" and m: "method_handler m hs = Some h"
    by (auto simp: find_route_def split: option.splits prod.splits)
  from m obtain v where "(v, h) \<in> set hs" by (auto simp: method_handler_def find_Some_iff in_set_conv_nth) (metis prod.collapse)
  with best_match_in [OF b] show "\<exists>p hs v. (p, g, hs) \<in> set app_routes \<and> (v, h) \<in> set hs" by blast
qed

section \<open>The theorems on the table\<close>

text \<open>
  C31. Every route of the table leads to its handler: fill the parameters and the wildcard of a pattern with
  anything that is not empty and not one of the three words that are routes themselves (\<^verbatim>\<open>history\<close>, \<^verbatim>\<open>get-or-create\<close>,
  \<^verbatim>\<open>by-name\<close>), and the router finds, whatever the other routes are, that handler under its own token check, with
  the values filled in as its captures. So no route hides another one, and the check of a handler cannot be
  evaded by another path that leads to it.
\<close>

theorem every_handler_reached:
  assumes "routes_as_documented router"
    "(p, g, hs) \<in> set app_routes" "(v, h) \<in> set hs" "takes_method m v" "length cs = holes p" "list_all plain_capture cs"
    "\<forall>s \<in> set (fill_path p cs). CHR ''/'' \<notin> set s"
  shows "router m (CHR ''/'' # join_path (fill_path p cs)) = Routed g h cs"
proof -
  let ?path = "CHR ''/'' # join_path (fill_path p cs)"
  have p: "p \<noteq> []" "wild_last p" "\<forall>(q, y) \<in> set app_routes. (p, g, hs) = (q, y) \<or> \<not> clash p q \<or> (precedes p q \<and> \<not> precedes q p)"
    using routes_unambiguous assms(2) by (auto simp: list_all_iff)
  have ss: "path_segments ?path = fill_path p cs"
    using split_join [OF fill_path_not_nil [OF p(1) assms(5)]] assms(7) by (simp add: path_segments_def)
  have others: "\<forall>(q, y) \<in> set app_routes. match_path q (path_segments ?path) \<noteq> None \<longrightarrow> (q, y) = (p, g, hs) \<or> (precedes p q \<and> \<not> precedes q p)"
    unfolding ss using p(3) match_clash [OF _ assms(5,6)] by fast
  have match: "match_path p (path_segments ?path) = Some cs" unfolding ss by (rule match_fill [OF p(2) assms(5,6)])
  have handler: "method_handler m hs = Some h"
    by (rule method_handler_found [OF _ assms(3,4)]) (use routes_methods assms(2) in \<open>auto simp: list_all_iff\<close>)
  show ?thesis by (rule documented_choice [OF assms(1,2) match others handler])
qed

theorem every_handler_reached_witness:
  "find_route ''DELETE'' ''/sandboxes/s1'' = Routed BearerToken H_stop_sandbox [''s1'']"
proof -
  have "([Lit ''sandboxes'', Param], BearerToken, [(Some ''DELETE'', H_stop_sandbox)]) \<in> set app_routes"
    unfolding app_routes_table by simp
  from every_handler_reached [OF find_route_documented this, of "Some ''DELETE''" H_stop_sandbox "''DELETE''" "[''s1'']"]
  show ?thesis by (simp add: takes_method_def plain_capture_def)
qed

section \<open>Nothing happens without the token\<close>

lemma routes_guarded:
  "list_all (\<lambda>(p, g, hs). list_all (\<lambda>(v, h).
     case g of Unguarded \<Rightarrow> h = H_healthz \<or> h = H_metrics | BearerToken \<Rightarrow> True
     | PreviewToken \<Rightarrow> h = H_preview_root \<or> h = H_preview_path \<or> h = H_pty_session \<or> h = H_attach_logs \<or> h = H_tunnel_ws) hs) app_routes"
  unfolding app_routes_table by code_simp

lemma router_guarded:
  assumes "routes_as_documented router" "router m path = Routed g h caps"
  shows "case g of Unguarded \<Rightarrow> h = H_healthz \<or> h = H_metrics | BearerToken \<Rightarrow> True
     | PreviewToken \<Rightarrow> h = H_preview_root \<or> h = H_preview_path \<or> h = H_pty_session \<or> h = H_attach_logs \<or> h = H_tunnel_ws"
proof -
  from assms obtain p hs v where "(p, g, hs) \<in> set app_routes" "(v, h) \<in> set hs" unfolding routes_as_documented_def by blast
  with routes_guarded show ?thesis by (fastforce simp: list_all_iff)
qed

text \<open>
  C6. With a token configured, a request whose \<^verbatim>\<open>Authorization\<close> header is not \<^verbatim>\<open>Bearer\<close> and that token reaches
  the handlers of \<^verbatim>\<open>/healthz\<close> and \<^verbatim>\<open>/metrics\<close> only, and nothing of the daemon changes; the exceptions are the routes a
  browser opens (previews, terminals, logs, tunnels), which also take the token as the first \<^verbatim>\<open>token\<close>
  parameter of the query. This is for every path, method, header and body, for every way to decode them, and for every router that keeps the documented rule.
\<close>

theorem no_effect_without_token:
  assumes "routes_as_documented (route_of dec)" "auth_token (app_config st) = Some t"
    "header_text (header_to_str ext) ''authorization'' (hr_headers req) \<noteq> Some (''Bearer '' @ t)"
    "http_serve ext dec path req st = (reply, st')"
  shows "(\<forall>h. reply = Ran h \<longrightarrow> h \<in> {H_healthz, H_metrics}
        \<or> (h \<in> {H_preview_root, H_preview_path, H_pty_session, H_attach_logs, H_tunnel_ws} \<and> Option.bind (hr_query req) find_token_param = Some t))
    \<and> (st' = st \<or> (\<exists>h. reply = Ran h \<and> h \<in> {H_preview_root, H_preview_path, H_pty_session, H_tunnel_ws}))"
proof (cases "route_of dec (hr_method req) path")
  case (Routed g h caps)
  note G = router_guarded [OF assms(1) Routed]
  have no: "\<not> require_bearer_token (header_to_str ext) (hr_headers req) st"
    using assms(2,3) by (simp add: require_bearer_token_def token_matches_iff)
  have q: "require_preview_token (header_to_str ext) req st \<longleftrightarrow> Option.bind (hr_query req) find_token_param = Some t"
    using assms(2,3) by (simp add: require_preview_token_def preview_token_matches_def token_matches_iff)
  show ?thesis
  proof (cases g)
    case Unguarded
    then have "h = H_healthz \<or> h = H_metrics" using G by simp
    then show ?thesis
      using assms(4) Routed Unguarded by (auto simp: http_serve_def passes_def action_of_def Let_def split: option.splits)
  next
    case BearerToken
    then show ?thesis using assms(4) Routed no by (simp add: http_serve_def passes_def)
  next
    case PreviewToken
    then show ?thesis
      using assms(4) Routed G q by (auto simp: http_serve_def passes_def action_of_def Let_def split: option.splits action.splits if_splits)
  qed
qed (use assms(4) in \<open>simp_all add: http_serve_def\<close>)

definition no_decoders :: decoders where
  "no_decoders =
     \<lparr>route_of = find_route, path_decode = Some, query_decode = \<lambda>_. Some [], upgrade_decode = \<lambda>_. True, raw_body = Some \<circ> hr_body, get_or_create_body = \<lambda>_. None,
      exec_body_of = \<lambda>_. None, file_body = \<lambda>_ _. None, exec_stream_body = \<lambda>_. None, mount_body = \<lambda>_. None, tunnel_body = \<lambda>_. None,
      drive_body = \<lambda>_. None, image_body = \<lambda>_. None, pool_body = \<lambda>_. None\<rparr>"

definition locked_app :: app where
  "locked_app = sample_app\<lparr>app_config := (app_config sample_app)\<lparr>auth_token := Some ''s3''\<rparr>\<rparr>"

theorem no_effect_without_token_witness:
  "\<exists>reply. http_serve no_externals no_decoders ''/sandboxes/s1'' \<lparr>hr_method = ''DELETE'', hr_query = None, hr_headers = [], hr_body = []\<rparr> locked_app
      = (reply, locked_app) \<and> reply \<noteq> Ran H_stop_sandbox"
proof -
  let ?req = "\<lparr>hr_method = ''DELETE'', hr_query = None, hr_headers = [], hr_body = []\<rparr> :: http_request"
  obtain reply st' where r: "http_serve no_externals no_decoders ''/sandboxes/s1'' ?req locked_app = (reply, st')" by fastforce
  have locked: "auth_token (app_config locked_app) = Some ''s3''" by (simp add: locked_app_def)
  have "routes_as_documented (route_of no_decoders)" by (simp add: no_decoders_def find_route_documented)
  from no_effect_without_token [OF this locked _ r] have "(\<forall>h. reply = Ran h \<longrightarrow> h \<in> {H_healthz, H_metrics})
      \<and> (st' = locked_app \<or> (\<exists>h. reply = Ran h \<and> h \<in> {H_preview_root, H_preview_path, H_pty_session, H_tunnel_ws}))"
    by (simp add: header_text_def)
  then show ?thesis using r by auto
qed

text \<open>Whatever requests arrive, what they do to the daemon is a sequence of calls, so what holds of every sequence of calls holds of them.\<close>

lemma http_serve_is_calls: "\<exists>calls. snd (http_serve ext dec path req st) = serve_all ext calls st"
proof -
  have "snd (http_serve ext dec path req st) = serve_all ext [] st \<or> (\<exists>c. snd (http_serve ext dec path req st) = serve_all ext [c] st)"
    by (auto simp: http_serve_def serve_all_def split: routed.split option.split action.split)
  then show ?thesis by blast
qed

theorem requests_are_calls:
  "\<exists>calls. fold (\<lambda>(path, req) st. snd (http_serve ext dec path req st)) reqs st = serve_all ext calls st"
proof (induction reqs arbitrary: st)
  case Nil
  show ?case by (rule exI [of _ "[]"]) (simp add: serve_all_def)
next
  case (Cons r reqs)
  obtain path req where r: "r = (path, req)" by (cases r)
  obtain cs where 1: "snd (http_serve ext dec path req st) = serve_all ext cs st" using http_serve_is_calls by blast
  obtain ds where 2: "fold (\<lambda>(path, req) st. snd (http_serve ext dec path req st)) reqs (serve_all ext cs st) = serve_all ext ds (serve_all ext cs st)"
    using Cons.IH by blast
  show ?case by (rule exI [of _ "cs @ ds"]) (simp add: r 1 2, simp add: serve_all_def)
qed

end
