(* ===== verification/Agent.thy ===== *)
theory Agent
  imports Protocol History
begin

text \<open>
  The agent inside a guest: the request loop (\<^verbatim>\<open>guest-agent/src/main.rs\<close>), the handlers
  (\<^verbatim>\<open>handler.rs\<close>) and the registry of tunnels (\<^verbatim>\<open>tunnel.rs\<close>). The guest's kernel is a parameter: one function per
  system call on a state of its own; an error is its text. Base64, the JSON text and the repair of
  invalid UTF-8 are parameters.
\<close>

section \<open>The guest's system calls\<close>

record metadata =
  md_is_dir :: bool
  md_len :: u64
  md_mode :: u32
  md_modified :: "int option"

text \<open>A directory entry that could be read: its stat and its file type may still fail.\<close>

record dir_item =
  di_name :: "u8 list"
  di_metadata :: "metadata option"
  di_is_symlink :: "bool option"

record 'g guest_os =
  sys_spawn :: "string \<Rightarrow> string list \<Rightarrow> string hash_map \<Rightarrow> 'g \<Rightarrow> (string, u8 list \<times> u8 list \<times> int option) result \<times> 'g"
  sys_read :: "string \<Rightarrow> 'g \<Rightarrow> (string, u8 list) result \<times> 'g"
  sys_write :: "string \<Rightarrow> u8 list \<Rightarrow> 'g \<Rightarrow> (string, unit) result \<times> 'g"
  sys_read_dir :: "string \<Rightarrow> 'g \<Rightarrow> (string, dir_item option list) result \<times> 'g"
  sys_chmod :: "string \<Rightarrow> u32 \<Rightarrow> 'g \<Rightarrow> (string, unit) result \<times> 'g"
  sys_chown :: "string \<Rightarrow> u32 \<Rightarrow> u32 \<Rightarrow> 'g \<Rightarrow> (string, unit) result \<times> 'g"
  sys_create_dir :: "string \<Rightarrow> 'g \<Rightarrow> (string, unit) result \<times> 'g"
  sys_create_dir_all :: "string \<Rightarrow> 'g \<Rightarrow> (string, unit) result \<times> 'g"
  sys_rename :: "string \<Rightarrow> string \<Rightarrow> 'g \<Rightarrow> (string, unit) result \<times> 'g"
  sys_copy :: "string \<Rightarrow> string \<Rightarrow> 'g \<Rightarrow> (string, u64) result \<times> 'g"
  sys_symlink :: "string \<Rightarrow> string \<Rightarrow> 'g \<Rightarrow> (string, unit) result \<times> 'g"
  sys_read_link :: "string \<Rightarrow> 'g \<Rightarrow> (string, u8 list) result \<times> 'g"
  sys_open_write :: "string \<Rightarrow> 'g \<Rightarrow> (string, nat) result \<times> 'g"
  sys_set_len :: "nat \<Rightarrow> u64 \<Rightarrow> 'g \<Rightarrow> (string, unit) result \<times> 'g"
  sys_bind :: "u16 \<Rightarrow> 'g \<Rightarrow> (string, unit) result \<times> 'g"
  sys_poke :: "u16 \<Rightarrow> 'g \<Rightarrow> 'g"

record text_codec =
  utf8_lossy :: "u8 list \<Rightarrow> string"
  b64_encode :: "u8 list \<Rightarrow> string"
  b64_decode :: "string \<Rightarrow> (string, u8 list) result"

record 'g agent_state =
  ag_os :: 'g
  ag_tunnels :: "u16 hash_map"

section \<open>Handlers\<close>

definition on_os :: "('g \<Rightarrow> response \<times> 'g) \<Rightarrow> 'g agent_state \<Rightarrow> response \<times> 'g agent_state" where
  "on_os f a = (case f (ag_os a) of (r, g) \<Rightarrow> (r, a\<lparr>ag_os := g\<rparr>))"

definition respond :: "('a \<Rightarrow> response) \<Rightarrow> (string, 'a) result \<times> 'g \<Rightarrow> response \<times> 'g" where
  "respond f x = (case x of (Inl e, g) \<Rightarrow> (RError e, g) | (Inr v, g) \<Rightarrow> (f v, g))"

definition handle_exec :: "text_codec \<Rightarrow> 'g guest_os \<Rightarrow> string \<Rightarrow> string list \<Rightarrow> string hash_map \<Rightarrow> 'g \<Rightarrow> response \<times> 'g" where
  "handle_exec cdc os command args env g =
     respond (\<lambda>(out, err, code). RExec (utf8_lossy cdc out) (utf8_lossy cdc err) (case code of Some c \<Rightarrow> c | None \<Rightarrow> - 1))
       (sys_spawn os command args env g)"

definition handle_read_file :: "text_codec \<Rightarrow> 'g guest_os \<Rightarrow> string \<Rightarrow> 'g \<Rightarrow> response \<times> 'g" where
  "handle_read_file cdc os path g = respond (\<lambda>bytes. RFile (b64_encode cdc bytes)) (sys_read os path g)"

definition handle_write_file :: "text_codec \<Rightarrow> 'g guest_os \<Rightarrow> string \<Rightarrow> string \<Rightarrow> 'g \<Rightarrow> response \<times> 'g" where
  "handle_write_file cdc os path content_base64 g =
     (case b64_decode cdc content_base64 of
        Inl e \<Rightarrow> (RError e, g)
      | Inr bytes \<Rightarrow> respond (\<lambda>_. ROk) (sys_write os path bytes g))"

definition permission_bits :: "u32 \<Rightarrow> u32" where
  "permission_bits mode = Bit_Operations.and mode 0xFFF"

definition list_entry :: "text_codec \<Rightarrow> dir_item \<Rightarrow> dir_entry" where
  "list_entry cdc e =
     (let symlink = (case di_is_symlink e of Some b \<Rightarrow> b | None \<Rightarrow> False);
          name = utf8_lossy cdc (di_name e) in
      case di_metadata e of
        Some m \<Rightarrow>
          \<lparr>de_name = name, de_is_dir = md_is_dir m, de_is_symlink = symlink, de_size = md_len m, de_mode = permission_bits (md_mode m),
           de_mtime_unix = (case md_modified m of Some t \<Rightarrow> of_int (unix_secs t) | None \<Rightarrow> 0)\<rparr>
      | None \<Rightarrow>
          \<lparr>de_name = name, de_is_dir = False, de_is_symlink = symlink, de_size = 0, de_mode = 0, de_mtime_unix = 0\<rparr>)"

definition handle_list_dir :: "text_codec \<Rightarrow> 'g guest_os \<Rightarrow> string \<Rightarrow> 'g \<Rightarrow> response \<times> 'g" where
  "handle_list_dir cdc os path g = respond (\<lambda>es. RDir (map (list_entry cdc) (List.map_filter id es))) (sys_read_dir os path g)"

text \<open>\<^verbatim>\<open>CString::new\<close> refuses an interior NUL.\<close>

definition handle_chown :: "'g guest_os \<Rightarrow> string \<Rightarrow> u32 \<Rightarrow> u32 \<Rightarrow> 'g \<Rightarrow> response \<times> 'g" where
  "handle_chown os path uid gid g =
     (if CHR 0x00 \<in> set path then (RError ''nul byte found in provided data'', g)
      else respond (\<lambda>_. ROk) (sys_chown os path uid gid g))"

definition handle_mkdir :: "'g guest_os \<Rightarrow> string \<Rightarrow> bool \<Rightarrow> 'g \<Rightarrow> response \<times> 'g" where
  "handle_mkdir os path parents g =
     respond (\<lambda>_. ROk) (if parents then sys_create_dir_all os path g else sys_create_dir os path g)"

definition handle_truncate :: "'g guest_os \<Rightarrow> string \<Rightarrow> u64 \<Rightarrow> 'g \<Rightarrow> response \<times> 'g" where
  "handle_truncate os path len g =
     (case sys_open_write os path g of
        (Inl e, g1) \<Rightarrow> (RError e, g1)
      | (Inr fd, g1) \<Rightarrow> respond (\<lambda>_. ROk) (sys_set_len os fd len g1))"

definition handle_chmod :: "'g guest_os \<Rightarrow> string \<Rightarrow> u32 \<Rightarrow> 'g \<Rightarrow> response \<times> 'g" where
  "handle_chmod os path mode g = respond (\<lambda>_. ROk) (sys_chmod os path mode g)"

definition handle_rename :: "'g guest_os \<Rightarrow> string \<Rightarrow> string \<Rightarrow> 'g \<Rightarrow> response \<times> 'g" where
  "handle_rename os src dst g = respond (\<lambda>_. ROk) (sys_rename os src dst g)"

definition handle_copy :: "'g guest_os \<Rightarrow> string \<Rightarrow> string \<Rightarrow> 'g \<Rightarrow> response \<times> 'g" where
  "handle_copy os src dst g = respond (\<lambda>_. ROk) (sys_copy os src dst g)"

definition handle_symlink :: "'g guest_os \<Rightarrow> string \<Rightarrow> string \<Rightarrow> 'g \<Rightarrow> response \<times> 'g" where
  "handle_symlink os target link_path g = respond (\<lambda>_. ROk) (sys_symlink os target link_path g)"

definition handle_readlink :: "text_codec \<Rightarrow> 'g guest_os \<Rightarrow> string \<Rightarrow> 'g \<Rightarrow> response \<times> 'g" where
  "handle_readlink cdc os path g = respond (\<lambda>t. RLink (utf8_lossy cdc t)) (sys_read_link os path g)"

definition agent_start_tunnel :: "'g guest_os \<Rightarrow> string \<Rightarrow> u16 \<Rightarrow> 'g agent_state \<Rightarrow> response \<times> 'g agent_state" where
  "agent_start_tunnel os tid port a =
     (case sys_bind os port (ag_os a) of
        (Inl e, g) \<Rightarrow> (RError e, a\<lparr>ag_os := g\<rparr>)
      | (Inr _, g) \<Rightarrow> (ROk, a\<lparr>ag_os := g, ag_tunnels := hm_insert tid port (ag_tunnels a)\<rparr>))"

definition agent_stop_tunnel :: "'g guest_os \<Rightarrow> string \<Rightarrow> 'g agent_state \<Rightarrow> response \<times> 'g agent_state" where
  "agent_stop_tunnel os tid a =
     (case hm_get tid (ag_tunnels a) of
        None \<Rightarrow> (ROk, a)
      | Some port \<Rightarrow> (ROk, a\<lparr>ag_os := sys_poke os port (ag_os a), ag_tunnels := hm_remove tid (ag_tunnels a)\<rparr>))"

fun handle :: "text_codec \<Rightarrow> 'g guest_os \<Rightarrow> request \<Rightarrow> 'g agent_state \<Rightarrow> response \<times> 'g agent_state" where
  "handle cdc os (Exec command args env) a = on_os (handle_exec cdc os command args env) a"
| "handle cdc os (ReadFile path) a = on_os (handle_read_file cdc os path) a"
| "handle cdc os (WriteFile path content) a = on_os (handle_write_file cdc os path content) a"
| "handle cdc os (ListDir path) a = on_os (handle_list_dir cdc os path) a"
| "handle cdc os (Chmod path mode) a = on_os (handle_chmod os path mode) a"
| "handle cdc os (Chown path uid gid) a = on_os (handle_chown os path uid gid) a"
| "handle cdc os (Mkdir path parents) a = on_os (handle_mkdir os path parents) a"
| "handle cdc os (Rename src dst) a = on_os (handle_rename os src dst) a"
| "handle cdc os (Copy src dst) a = on_os (handle_copy os src dst) a"
| "handle cdc os (Symlink target link_path) a = on_os (handle_symlink os target link_path) a"
| "handle cdc os (Readlink path) a = on_os (handle_readlink cdc os path) a"
| "handle cdc os (Truncate path len) a = on_os (handle_truncate os path len) a"
| "handle cdc os (StartTunnel tid port) a = agent_start_tunnel os tid port a"
| "handle cdc os (StopTunnel tid) a = agent_stop_tunnel os tid a"

section \<open>The connection loop\<close>

definition agent_reply :: "text_codec \<Rightarrow> 'g guest_os \<Rightarrow> (u8 list \<Rightarrow> json option) \<Rightarrow> u8 list \<Rightarrow> 'g agent_state \<Rightarrow> response \<times> 'g agent_state" where
  "agent_reply cdc os parse raw a =
     (case decode_request parse raw of
        Some req \<Rightarrow> handle cdc os req a
      | None \<Rightarrow> (RError ''bad request'', a))"

text \<open>
  All that one connection gets answered, for the bytes that arrive on it. \<open>accepts\<close> says whether the answers so
  far and the next one can be written.
\<close>

function handle_connection :: "text_codec \<Rightarrow> 'g guest_os \<Rightarrow> (u8 list \<Rightarrow> json option) \<Rightarrow> (json \<Rightarrow> u8 list) \<Rightarrow> (u8 list \<Rightarrow> bool) \<Rightarrow>
    u8 list \<Rightarrow> u8 list \<Rightarrow> 'g agent_state \<Rightarrow> u8 list \<times> 'g agent_state" where
  "handle_connection cdc os parse print accepts stream sent a =
     (case read_message stream of
        Inl _ \<Rightarrow> (sent, a)
      | Inr (raw, rest) \<Rightarrow>
          (case agent_reply cdc os parse raw a of
             (r, a1) \<Rightarrow>
               (let sent1 = sent @ write_message (encode_response print r) in
                if accepts sent1 then handle_connection cdc os parse print accepts rest sent1 a1 else (sent, a1))))"
  by pat_completeness auto
termination
  by (relation "measure (\<lambda>(_, _, _, _, _, stream, _, _). length stream)")
    (auto simp: read_message_def read_exact_def Let_def split: if_splits)

declare handle_connection.simps [simp del]

section \<open>A request is served as if it were called\<close>

fun handle_all :: "text_codec \<Rightarrow> 'g guest_os \<Rightarrow> request list \<Rightarrow> 'g agent_state \<Rightarrow> response list \<times> 'g agent_state" where
  "handle_all cdc os [] a = ([], a)"
| "handle_all cdc os (q # qs) a =
     (case handle cdc os q a of (r, a1) \<Rightarrow> (case handle_all cdc os qs a1 of (rs, a2) \<Rightarrow> (r # rs, a2)))"

text \<open>The client's side: reading the answers off the connection.\<close>

function read_responses :: "(u8 list \<Rightarrow> json option) \<Rightarrow> u8 list \<Rightarrow> response option list" where
  "read_responses parse stream =
     (case read_message stream of Inl _ \<Rightarrow> [] | Inr (raw, rest) \<Rightarrow> decode_response parse raw # read_responses parse rest)"
  by pat_completeness auto
termination
  by (relation "measure (\<lambda>(_, stream). length stream)") (auto simp: read_message_def read_exact_def Let_def split: if_splits)

declare read_responses.simps [simp del]

definition request_bytes :: "(json \<Rightarrow> u8 list) \<Rightarrow> request list \<Rightarrow> u8 list" where
  "request_bytes print qs = concat (map (\<lambda>q. write_message (encode_request print q)) qs)"

lemma read_message_nil: "read_message [] = Inl eof_error"
  by (simp add: read_message_def read_exact_def)

lemma connection_serves:
  assumes "\<forall>q \<in> set qs. request_wf q \<and> fits print parse (request_json q)"
  shows "handle_connection cdc os parse print (\<lambda>_. True) (request_bytes print qs) sent a =
    (sent @ concat (map (\<lambda>r. write_message (encode_response print r)) (fst (handle_all cdc os qs a))), snd (handle_all cdc os qs a))"
  using assms
proof (induction qs arbitrary: sent a)
  case Nil
  then show ?case by (subst handle_connection.simps) (simp add: request_bytes_def read_message_nil)
next
  case (Cons q qs)
  obtain r a1 where h: "handle cdc os q a = (r, a1)" by (cases "handle cdc os q a")
  have d: "decode_request parse (encode_request print q) = Some q" using Cons.prems by (intro requests.decode_encode) simp_all
  have "read_message (request_bytes print (q # qs)) = Inr (encode_request print q, request_bytes print qs)"
    using requests.read_frame [of print parse q "request_bytes print qs"] Cons.prems by (simp add: request_bytes_def)
  then show ?case using Cons.IH [of "sent @ write_message (encode_response print r)" a1] Cons.prems h d
    by (subst handle_connection.simps) (simp add: agent_reply_def Let_def split: prod.splits)
qed

lemma responses_read:
  "\<forall>r \<in> set rs. response_wf r \<and> fits print parse (response_json r) \<Longrightarrow>
    read_responses parse (concat (map (\<lambda>r. write_message (encode_response print r)) rs)) = map Some rs"
proof (induction rs)
  case Nil
  then show ?case by (subst read_responses.simps) (simp add: read_message_nil)
next
  case (Cons r rs)
  have "decode_response parse (encode_response print r) = Some r"
    using Cons.prems by (intro responses.decode_encode) simp_all
  with Cons responses.read_frame [of print parse r "concat (map (\<lambda>r. write_message (encode_response print r)) rs)"]
  show ?case by (subst read_responses.simps) simp
qed

text \<open>
  C30. Calling through the protocol is calling the handlers: a connection that carries any sequence of encoded
  requests is answered, one frame per request and in order, with exactly what the handlers answer one
  after the other, the agent is left in the state they leave, and the client decodes those
  answers.
\<close>

theorem rpc_is_direct_call:
  assumes "\<forall>q \<in> set qs. request_wf q \<and> fits print parse (request_json q)"
    "handle_all cdc os qs a = (rs, a')"
    "\<forall>r \<in> set rs. response_wf r \<and> fits print parse (response_json r)"
  shows "\<exists>bytes. handle_connection cdc os parse print (\<lambda>_. True) (request_bytes print qs) [] a = (bytes, a')
    \<and> read_responses parse bytes = map Some rs \<and> length rs = length qs"
proof -
  have "length (fst (handle_all cdc os qs a)) = length qs" for qs a
    by (induction qs arbitrary: a) (auto split: prod.splits, metis fst_conv)
  with connection_serves [OF assms(1), of cdc os "[]" a] responses_read [OF assms(3)] assms(2) show ?thesis
    by (metis append_Nil fst_conv snd_conv)
qed

text \<open>A guest with one counter that every system call increases.\<close>

definition counting_os :: "nat guest_os" where
  "counting_os =
     \<lparr>sys_spawn = \<lambda>_ _ _ n. (Inr ([], [], Some 0), Suc n), sys_read = \<lambda>_ n. (Inr [], Suc n), sys_write = \<lambda>_ _ n. (Inr (), Suc n),
      sys_read_dir = \<lambda>_ n. (Inr [], Suc n), sys_chmod = \<lambda>_ _ n. (Inr (), Suc n), sys_chown = \<lambda>_ _ _ n. (Inr (), Suc n),
      sys_create_dir = \<lambda>_ n. (Inr (), Suc n), sys_create_dir_all = \<lambda>_ n. (Inr (), Suc n), sys_rename = \<lambda>_ _ n. (Inr (), Suc n),
      sys_copy = \<lambda>_ _ n. (Inr 0, Suc n), sys_symlink = \<lambda>_ _ n. (Inr (), Suc n), sys_read_link = \<lambda>_ n. (Inr [], Suc n),
      sys_open_write = \<lambda>_ n. (Inr 3, Suc n), sys_set_len = \<lambda>_ _ n. (Inr (), Suc n), sys_bind = \<lambda>_ n. (Inr (), Suc n),
      sys_poke = \<lambda>_ n. Suc n\<rparr>"

definition plain_text :: text_codec where
  "plain_text = \<lparr>utf8_lossy = map (\<lambda>b. char_of (unat b)), b64_encode = \<lambda>_. [], b64_decode = \<lambda>_. Inr []\<rparr>"

definition two_print :: "json \<Rightarrow> u8 list" where
  "two_print j = (if j = response_json ROk then [1] else [2])"

definition two_parse :: "u8 list \<Rightarrow> json option" where
  "two_parse bs = (if bs = [1] then Some (response_json ROk) else Some (request_json (Mkdir ''/d'' True)))"

theorem rpc_is_direct_call_witness:
  "\<exists>bytes. handle_connection plain_text counting_os two_parse two_print (\<lambda>_. True)
      (request_bytes two_print [Mkdir ''/d'' True, Mkdir ''/d'' True]) [] \<lparr>ag_os = 0, ag_tunnels = []\<rparr>
      = (bytes, \<lparr>ag_os = 2, ag_tunnels = []\<rparr>) \<and> read_responses two_parse bytes = [Some ROk, Some ROk]"
proof -
  let ?qs = "[Mkdir ''/d'' True, Mkdir ''/d'' True]" and ?a = "\<lparr>ag_os = 0, ag_tunnels = []\<rparr> :: nat agent_state"
  have f: "fits two_print two_parse (request_json (Mkdir ''/d'' True))" "fits two_print two_parse (response_json ROk)"
    by (simp_all add: fits_def two_print_def two_parse_def jtagged_def MAX_MESSAGE_LEN_def)
  have h: "handle_all plain_text counting_os ?qs ?a = ([ROk, ROk], \<lparr>ag_os = 2, ag_tunnels = []\<rparr>)"
    by (simp add: on_os_def handle_mkdir_def respond_def counting_os_def)
  show ?thesis using rpc_is_direct_call [of ?qs two_print two_parse, OF _ h] f by (auto simp: request_wf_def response_wf_def)
qed

end
