(* ===== verification/FirecrackerApi.thy ===== *)
theory FirecrackerApi
  imports Host
begin

text \<open>
  The HTTP client for Firecracker's API socket (\<^verbatim>\<open>vmm/src/firecracker_api.rs\<close>): the text of a request and the
  reading of a response. The connection is the list of the bytes still to be read; white space is that
  of ASCII, and the repair of invalid UTF-8 in a body is a parameter.
\<close>

section \<open>Text\<close>

definition is_space :: "char \<Rightarrow> bool" where
  "is_space c \<longleftrightarrow> (let n = of_char c :: nat in n = 32 \<or> 9 \<le> n \<and> n \<le> 13)"

text \<open>\<^verbatim>\<open>BufRead::read_line\<close>: up to and with the next newline, or all that is left.\<close>

fun read_line :: "string \<Rightarrow> string \<times> string" where
  "read_line [] = ([], [])"
| "read_line (c # cs) = (if c = CHR 0x0A then ([c], cs) else (case read_line cs of (l, rest) \<Rightarrow> (c # l, rest)))"

definition trim_end :: "string \<Rightarrow> string" where
  "trim_end s = rev (dropWhile is_space (rev s))"

definition trim :: "string \<Rightarrow> string" where
  "trim s = trim_end (dropWhile is_space s)"

fun split_words :: "string \<Rightarrow> string \<Rightarrow> string list" where
  "split_words word [] = (if word = [] then [] else [word])"
| "split_words word (c # cs) =
     (if is_space c then (if word = [] then split_words [] cs else word # split_words [] cs) else split_words (word @ [c]) cs)"

definition split_whitespace :: "string \<Rightarrow> string list" where
  "split_whitespace s = split_words [] s"

section \<open>Requests\<close>

definition crlf :: string where
  "crlf = [CHR 0x0D, CHR 0x0A]"

definition request_text :: "string \<Rightarrow> string \<Rightarrow> string \<Rightarrow> string" where
  "request_text verb path json_body =
     verb @ '' '' @ path @ '' HTTP/1.1'' @ crlf @ ''Host: localhost'' @ crlf @ ''Content-Type: application/json'' @ crlf
     @ ''Content-Length: '' @ show_nat (length json_body) @ crlf @ ''Connection: keep-alive'' @ crlf @ crlf @ json_body"

section \<open>Responses\<close>

record api_response =
  ar_status :: u16
  ar_body :: string

definition parse_status_code :: "string \<Rightarrow> (io_error, u16) result" where
  "parse_status_code status_line =
     ok_or (IoError InvalidData (Msg ''malformed status line: {}'' [status_line]))
       (case split_whitespace status_line of
          _ # code # _ \<Rightarrow> map_option of_nat (parse_unsigned (2 ^ 16 - 1) code)
        | _ \<Rightarrow> None)"

definition content_length_value :: "string \<Rightarrow> string option" where
  "content_length_value line =
     (case strip_prefix ''Content-Length: '' line of Some v \<Rightarrow> Some v | None \<Rightarrow> strip_prefix ''content-length: '' line)"

lemma read_line_shorter: "read_line s = (l, rest) \<Longrightarrow> l \<noteq> [] \<Longrightarrow> length rest < length s"
proof (induction s arbitrary: l)
  case (Cons c cs)
  show ?case
  proof (cases "c = CHR 0x0A")
    case False
    obtain l1 r1 where r: "read_line cs = (l1, r1)" by (cases "read_line cs")
    with Cons.prems False have "rest = r1" by simp
    show ?thesis
    proof (cases "l1 = []")
      case True
      with r have "cs = []" by (cases cs) (auto split: if_splits prod.splits)
      with r \<open>rest = r1\<close> show ?thesis by simp
    next
      case False
      with Cons.IH [of l1] r \<open>rest = r1\<close> show ?thesis by simp
    qed
  qed (use Cons.prems in simp)
qed simp

lemma read_line_trim: "(l, rest) = read_line s \<Longrightarrow> trim_end l \<noteq> [] \<Longrightarrow> length rest < length s"
  using read_line_shorter [of s l rest] by (cases "l = []") (auto simp: trim_end_def)

text \<open>The header loop: it ends at a blank line and at the end of the input.\<close>

function read_headers :: "nat \<Rightarrow> string \<Rightarrow> nat \<times> string" where
  "read_headers content_length s =
     (case read_line s of
        (l, rest) \<Rightarrow>
          (let line = trim_end l in
           if line = [] then (content_length, rest)
           else read_headers
             (case content_length_value line of
                Some v \<Rightarrow> (case parse_unsigned (2 ^ 64 - 1) (trim v) of Some n \<Rightarrow> n | None \<Rightarrow> 0)
              | None \<Rightarrow> content_length) rest))"
  by pat_completeness auto
termination
  by (relation "measure (\<lambda>(_, s). length s)") (simp_all add: read_line_trim)

declare read_headers.simps [simp del]

definition read_response :: "(string \<Rightarrow> string) \<Rightarrow> string \<Rightarrow> (io_error, api_response \<times> string) result" where
  "read_response lossy s =
     (case read_line s of
        (status_line, s1) \<Rightarrow>
          (case parse_status_code status_line of
             Inl e \<Rightarrow> Inl e
           | Inr status \<Rightarrow>
               (case read_headers 0 s1 of
                  (n, s2) \<Rightarrow>
                    if length s2 < n then Inl (IoError UnexpectedEof (Msg ''failed to fill whole buffer'' []))
                    else Inr (\<lparr>ar_status = status, ar_body = lossy (take n s2)\<rparr>, drop n s2))))"

section \<open>A response is read as it was written\<close>

text \<open>
  What precedes the body of a response with other headers around its length; a header is a line of its
  own.
\<close>

definition response_head :: "nat \<Rightarrow> string \<Rightarrow> string list \<Rightarrow> string list \<Rightarrow> nat \<Rightarrow> string" where
  "response_head code reason before after n =
     (''HTTP/1.1 '' @ show_nat code @ '' '' @ reason) @ crlf
     @ concat (map (\<lambda>h. h @ crlf) before) @ (''Content-Length: '' @ show_nat n) @ crlf @ concat (map (\<lambda>h. h @ crlf) after) @ crlf"

definition header_line :: "string \<Rightarrow> bool" where
  "header_line h \<longleftrightarrow> h \<noteq> [] \<and> CHR 0x0A \<notin> set h \<and> \<not> is_space (last h) \<and> content_length_value h = None"

lemma read_line_crlf: "CHR 0x0A \<notin> set h \<Longrightarrow> read_line (h @ crlf @ s) = (h @ crlf, s)"
  by (induction h) (auto simp: crlf_def)

lemma is_space_crlf [simp]: "is_space (CHR 0x0D)" "is_space (CHR 0x0A)" "is_space (CHR '' '')"
  by (simp_all add: is_space_def Let_def)

lemma trim_end_crlf: "h = [] \<or> \<not> is_space (last h) \<Longrightarrow> trim_end (h @ crlf) = h"
  by (cases h rule: rev_cases) (auto simp: trim_end_def crlf_def)

lemma digit_no_space: "is_digit c \<Longrightarrow> \<not> is_space c"
  by (auto simp: is_digit_def is_space_def Let_def)

lemma show_nat_no_space: "c \<in> set (show_nat n) \<Longrightarrow> \<not> is_space c \<and> c \<noteq> CHR 0x0A"
  using digit_no_space show_nat_digits [of n] is_space_crlf(2) by (auto simp: list_all_iff)

lemma read_header: "header_line h \<Longrightarrow> read_headers n (h @ crlf @ s) = read_headers n s"
  by (subst read_headers.simps) (simp add: header_line_def read_line_crlf trim_end_crlf Let_def)

lemma read_blank: "read_headers n (crlf @ s) = (n, s)"
  using read_line_crlf [of "[]" s] trim_end_crlf [of "[]"] by (subst read_headers.simps) (simp add: Let_def)

lemma read_header_list: "\<forall>h \<in> set hs. header_line h \<Longrightarrow> read_headers n (concat (map (\<lambda>h. h @ crlf) hs) @ s) = read_headers n s"
  by (induction hs) (simp_all add: read_header)

lemma trim_digits: "trim (show_nat n) = show_nat n"
proof -
  have "\<not> is_space (hd (show_nat n))" "\<not> is_space (last (show_nat n))"
    using show_nat_no_space [of "hd (show_nat n)" n] show_nat_no_space [of "last (show_nat n)" n] by simp_all
  then have "dropWhile is_space (show_nat n) = show_nat n" "dropWhile is_space (rev (show_nat n)) = rev (show_nat n)"
    by (simp_all add: dropWhile_eq_self_iff hd_rev)
  then show ?thesis by (simp add: trim_def trim_end_def)
qed

lemma read_length: "m < 2 ^ 64 \<Longrightarrow> read_headers n ((''Content-Length: '' @ show_nat m) @ crlf @ s) = read_headers m s"
proof -
  assume m: "m < 2 ^ 64"
  let ?h = "''Content-Length: '' @ show_nat m"
  have "CHR 0x0A \<notin> set ?h" using show_nat_no_space by auto
  moreover have "\<not> is_space (last ?h)" using show_nat_no_space [of "last (show_nat m)" m] by simp
  moreover have "content_length_value ?h = Some (show_nat m)" by (simp add: content_length_value_def)
  moreover have "parse_unsigned (2 ^ 64 - 1) (trim (show_nat m)) = Some m"
    using m by (simp add: trim_digits parse_unsigned_show_nat)
  ultimately show ?thesis
    by (subst read_headers.simps) (simp only: read_line_crlf trim_end_crlf prod.case Let_def option.case simp_thms, simp)
qed

lemma split_words_char: "\<not> is_space c \<Longrightarrow> split_words w (c # s) = split_words (w @ [c]) s"
  by simp

lemma split_words_word: "\<forall>c \<in> set a. \<not> is_space c \<Longrightarrow> split_words w (a @ s) = split_words (w @ a) s"
  by (induction a arbitrary: w) simp_all

lemma parse_status: "code < 2 ^ 16 \<Longrightarrow> parse_status_code (''HTTP/1.1 '' @ show_nat code @ '' '' @ rest) = Inr (of_nat code)"
proof -
  assume c: "code < 2 ^ 16"
  have w: "\<forall>c \<in> set ''HTTP/1.1''. \<not> is_space c" by (simp add: is_space_def Let_def)
  have d: "\<forall>c \<in> set (show_nat code). \<not> is_space c" using show_nat_no_space by auto
  have "split_whitespace (''HTTP/1.1'' @ '' '' @ show_nat code @ '' '' @ rest) = ''HTTP/1.1'' # show_nat code # split_words [] rest"
    unfolding split_whitespace_def split_words_word [OF w] using split_words_word [OF d, of "[]"] by simp
  moreover have "parse_unsigned (2 ^ 16 - 1) (show_nat code) = Some code" using c by (simp add: parse_unsigned_show_nat)
  ultimately show ?thesis by (simp add: parse_status_code_def)
qed

lemma read_after_head:
  assumes "code < 2 ^ 16" "CHR 0x0A \<notin> set reason" "\<forall>h \<in> set (before @ after). header_line h" "n < 2 ^ 64"
  shows "read_response lossy (response_head code reason before after n @ s) =
    (if length s < n then Inl (IoError UnexpectedEof (Msg ''failed to fill whole buffer'' []))
     else Inr (\<lparr>ar_status = of_nat code, ar_body = lossy (take n s)\<rparr>, drop n s))"
proof -
  let ?line = "''HTTP/1.1 '' @ show_nat code @ '' '' @ reason"
  let ?s2 = "concat (map (\<lambda>h. h @ crlf) before) @ (''Content-Length: '' @ show_nat n) @ crlf @ concat (map (\<lambda>h. h @ crlf) after) @ crlf @ s"
  have "CHR 0x0A \<notin> set ?line" using show_nat_no_space assms(2) by auto
  then have l: "read_line (response_head code reason before after n @ s) = (?line @ crlf, ?s2)"
    unfolding response_head_def append_assoc [of ?line, symmetric] using read_line_crlf [of ?line ?s2] by simp
  have p: "parse_status_code (?line @ crlf) = Inr (of_nat code)" using parse_status [OF assms(1), of "reason @ crlf"] by simp
  have "\<forall>h \<in> set before. header_line h" "\<forall>h \<in> set after. header_line h" using assms(3) by simp_all
  then have h: "read_headers 0 ?s2 = (n, s)"
    by (simp only: read_header_list read_length [OF assms(4)] read_blank)
  show ?thesis by (simp only: read_response_def l p h prod.case sum.case)
qed

text \<open>
  A response of the API server is read exactly: whatever other headers surround its length, the status
  is the status, the body is the body (repaired if it is not UTF-8), and what is left on the
  kept-alive connection is what follows the response; a response that ends inside its body is an
  error.
\<close>

theorem response_read_exactly:
  assumes "code < 2 ^ 16" "CHR 0x0A \<notin> set reason" "\<forall>h \<in> set (before @ after). header_line h" "length body < 2 ^ 64"
  shows "read_response lossy (response_head code reason before after (length body) @ body @ rest)
      = Inr (\<lparr>ar_status = of_nat code, ar_body = lossy body\<rparr>, rest)"
    and "k < length body \<Longrightarrow> read_response lossy (response_head code reason before after (length body) @ take k body)
      = Inl (IoError UnexpectedEof (Msg ''failed to fill whole buffer'' []))"
  using read_after_head [OF assms] by simp_all

end
