(* ===== verification/Metrics.thy ===== *)
theory Metrics
  imports Host
begin

text \<open>
  The metrics of the daemon (\<^verbatim>\<open>metrics.rs\<close>): a counter and histograms, printed in the Prometheus text format.
  A \<^verbatim>\<open>f64\<close> is a value of a type with the operations that are used of it: comparison, addition, the
  integer it stands for (if it has no fraction) and its decimal text.
\<close>

record 'f float_ops =
  f_le :: "'f \<Rightarrow> 'f \<Rightarrow> bool"
  f_add :: "'f \<Rightarrow> 'f \<Rightarrow> 'f"
  f_of_nat :: "nat \<Rightarrow> 'f"
  f_whole :: "'f \<Rightarrow> int option"
  f_text :: "'f \<Rightarrow> string"

section \<open>Histograms\<close>

record 'f histogram =
  bounds :: "'f list"
  bucket_counts :: "u64 list"
  hist_sum :: 'f
  hist_count :: u64

definition histogram_new :: "'f float_ops \<Rightarrow> 'f list \<Rightarrow> 'f histogram" where
  "histogram_new F bs = \<lparr>bounds = bs, bucket_counts = replicate (length bs) 0, hist_sum = f_of_nat F 0, hist_count = 0\<rparr>"

fun position :: "('a \<Rightarrow> bool) \<Rightarrow> 'a list \<Rightarrow> nat option" where
  "position P [] = None"
| "position P (x # xs) = (if P x then Some 0 else map_option Suc (position P xs))"

definition observe :: "'f float_ops \<Rightarrow> 'f \<Rightarrow> 'f histogram \<Rightarrow> 'f histogram" where
  "observe F v h =
     h\<lparr>bucket_counts :=
         (case position (f_le F v) (bounds h) of
            Some i \<Rightarrow> (bucket_counts h)[i := bucket_counts h ! i + 1]
          | None \<Rightarrow> bucket_counts h),
       hist_sum := f_add F (hist_sum h) v, hist_count := hist_count h + 1\<rparr>"

definition show_int :: "int \<Rightarrow> string" where
  "show_int n = (if n < 0 then CHR ''-'' # show_nat (nat (- n)) else show_nat (nat n))"

definition fmt_bound :: "'f float_ops \<Rightarrow> 'f \<Rightarrow> string" where
  "fmt_bound F v = (case f_whole F v of Some n \<Rightarrow> show_int n | None \<Rightarrow> f_text F v)"

fun cumulate :: "u64 \<Rightarrow> u64 list \<Rightarrow> u64 list" where
  "cumulate acc [] = []"
| "cumulate acc (c # cs) = (acc + c) # cumulate (acc + c) cs"

definition quoted :: "string \<Rightarrow> string" where
  "quoted s = [CHR 0x22] @ s @ [CHR 0x22]"

definition render_labeled :: "'f float_ops \<Rightarrow> string \<Rightarrow> string \<Rightarrow> 'f histogram \<Rightarrow> string" where
  "render_labeled F name labels h =
     (let sep = (if labels = [] then [] else '','');
          alone = (if labels = [] then [] else ''{'' @ labels @ ''}'');
          line = (\<lambda>s c. s @ '' '' @ c @ [CHR 0x0A]) in
      concat (map (\<lambda>(b, c). line (name @ ''_bucket{'' @ labels @ sep @ ''le='' @ quoted (fmt_bound F b) @ ''}'') (show_nat (unat c)))
         (zip (bounds h) (cumulate 0 (bucket_counts h))))
      @ line (name @ ''_bucket{'' @ labels @ sep @ ''le='' @ quoted ''+Inf'' @ ''}'') (show_nat (unat (hist_count h)))
      @ line (name @ ''_sum'' @ alone) (fmt_bound F (hist_sum h))
      @ line (name @ ''_count'' @ alone) (show_nat (unat (hist_count h))))"

section \<open>The daemon's metrics\<close>

datatype create_phase = RootfsClone | NetworkLease | Setup | EgressApply | Total

definition ALL_PHASES :: "create_phase list" where
  "ALL_PHASES = [RootfsClone, NetworkLease, Setup, EgressApply, Total]"

fun phase_label :: "create_phase \<Rightarrow> string" where
  "phase_label RootfsClone = ''rootfs_clone''"
| "phase_label NetworkLease = ''network_lease''"
| "phase_label Setup = ''setup''"
| "phase_label EgressApply = ''egress_apply''"
| "phase_label Total = ''total''"

text \<open>\<^verbatim>\<open>phase as usize\<close>: the position of the variant.\<close>

fun phase_index :: "create_phase \<Rightarrow> nat" where
  "phase_index RootfsClone = 0"
| "phase_index NetworkLease = 1"
| "phase_index Setup = 2"
| "phase_index EgressApply = 3"
| "phase_index Total = 4"

record 'f metrics =
  sandboxes_created_total :: u64
  boot_duration_ms :: "'f histogram"
  exec_latency_ms :: "'f histogram"
  create_phase_duration_ms :: "'f histogram list"

definition metrics_new :: "'f float_ops \<Rightarrow> 'f metrics" where
  "metrics_new F =
     \<lparr>sandboxes_created_total = 0,
      boot_duration_ms = histogram_new F (map (f_of_nat F) [10, 25, 50, 100, 250, 1000]),
      exec_latency_ms = histogram_new F (map (f_of_nat F) [1, 10, 50, 250, 1000]),
      create_phase_duration_ms = map (\<lambda>_. histogram_new F (map (f_of_nat F) [1, 5, 10, 25, 50, 100, 250, 1000])) ALL_PHASES\<rparr>"

definition record_sandbox_created :: "'f metrics \<Rightarrow> 'f metrics" where
  "record_sandbox_created m = m\<lparr>sandboxes_created_total := sandboxes_created_total m + 1\<rparr>"

definition record_boot_duration_ms :: "'f float_ops \<Rightarrow> 'f \<Rightarrow> 'f metrics \<Rightarrow> 'f metrics" where
  "record_boot_duration_ms F v m = m\<lparr>boot_duration_ms := observe F v (boot_duration_ms m)\<rparr>"

definition record_exec_latency_ms :: "'f float_ops \<Rightarrow> 'f \<Rightarrow> 'f metrics \<Rightarrow> 'f metrics" where
  "record_exec_latency_ms F v m = m\<lparr>exec_latency_ms := observe F v (exec_latency_ms m)\<rparr>"

definition record_create_phase_ms :: "'f float_ops \<Rightarrow> create_phase \<Rightarrow> 'f \<Rightarrow> 'f metrics \<Rightarrow> 'f metrics" where
  "record_create_phase_ms F ph v m =
     m\<lparr>create_phase_duration_ms := (create_phase_duration_ms m)[phase_index ph := observe F v (create_phase_duration_ms m ! phase_index ph)]\<rparr>"

definition help_lines :: "string \<Rightarrow> string \<Rightarrow> string \<Rightarrow> string" where
  "help_lines name help kind =
     ''# HELP '' @ name @ '' '' @ help @ [CHR 0x0A] @ ''# TYPE '' @ name @ '' '' @ kind @ [CHR 0x0A]"

definition render_metrics :: "'f float_ops \<Rightarrow> nat \<Rightarrow> 'f metrics \<Rightarrow> string" where
  "render_metrics F sandboxes_active m =
     help_lines ''sandboxes_created_total'' ''Total number of sandboxes created since the daemon started.'' ''counter''
     @ ''sandboxes_created_total '' @ show_nat (unat (sandboxes_created_total m)) @ [CHR 0x0A]
     @ help_lines ''sandboxes_active'' ''Number of sandboxes currently tracked by the daemon.'' ''gauge''
     @ ''sandboxes_active '' @ show_nat sandboxes_active @ [CHR 0x0A]
     @ help_lines ''boot_duration_ms'' ''Microvm boot duration in milliseconds.'' ''histogram''
     @ render_labeled F ''boot_duration_ms'' [] (boot_duration_ms m)
     @ help_lines ''exec_latency_ms'' ''Guest agent exec round-trip latency in milliseconds.'' ''histogram''
     @ render_labeled F ''exec_latency_ms'' [] (exec_latency_ms m)
     @ help_lines ''create_phase_duration_ms''
         ''Duration of one sub-phase of a cold sandbox create, in milliseconds. rootfs_clone and network_lease run concurrently and do not sum to setup; boot is reported separately as boot_duration_ms.''
         ''histogram''
     @ concat (map (\<lambda>(ph, h). render_labeled F ''create_phase_duration_ms'' (''phase='' @ quoted (phase_label ph)) h)
         (zip ALL_PHASES (create_phase_duration_ms m)))"

section \<open>What a histogram counts\<close>

text \<open>
  \<^verbatim>\<open>CreatePhase::ALL\<close> lists every phase once (the class \<open>enum\<close>), and in the order of the discriminants (the class
  \<open>linorder\<close>), so a phase is at its own index.
\<close>

instantiation create_phase :: enum
begin

definition enum_create_phase :: "create_phase list" where
  "enum_create_phase = ALL_PHASES"

definition enum_all_create_phase :: "(create_phase \<Rightarrow> bool) \<Rightarrow> bool" where
  "enum_all_create_phase P = list_all P ALL_PHASES"

definition enum_ex_create_phase :: "(create_phase \<Rightarrow> bool) \<Rightarrow> bool" where
  "enum_ex_create_phase P = list_ex P ALL_PHASES"

instance
proof
  show univ: "(UNIV :: create_phase set) = set enum_class.enum"
    by (auto simp: enum_create_phase_def ALL_PHASES_def intro: create_phase.exhaust)
  show "distinct (enum_class.enum :: create_phase list)"
    by (simp add: enum_create_phase_def ALL_PHASES_def)
  show "enum_class.enum_all P \<longleftrightarrow> Ball UNIV P" for P :: "create_phase \<Rightarrow> bool"
    by (simp add: univ enum_all_create_phase_def enum_create_phase_def list_all_iff)
  show "enum_class.enum_ex P \<longleftrightarrow> Bex UNIV P" for P :: "create_phase \<Rightarrow> bool"
    by (simp add: univ enum_ex_create_phase_def enum_create_phase_def list_ex_iff)
qed

end

instantiation create_phase :: linorder
begin

definition less_eq_create_phase :: "create_phase \<Rightarrow> create_phase \<Rightarrow> bool" where
  "less_eq_create_phase a b \<longleftrightarrow> phase_index a \<le> phase_index b"

definition less_create_phase :: "create_phase \<Rightarrow> create_phase \<Rightarrow> bool" where
  "less_create_phase a b \<longleftrightarrow> phase_index a < phase_index b"

instance
proof
  show "a = b" if "a \<le> b" "b \<le> a" for a b :: create_phase
    using that by (cases a; cases b) (simp_all add: less_eq_create_phase_def)
qed (auto simp: less_eq_create_phase_def less_create_phase_def)

end

lemma phases_complete: "sorted ALL_PHASES \<and> distinct ALL_PHASES \<and> set ALL_PHASES = UNIV"
  using UNIV_enum [where 'a = create_phase] by (simp add: enum_create_phase_def ALL_PHASES_def less_eq_create_phase_def)

lemma phase_at_index: "phase_index ph < length ALL_PHASES \<and> ALL_PHASES ! phase_index ph = ph"
  by (cases ph) (simp_all add: ALL_PHASES_def)

definition rising :: "'f float_ops \<Rightarrow> 'f list \<Rightarrow> bool" where
  "rising F bs \<longleftrightarrow> (\<forall>v i j. i < j \<longrightarrow> j < length bs \<longrightarrow> f_le F v (bs ! i) \<longrightarrow> f_le F v (bs ! j))"

lemma position_some: "position P xs = Some i \<Longrightarrow> i < length xs \<and> P (xs ! i) \<and> (\<forall>j < i. \<not> P (xs ! j))"
proof (induction xs arbitrary: i)
  case (Cons x xs)
  then show ?case by (cases i) (fastforce simp: less_Suc_eq_0_disj split: if_splits)+
qed simp

lemma position_none: "position P xs = None \<longleftrightarrow> (\<forall>x \<in> set xs. \<not> P x)"
  by (induction xs) auto

lemma cumulate_nth: "k < length cs \<Longrightarrow> cumulate acc cs ! k = acc + sum_list (take (Suc k) cs)"
  by (induction cs arbitrary: acc k) (auto simp: nth_Cons add.assoc split: nat.splits)

lemma sum_list_update_take:
  "i < length cs \<Longrightarrow> sum_list (take n (cs[i := cs ! i + 1])) = sum_list (take n cs) + (if i < n then 1 else 0 :: u64)"
proof (induction cs arbitrary: i n)
  case (Cons c cs)
  then show ?case by (cases i; cases n) (auto simp: add_ac)
qed simp

definition counted :: "'f float_ops \<Rightarrow> 'f list \<Rightarrow> 'f histogram \<Rightarrow> bool" where
  "counted F vs h \<longleftrightarrow> length (bucket_counts h) = length (bounds h) \<and> hist_count h = of_nat (length vs)
     \<and> (\<forall>k < length (bounds h). sum_list (take (Suc k) (bucket_counts h)) = of_nat (length (filter (\<lambda>v. f_le F v (bounds h ! k)) vs)))"

lemma counted_new: "counted F [] (histogram_new F bs)"
  by (simp add: counted_def histogram_new_def take_replicate sum_list_replicate)

lemma counted_observe:
  assumes "counted F vs h" "rising F (bounds h)"
  shows "counted F (vs @ [v]) (observe F v h) \<and> bounds (observe F v h) = bounds h"
proof (cases "position (f_le F v) (bounds h)")
  case None
  then have "\<not> f_le F v (bounds h ! k)" if "k < length (bounds h)" for k using that by (auto simp: position_none)
  with assms(1) None show ?thesis by (simp add: counted_def observe_def)
next
  case (Some i)
  note i = position_some [OF Some]
  have "f_le F v (bounds h ! k) \<longleftrightarrow> i < Suc k" if "k < length (bounds h)" for k
    using i that assms(2) unfolding rising_def by (metis less_Suc_eq not_less_eq)
  with assms(1) Some i show ?thesis by (simp add: counted_def observe_def sum_list_update_take)
qed

text \<open>
  The lines of a histogram are exact: after any observations the line of a bound counts the observed values
  that are at most the bound, \<^verbatim>\<open>+Inf\<close> and \<^verbatim>\<open>_count\<close> count all of them (modulo \<^verbatim>\<open>2^64\<close>), provided the
  bounds rise.
\<close>

theorem histogram_lines_exact:
  assumes "rising F bs" "h = fold (observe F) vs (histogram_new F bs)"
  shows "bounds h = bs \<and> hist_count h = of_nat (length vs)
    \<and> cumulate 0 (bucket_counts h) = map (\<lambda>b. of_nat (length (filter (\<lambda>v. f_le F v b) vs))) bs"
proof -
  have "counted F (us @ vs) (fold (observe F) vs h0) \<and> bounds (fold (observe F) vs h0) = bounds h0"
    if "counted F us h0" "rising F (bounds h0)" for us vs h0
    using that
  proof (induction vs arbitrary: us h0)
    case (Cons v vs)
    with counted_observe [OF Cons.prems, of v] Cons.IH [of "us @ [v]" "observe F v h0"] show ?case by simp
  qed simp
  from this [OF counted_new, of bs vs] assms have c: "counted F vs h" "bounds h = bs"
    by (simp_all add: histogram_new_def)
  then have "cumulate 0 (bucket_counts h) ! k = of_nat (length (filter (\<lambda>v. f_le F v (bs ! k)) vs))" if "k < length bs" for k
    using that by (simp add: counted_def cumulate_nth)
  moreover have "length (cumulate acc cs) = length cs" for acc cs by (induction cs arbitrary: acc) auto
  ultimately show ?thesis using c by (auto simp: counted_def intro!: nth_equalityI)
qed

text \<open>
  A phase is recorded in its own histogram and in no other one, and printed under its own label: the
  index never leaves the list.
\<close>

theorem phases_kept_apart:
  fixes m :: "'f metrics"
  assumes "length (create_phase_duration_ms m) = length ALL_PHASES"
  shows "create_phase_duration_ms (record_create_phase_ms F ph v m) ! phase_index ph = observe F v (create_phase_duration_ms m ! phase_index ph)
    \<and> (\<forall>q. q \<noteq> ph \<longrightarrow> create_phase_duration_ms (record_create_phase_ms F ph v m) ! phase_index q = create_phase_duration_ms m ! phase_index q)
    \<and> length (create_phase_duration_ms (record_create_phase_ms F ph v m)) = length ALL_PHASES"
proof -
  have "phase_index q \<noteq> phase_index ph" if "q \<noteq> ph" for q
    using that by (metis phase_at_index)
  with assms phase_at_index [of ph] show ?thesis
    by (auto simp: record_create_phase_ms_def) (metis nth_list_update_neq)
qed

end
