(* ===== verification/Wire.thy ===== *)
theory Wire
  imports Agent FirecrackerApi Preview
begin

text \<open>
  Two edges of the daemon. \<^verbatim>\<open>vmm/src/vsock_client.rs\<close>: one call on a fresh connection, as the bytes written to
  it and the bytes read from it, so that the agent's loop can be put at its other end. \<^verbatim>\<open>request_id.rs\<close>: the
  id under which a request is logged and answered.
\<close>

section \<open>A call on the wire\<close>

definition AGENT_PORT :: nat where
  "AGENT_PORT = 5000"

definition ascii_bytes :: "string \<Rightarrow> u8 list" where
  "ascii_bytes s = map (\<lambda>c. of_nat (of_char c)) s"

fun read_line_bytes :: "u8 list \<Rightarrow> u8 list \<times> u8 list" where
  "read_line_bytes [] = ([], [])"
| "read_line_bytes (b # bs) = (if b = 10 then ([b], bs) else (case read_line_bytes bs of (l, rest) \<Rightarrow> (b # l, rest)))"

definition connect_request :: "nat \<Rightarrow> u8 list" where
  "connect_request port = ascii_bytes (''CONNECT '' @ show_nat port @ [CHR 0x0A])"

text \<open>
  The reply is read through a buffer of its own: \<^verbatim>\<open>greeting\<close> is what the reads up to the first line end
  brought, and what follows the line in it is dropped with the buffer. The line must be UTF-8 (\<^verbatim>\<open>utf8\<close>) and start
  with \<^verbatim>\<open>OK\<close> and a space; the rest of it is ignored.
\<close>

definition connect_handshake :: "(u8 list \<Rightarrow> string option) \<Rightarrow> nat \<Rightarrow> u8 list \<Rightarrow> (io_error, unit) result" where
  "connect_handshake utf8 port greeting =
     (case utf8 (fst (read_line_bytes greeting)) of
        None \<Rightarrow> Inl (IoError InvalidData (Msg ''stream did not contain valid UTF-8'' []))
      | Some reply \<Rightarrow>
          if strip_prefix ''OK '' reply = None
          then Inl (IoError ConnectionRefused (Msg ''vsock connect to guest port {} failed: {}'' [show_nat port, trim reply]))
          else Inr ())"

text \<open>
  The bytes written and the result; \<^verbatim>\<open>incoming\<close> is what arrives after the handshake, and a read that gets no more
  bytes is an error (\<^verbatim>\<open>IO_TIMEOUT\<close> or the end of the stream). What \<^verbatim>\<open>serde_json\<close> says of an answer it cannot read is not kept.
\<close>

definition wire_call :: "(json \<Rightarrow> u8 list) \<Rightarrow> (u8 list \<Rightarrow> json option) \<Rightarrow> (u8 list \<Rightarrow> string option) \<Rightarrow> nat \<Rightarrow> request
    \<Rightarrow> u8 list \<Rightarrow> u8 list \<Rightarrow> u8 list \<times> (io_error, response) result" where
  "wire_call print parse utf8 port req greeting incoming =
     (case connect_handshake utf8 port greeting of
        Inl e \<Rightarrow> (connect_request port, Inl e)
      | Inr _ \<Rightarrow>
          (connect_request port @ write_message (encode_request print req),
           (case read_message incoming of
              Inl e \<Rightarrow> Inl e
            | Inr (raw, _) \<Rightarrow> ok_or (IoError InvalidData (Msg ''invalid response'' [])) (decode_response parse raw))))"

lemma read_line_ok: "10 \<notin> set l \<Longrightarrow> read_line_bytes (l @ 10 # s) = (l @ [10], s)"
  by (induction l) auto

text \<open>
  One call reaches the handler: with the agent behind the connection (Firecracker's reply line first), the call writes
  the port and the request, and its result is the answer of the handler for that request.
\<close>

theorem wire_call_is_handler:
  assumes "request_wf req" "fits print parse (request_json req)" "handle cdc os req a = (r, a')"
    "response_wf r" "fits print parse (response_json r)" "10 \<notin> set reply" "utf8 (reply @ [10]) = Some line" "strip_prefix ''OK '' line \<noteq> None"
    "handle_connection cdc os parse print (\<lambda>_. True) (write_message (encode_request print req)) [] a = (replied, a'')"
  shows "wire_call print parse utf8 AGENT_PORT req (reply @ 10 # lost) replied
      = (connect_request AGENT_PORT @ write_message (encode_request print req), Inr r) \<and> a'' = a'"
proof -
  have "handle_all cdc os [req] a = ([r], a')" using assms(3) by simp
  with connection_serves [of "[req]" print parse cdc os "[]" a] assms(1,2,9)
  have eqs: "replied = write_message (encode_response print r)" "a'' = a'" by (simp_all add: request_bytes_def)
  have "read_message replied = Inr (encode_response print r, [])"
    unfolding eqs by (rule responses.read_last_frame [OF assms(5)])
  moreover have "decode_response parse (encode_response print r) = Some r"
    by (rule responses.decode_encode [OF assms(5,4)])
  ultimately show ?thesis
    using assms(7,8) eqs(2) by (simp add: wire_call_def connect_handshake_def read_line_ok [OF assms(6)])
qed

section \<open>Request ids\<close>

definition MAX_LEN :: nat where
  "MAX_LEN = 200"

definition is_valid_request_id :: "string \<Rightarrow> bool" where
  "is_valid_request_id v \<longleftrightarrow> v \<noteq> [] \<and> length v \<le> MAX_LEN \<and> list_all (\<lambda>c. 33 \<le> (of_char c :: nat) \<and> (of_char c :: nat) \<le> 126) v"

definition resolve_request_id :: "(string \<Rightarrow> string option) \<Rightarrow> string \<Rightarrow> headers \<Rightarrow> string" where
  "resolve_request_id to_str fresh hs =
     (case map_option trim (header_text to_str ''x-request-id'' hs) of
        Some v \<Rightarrow> if is_valid_request_id v then v else fresh
      | None \<Rightarrow> fresh)"

text \<open>The id replaces the header on the response, whatever the handler put there.\<close>

definition correlate :: "(string \<Rightarrow> string option) \<Rightarrow> (string \<Rightarrow> bool) \<Rightarrow> string \<Rightarrow> headers \<Rightarrow> (string \<Rightarrow> headers) \<Rightarrow> headers" where
  "correlate to_str valid_value fresh hs run_next =
     (let request_id = resolve_request_id to_str fresh hs;
          response = run_next request_id in
      if valid_value request_id
      then (''x-request-id'', request_id) # filter (\<lambda>h. fst h \<noteq> ''x-request-id'') response
      else response)"

text \<open>
  Whatever a caller sends, the id that reaches the log and the response is short and printable without
  spaces, so it cannot start a line of its own; a well-formed id of the caller is kept.
\<close>

theorem request_id_safe:
  assumes "is_valid_request_id fresh"
  shows "is_valid_request_id (resolve_request_id to_str fresh hs)
    \<and> CHR 0x0A \<notin> set (resolve_request_id to_str fresh hs)
    \<and> (header_text to_str ''x-request-id'' hs = Some v \<longrightarrow> is_valid_request_id (trim v) \<longrightarrow> resolve_request_id to_str fresh hs = trim v)"
proof -
  have valid: "is_valid_request_id (resolve_request_id to_str fresh hs)"
    using assms by (simp add: resolve_request_id_def split: option.split)
  then have "CHR 0x0A \<notin> set (resolve_request_id to_str fresh hs)"
    by (auto simp: is_valid_request_id_def list_all_iff)
  with valid show ?thesis by (simp add: resolve_request_id_def)
qed

end
