(* ===== verification/Relay.thy ===== *)
theory Relay
  imports Agent Tunnels "HOL-Library.Sublist"
begin

text \<open>
  The three places that copy bytes between two sockets with two loops: the shell of a terminal and its
  vsock connection (\<^verbatim>\<open>shovel_bytes\<close> of the guest's \<^verbatim>\<open>pty.rs\<close>), a local connection and its vsock connection (\<^verbatim>\<open>relay\<close> of the
  guest's \<^verbatim>\<open>tunnel.rs\<close>), a terminal's vsock connection and its WebSocket (\<^verbatim>\<open>proxy_pty\<close> of the daemon's
  \<^verbatim>\<open>routes_pty.rs\<close>). The peers and the two loops take their steps in any order. Side \<open>a\<close> is the inner one (the
  shell, the local service, the guest), side \<open>b\<close> the one towards the client.
\<close>

section \<open>The state\<close>

datatype relay = Shovel | TunnelRelay | PtyProxy

text \<open>
  Of each side: what it sent (in all, and not read yet), what was written to it, whether it has closed or failed,
  and whether the relay has shut it down, so that it can send no more. \<open>hung_up\<close>: the shell has
  been sent \<^verbatim>\<open>SIGHUP\<close>.
\<close>

record duplex =
  a_sent :: "u8 list"
  a_pending :: "u8 list"
  a_got :: "u8 list"
  a_ended :: bool
  a_shut :: bool
  b_sent :: "u8 list"
  b_pending :: "u8 list"
  b_got :: "u8 list"
  b_ended :: bool
  b_shut :: bool
  hung_up :: bool
  ab_done :: bool
  ba_done :: bool
  relay_done :: bool

definition relay_start :: duplex where
  "relay_start =
     \<lparr>a_sent = [], a_pending = [], a_got = [], a_ended = False, a_shut = False,
      b_sent = [], b_pending = [], b_got = [], b_ended = False, b_shut = False,
      hung_up = False, ab_done = False, ba_done = False, relay_done = False\<rparr>"

definition BUF_SIZE :: nat where
  "BUF_SIZE = 8192"

section \<open>Steps\<close>

text \<open>What the peers do.\<close>

inductive peer_step :: "duplex \<Rightarrow> duplex \<Rightarrow> bool" where
  a_sends: "\<not> a_ended s \<Longrightarrow> \<not> a_shut s \<Longrightarrow> peer_step s (s\<lparr>a_sent := a_sent s @ bs, a_pending := a_pending s @ bs\<rparr>)"
| a_ends: "peer_step s (s\<lparr>a_ended := True\<rparr>)"
| b_sends: "\<not> b_ended s \<Longrightarrow> \<not> b_shut s \<Longrightarrow> peer_step s (s\<lparr>b_sent := b_sent s @ bs, b_pending := b_pending s @ bs\<rparr>)"
| b_ends: "peer_step s (s\<lparr>b_ended := True\<rparr>)"

text \<open>
  What follows the loop from \<open>a\<close> to \<open>b\<close>, and the other one. The two guest relays shut their vsock connection down; then
  the terminal's sends the shell a hangup and the tunnel's shuts the local connection down. The daemon's proxy just ends.
\<close>

definition ab_close :: "relay \<Rightarrow> duplex \<Rightarrow> duplex" where
  "ab_close k s = s\<lparr>ab_done := True, b_shut := b_shut s \<or> k \<noteq> PtyProxy\<rparr>"

definition ba_close :: "relay \<Rightarrow> duplex \<Rightarrow> duplex" where
  "ba_close k s = s\<lparr>ba_done := True, a_shut := a_shut s \<or> k = TunnelRelay, hung_up := hung_up s \<or> k = Shovel\<rparr>"

text \<open>The guest's relays join both loops; the daemon's \<^verbatim>\<open>select!\<close> drops the other loop when the first one ends.\<close>

definition running :: "relay \<Rightarrow> duplex \<Rightarrow> bool" where
  "running k s \<longleftrightarrow> \<not> relay_done s \<and> (k = PtyProxy \<longrightarrow> \<not> ab_done s \<and> \<not> ba_done s)"

definition relay_over :: "relay \<Rightarrow> duplex \<Rightarrow> bool" where
  "relay_over k s \<longleftrightarrow> (if k = PtyProxy then ab_done s \<or> ba_done s else ab_done s \<and> ba_done s)"

text \<open>
  What the relay does. A read gives at most a buffer full; it gives nothing (or an error) once the side
  has ended or was shut down and everything it sent has been read. A write can fail once the other side has ended or
  was shut down.
\<close>

inductive relay_step :: "relay \<Rightarrow> duplex \<Rightarrow> duplex \<Rightarrow> bool" for k where
  ab_copy: "running k s \<Longrightarrow> \<not> ab_done s \<Longrightarrow> 0 < n \<Longrightarrow> n \<le> BUF_SIZE \<Longrightarrow> n \<le> length (a_pending s)
    \<Longrightarrow> relay_step k s (s\<lparr>a_pending := drop n (a_pending s), b_got := b_got s @ take n (a_pending s)\<rparr>)"
| ab_broken: "running k s \<Longrightarrow> \<not> ab_done s \<Longrightarrow> 0 < n \<Longrightarrow> n \<le> BUF_SIZE \<Longrightarrow> n \<le> length (a_pending s) \<Longrightarrow> b_ended s \<or> b_shut s
    \<Longrightarrow> relay_step k s (ab_close k (s\<lparr>a_pending := drop n (a_pending s)\<rparr>))"
| ab_eof: "running k s \<Longrightarrow> \<not> ab_done s \<Longrightarrow> a_pending s = [] \<Longrightarrow> a_ended s \<or> a_shut s
    \<Longrightarrow> relay_step k s (ab_close k s)"
| ba_copy: "running k s \<Longrightarrow> \<not> ba_done s \<Longrightarrow> 0 < n \<Longrightarrow> n \<le> BUF_SIZE \<Longrightarrow> n \<le> length (b_pending s)
    \<Longrightarrow> relay_step k s (s\<lparr>b_pending := drop n (b_pending s), a_got := a_got s @ take n (b_pending s)\<rparr>)"
| ba_broken: "running k s \<Longrightarrow> \<not> ba_done s \<Longrightarrow> 0 < n \<Longrightarrow> n \<le> BUF_SIZE \<Longrightarrow> n \<le> length (b_pending s) \<Longrightarrow> a_ended s \<or> a_shut s
    \<Longrightarrow> relay_step k s (ba_close k (s\<lparr>b_pending := drop n (b_pending s)\<rparr>))"
| ba_eof: "running k s \<Longrightarrow> \<not> ba_done s \<Longrightarrow> b_pending s = [] \<Longrightarrow> b_ended s \<or> b_shut s
    \<Longrightarrow> relay_step k s (ba_close k s)"
| relay_ends: "\<not> relay_done s \<Longrightarrow> relay_over k s \<Longrightarrow> relay_step k s (s\<lparr>relay_done := True\<rparr>)"

inductive_simps relay_step_simps: "relay_step k s t"

definition shovel_bytes :: "duplex \<Rightarrow> duplex \<Rightarrow> bool" where
  "shovel_bytes = relay_step Shovel"

definition tunnel_relay :: "duplex \<Rightarrow> duplex \<Rightarrow> bool" where
  "tunnel_relay = relay_step TunnelRelay"

definition proxy_pty :: "duplex \<Rightarrow> duplex \<Rightarrow> bool" where
  "proxy_pty = relay_step PtyProxy"

text \<open>Peers and relay take their steps in any order.\<close>

abbreviation session_step :: "relay \<Rightarrow> duplex \<Rightarrow> duplex \<Rightarrow> bool" where
  "session_step k s t \<equiv> peer_step s t \<or> relay_step k s t"

abbreviation relay_reach :: "relay \<Rightarrow> duplex \<Rightarrow> bool" where
  "relay_reach k s \<equiv> (session_step k)\<^sup>*\<^sup>* relay_start s"

lemma reach_peer: "relay_reach k s \<Longrightarrow> peer_step s t \<Longrightarrow> relay_reach k t"
  by (rule run_step) blast+

lemma reach_relay: "relay_reach k s \<Longrightarrow> relay_step k s t \<Longrightarrow> relay_reach k t"
  by (rule run_step) blast+

section \<open>The invariant\<close>

lemmas close_defs = ab_close_def ba_close_def

text \<open>Bytes are written in the order they were sent, none twice; a loop that ended lost some only if its reader was gone.\<close>

definition relay_inv :: "relay \<Rightarrow> duplex \<Rightarrow> bool" where
  "relay_inv k s \<longleftrightarrow>
     (\<exists>lost. a_sent s = b_got s @ lost @ a_pending s \<and> (lost \<noteq> [] \<longrightarrow> ab_done s \<and> b_ended s))
   \<and> (\<exists>lost. b_sent s = a_got s @ lost @ b_pending s \<and> (lost \<noteq> [] \<longrightarrow> ba_done s \<and> a_ended s))
   \<and> (ab_done s \<longrightarrow> b_ended s \<or> (a_pending s = [] \<and> (a_ended s \<or> a_shut s)))
   \<and> (ba_done s \<longrightarrow> a_ended s \<or> (b_pending s = [] \<and> (b_ended s \<or> b_shut s)))
   \<and> (b_shut s \<longleftrightarrow> ab_done s \<and> k \<noteq> PtyProxy) \<and> (a_shut s \<longleftrightarrow> ba_done s \<and> k = TunnelRelay) \<and> (hung_up s \<longleftrightarrow> ba_done s \<and> k = Shovel)"

lemma relay_inv_start: "relay_inv k relay_start"
  by (simp add: relay_inv_def relay_start_def)

lemma relay_inv_peer:
  assumes "peer_step s t" "relay_inv k s"
  shows "relay_inv k t"
  using assms
proof cases
  case (a_sends bs)
  then show ?thesis using assms(2) by (auto simp: relay_inv_def relay_over_def)
next
  case a_ends
  then show ?thesis using assms(2) by (auto simp: relay_inv_def relay_over_def)
next
  case (b_sends bs)
  then show ?thesis using assms(2) by (auto simp: relay_inv_def relay_over_def)
next
  case b_ends
  then show ?thesis using assms(2) by (auto simp: relay_inv_def relay_over_def)
qed

lemma relay_inv_step:
  assumes "relay_step k s t" "relay_inv k s"
  shows "relay_inv k t"
  using assms
proof cases
  case (ab_copy n)
  then show ?thesis using assms(2) by (fastforce simp: relay_inv_def relay_over_def)
next
  case (ab_broken n)
  then have "a_sent s = b_got s @ take n (a_pending s) @ drop n (a_pending s)" using assms(2) by (fastforce simp: relay_inv_def)
  then show ?thesis using ab_broken assms(2) unfolding relay_inv_def relay_over_def close_defs by (simp add: running_def) (metis append_take_drop_id)
next
  case ab_eof
  then show ?thesis using assms(2) by (auto simp: relay_inv_def relay_over_def close_defs running_def)
next
  case (ba_copy n)
  then show ?thesis using assms(2) by (fastforce simp: relay_inv_def relay_over_def)
next
  case (ba_broken n)
  then have "b_sent s = a_got s @ take n (b_pending s) @ drop n (b_pending s)" using assms(2) by (fastforce simp: relay_inv_def)
  then show ?thesis using ba_broken assms(2) unfolding relay_inv_def relay_over_def close_defs by (simp add: running_def) (metis append_take_drop_id)
next
  case ba_eof
  then show ?thesis using assms(2) by (auto simp: relay_inv_def relay_over_def close_defs running_def)
next
  case relay_ends
  then show ?thesis using assms(2) by (auto simp: relay_inv_def relay_over_def)
qed

interpretation relay_sessions: step_invariant "session_step k" "relay_inv k"
  by unfold_locales (auto intro: relay_inv_peer relay_inv_step)

lemma relay_reach_inv: "relay_reach k s \<Longrightarrow> relay_inv k s"
  by (rule relay_sessions.steps_inv [OF _ relay_inv_start])

section \<open>What a relay does\<close>

text \<open>
  Each side has been written a prefix of what the other side sent, in order; and a loop that has ended has
  copied everything unless the side it wrote to was gone.
\<close>

theorem relay_in_order:
  assumes "relay_reach k s"
  shows "prefix (b_got s) (a_sent s) \<and> prefix (a_got s) (b_sent s)
    \<and> (ab_done s \<longrightarrow> \<not> b_ended s \<longrightarrow> b_got s = a_sent s) \<and> (ba_done s \<longrightarrow> \<not> a_ended s \<longrightarrow> a_got s = b_sent s)"
proof -
  have inv: "relay_inv k s" by (rule relay_reach_inv [OF assms])
  obtain lost where a: "a_sent s = b_got s @ lost @ a_pending s" "lost \<noteq> [] \<longrightarrow> ab_done s \<and> b_ended s"
    using inv unfolding relay_inv_def by blast
  obtain lost' where b: "b_sent s = a_got s @ lost' @ b_pending s" "lost' \<noteq> [] \<longrightarrow> ba_done s \<and> a_ended s"
    using inv unfolding relay_inv_def by blast
  have "ab_done s \<longrightarrow> \<not> b_ended s \<longrightarrow> a_pending s = []" "ba_done s \<longrightarrow> \<not> a_ended s \<longrightarrow> b_pending s = []"
    using inv unfolding relay_inv_def by blast+
  then show ?thesis using a b by (auto simp: prefix_def)
qed

text \<open>How far a relay is from its end.\<close>

definition relay_measure :: "duplex \<Rightarrow> nat" where
  "relay_measure s = length (a_pending s) + length (b_pending s) + of_bool (\<not> ab_done s) + of_bool (\<not> ba_done s) + of_bool (\<not> relay_done s)"

lemma relay_step_decreases: "relay_step k s t \<Longrightarrow> relay_measure t < relay_measure s"
  by (induction rule: relay_step.induct) (auto simp: relay_measure_def close_defs)

lemma ab_progress:
  assumes "running k s" "\<not> ab_done s" "a_pending s \<noteq> [] \<or> a_ended s \<or> a_shut s"
  shows "\<exists>t. relay_step k s t"
proof (cases "a_pending s")
  case Nil
  then show ?thesis using assms ab_eof [of k s] by auto
next
  case (Cons x xs)
  then show ?thesis using ab_copy [OF assms(1,2), of 1] by (auto simp: BUF_SIZE_def)
qed

lemma ba_progress:
  assumes "running k s" "\<not> ba_done s" "b_pending s \<noteq> [] \<or> b_ended s \<or> b_shut s"
  shows "\<exists>t. relay_step k s t"
proof (cases "b_pending s")
  case Nil
  then show ?thesis using assms ba_eof [of k s] by auto
next
  case (Cons x xs)
  then show ?thesis using ba_copy [OF assms(1,2), of 1] by (auto simp: BUF_SIZE_def)
qed



text \<open>
  What it waits for can be forever: \<^verbatim>\<open>kill\<close> reaches the shell alone, and whatever else holds the terminal open
  keeps the thread reading, so the shell is never waited for.
\<close>

theorem hung_session:
  "\<exists>s. relay_reach Shovel s \<and> b_ended s \<and> hung_up s \<and> \<not> relay_done s \<and> (\<forall>t. \<not> shovel_bytes s t)"
proof -
  let ?s1 = "relay_start\<lparr>b_ended := True\<rparr>" and ?s2 = "ba_close Shovel (relay_start\<lparr>b_ended := True\<rparr>)"
  have "relay_reach Shovel ?s1" by (rule reach_peer [OF run_refl peer_step.b_ends])
  moreover have "relay_step Shovel ?s1 ?s2" by (rule ba_eof) (simp_all add: running_def relay_start_def)
  ultimately have "relay_reach Shovel ?s2" by (rule reach_relay)
  moreover have "\<not> relay_step Shovel ?s2 t" for t
    by (auto simp: relay_step_simps ba_close_def relay_start_def relay_over_def)
  ultimately show ?thesis by (intro exI [of _ ?s2]) (simp add: ba_close_def relay_start_def shovel_bytes_def)
qed

text \<open>
  A local client of a tunnel that closes its sending side, having sent its request, is not answered: the
  vsock connection is shut down both ways.
\<close>

theorem half_close_ends_tunnel:
  assumes "tunnel_relay s t" "\<not> ab_done s" "ab_done t"
  shows "b_shut t \<and> (\<forall>u. peer_step t u \<longrightarrow> b_sent u = b_sent t)"
  using assms unfolding tunnel_relay_def by cases (auto simp: ab_close_def ba_close_def elim!: peer_step.cases)

section \<open>Opening\<close>

definition exec_shell :: "(string \<Rightarrow> bool) \<Rightarrow> string" where
  "exec_shell exists = (if exists ''/bin/bash'' then ''/bin/bash'' else ''/bin/sh'')"

definition read_handshake :: "(u8 list \<Rightarrow> json option) \<Rightarrow> u8 list \<Rightarrow> (io_error, pty_handshake \<times> u8 list) result" where
  "read_handshake parse stream =
     (case read_message stream of
        Inl e \<Rightarrow> Inl e
      | Inr (payload, rest) \<Rightarrow>
          (case Option.bind (parse payload) pty_handshake_of_json of
             None \<Rightarrow> Inl (IoError InvalidData (Msg ''invalid handshake'' []))
           | Some h \<Rightarrow> Inr (h, rest)))"

text \<open>The size of the terminal, its shell, and the relay it starts; nothing when the handshake or \<^verbatim>\<open>forkpty\<close> fails.\<close>

definition pty_connection :: "(u8 list \<Rightarrow> json option) \<Rightarrow> bool \<Rightarrow> (string \<Rightarrow> bool) \<Rightarrow> u8 list \<Rightarrow> ((u16 \<times> u16) \<times> string \<times> duplex) option" where
  "pty_connection parse forks exists stream =
     (case read_handshake parse stream of
        Inl _ \<Rightarrow> None
      | Inr (h, rest) \<Rightarrow>
          if forks then Some ((pty_rows h, cols h), exec_shell exists, relay_start\<lparr>b_sent := rest, b_pending := rest\<rparr>) else None)"

text \<open>What the daemon's \<^verbatim>\<open>open_pty\<close> writes opens a terminal of the size asked for, and what was typed already is kept.\<close>

theorem pty_opens_as_asked:
  assumes "fits print parse (pty_handshake_json h)"
  shows "pty_connection parse True exists (write_message (print (pty_handshake_json h)) @ typed)
      = Some ((pty_rows h, cols h), exec_shell exists, relay_start\<lparr>b_sent := typed, b_pending := typed\<rparr>)
    \<and> relay_reach Shovel (relay_start\<lparr>b_sent := typed, b_pending := typed\<rparr>)"
proof
  show "pty_connection parse True exists (write_message (print (pty_handshake_json h)) @ typed)
      = Some ((pty_rows h, cols h), exec_shell exists, relay_start\<lparr>b_sent := typed, b_pending := typed\<rparr>)"
    using assms read_write_message [of "print (pty_handshake_json h)" typed]
    by (simp add: pty_connection_def read_handshake_def fits_def pty_handshakes.round)
  have "peer_step relay_start (relay_start\<lparr>b_sent := b_sent relay_start @ typed, b_pending := b_pending relay_start @ typed\<rparr>)"
    by (rule peer_step.b_sends) (simp_all add: relay_start_def)
  from reach_peer [OF run_refl this] show "relay_reach Shovel (relay_start\<lparr>b_sent := typed, b_pending := typed\<rparr>)"
    by (simp add: relay_start_def)
qed

text \<open>
  The guest's end of a tunnel accepts connections until one fails or finds the stop flag set (the one
  \<open>agent_stop_tunnel\<close> makes), and numbers them.
\<close>

fun accept_loop :: "string \<Rightarrow> nat \<Rightarrow> bool option list \<Rightarrow> string list" where
  "accept_loop tid n [] = []"
| "accept_loop tid n (None # _) = []"
| "accept_loop tid n (Some stop # accepted) =
     (if stop then [] else guest_conn_id tid n # accept_loop tid (Suc n) accepted)"

lemma accept_loop_ids: "c \<in> set (accept_loop tid n accepted) \<Longrightarrow> \<exists>m\<ge>n. c = guest_conn_id tid m"
  by (induction tid n accepted rule: accept_loop.induct) (auto split: if_splits dest: Suc_leD)

theorem conn_ids_distinct: "distinct (accept_loop tid n accepted)"
proof (induction tid n accepted rule: accept_loop.induct)
  case (3 tid n stop accepted)
  then show ?case
    using accept_loop_ids [of "guest_conn_id tid n" tid "Suc n" accepted] by (auto simp: guest_conn_id_def dest!: show_nat_inject)
qed simp_all

text \<open>The client's side of a terminal: text and binary frames are input, other frames are skipped, a close or an error ends it.\<close>

datatype ws_event = WsData "u8 list" | WsOther | WsClosed | WsFailed

fun ws_to_pty :: "ws_event list \<Rightarrow> u8 list" where
  "ws_to_pty [] = []"
| "ws_to_pty (WsData bs # es) = bs @ ws_to_pty es"
| "ws_to_pty (WsOther # es) = ws_to_pty es"
| "ws_to_pty (WsClosed # _) = []"
| "ws_to_pty (WsFailed # _) = []"

end
