(* ===== verification/Calm.thy ===== *)
theory Calm
  imports Daemon
begin

text \<open>
  A calm host: Firecracker accepts every request, every spawned program succeeds and leaves the disk
  alone, and no system call fails. On such a host the handlers succeed (\<open>calm_host_serves\<close>), so
  that what is proved of their results is not empty. \<open>calm D F w\<close> says that \<open>w\<close> is calm, that
  \<open>D\<close> is the set of its directories and that its files are among \<open>F\<close>.
\<close>

section \<open>Calm worlds\<close>

definition dirs_of :: "nodes \<Rightarrow> string list set" where
  "dirs_of ns = {q. hm_get q ns = Some DirNode}"

definition files_in :: "string list set \<Rightarrow> nodes \<Rightarrow> bool" where
  "files_in F ns \<longleftrightarrow> (\<forall>q d l. hm_get q ns = Some (FileNode d l) \<longrightarrow> q \<in> F)"

definition calm_fs :: "string list set \<Rightarrow> string list set \<Rightarrow> fs \<Rightarrow> bool" where
  "calm_fs D F f \<longleftrightarrow> fs_ok f \<and> cmd_effect f = (\<lambda>_ ns. ns) \<and> dirs_of (fs_nodes f) = D \<and> files_in F (fs_nodes f)"

definition calm :: "string list set \<Rightarrow> string list set \<Rightarrow> world \<Rightarrow> bool" where
  "calm D F w \<longleftrightarrow> fc_answer w = (\<lambda>_ _. (Inr (204, []), 0)) \<and> willing (w_sys w) \<and> calm_fs D F (w_fs w)"

lemma calm_upd [simp]:
  "calm D F (w\<lparr>w_now := n\<rparr>) = calm D F w" "calm D F (w\<lparr>w_next_vm := i\<rparr>) = calm D F w"
  "calm D F (w\<lparr>w_uuid_next := k\<rparr>) = calm D F w" "calm D F (w\<lparr>fc_events := es\<rparr>) = calm D F w"
  by (simp_all add: calm_def)

lemma calm_fs_put:
  assumes "calm_fs D F f" "resolve p \<noteq> []" "resolve p \<notin> D"
  shows "calm_fs D (insert (resolve p) F) (put_node p (FileNode d l) f)"
  using assms by (auto simp: calm_fs_def fs_ok_def dirs_of_def files_in_def put_node_def hm_simps)

lemma calm_fs_del:
  assumes "calm_fs D F f" "resolve p \<notin> D"
  shows "calm_fs D F (del_node p f)"
  using assms by (auto simp: calm_fs_def fs_ok_def dirs_of_def files_in_def del_node_def hm_simps)

lemma calm_fs_ops [simp]: "calm_fs D F (f\<lparr>fs_ops := x\<rparr>) = calm_fs D F f"
  by (simp add: calm_fs_def fs_ok_def)

lemma calm_is_dir: "calm_fs D F f \<Longrightarrow> is_dir p f \<longleftrightarrow> resolve p = [] \<or> resolve p \<in> D"
  by (auto simp: calm_fs_def dirs_of_def is_dir_def node_at_def)

lemma calm_parent: "calm_fs D F f \<Longrightarrow> parent_is_dir q f \<longleftrightarrow> butlast q = [] \<or> butlast q \<in> D"
  by (auto simp: calm_fs_def dirs_of_def parent_is_dir_def)

lemma calm_try: "calm_fs D F f \<Longrightarrow> fs_try op f = (None, f\<lparr>fs_ops := fs_ops f @ [op]\<rparr>)"
  by (simp add: calm_fs_def fs_ok_def fs_try_def)

lemma calm_create_file:
  assumes "calm_fs D F f" "resolve p \<noteq> []" "resolve p \<notin> D" "butlast (resolve p) = [] \<or> butlast (resolve p) \<in> D"
  shows "\<exists>f'. create_file p f = (Inr (), f') \<and> calm_fs D (insert (resolve p) F) f' \<and> node_at p f' = Some (FileNode [] 0)"
  using assms calm_fs_put [of D F "f\<lparr>fs_ops := fs_ops f @ [OpCreate p]\<rparr>" p]
  by (simp add: create_file_def calm_try can_create_def calm_is_dir [of D F] calm_parent [of D F] node_at_put)

lemma calm_remove_file:
  assumes "calm_fs D F f"
  shows "calm_fs D F (snd (remove_file p f))"
proof (cases "is_file p f")
  case True
  then have "resolve p \<notin> D" using assms by (auto simp: calm_fs_def dirs_of_def is_file_def node_at_def split: option.splits if_splits)
  with assms True is_file_cong [of "f\<lparr>fs_ops := fs_ops f @ [OpRemoveFile p]\<rparr>" f] show ?thesis
    by (simp add: remove_file_def calm_try calm_fs_del)
next
  case False
  then have "\<not> is_file p (f\<lparr>fs_ops := x\<rparr>)" for x using is_file_cong [of "f\<lparr>fs_ops := x\<rparr>" f] by simp
  with assms show ?thesis by (simp add: remove_file_def calm_try)
qed

lemma calm_remove_dir:
  assumes "calm_fs D F f"
  shows "\<exists>D'. calm_fs D' F (snd (remove_dir_all p f)) \<and> D' \<subseteq> D \<and> {q \<in> D. \<not> prefix (resolve p) q} \<subseteq> D'"
proof -
  have get: "hm_get q (filter (\<lambda>(q, _). \<not> prefix (resolve p) q) ns) = (if prefix (resolve p) q then None else hm_get q ns)"
    for q :: "string list" and ns :: nodes
    by (induction ns) (auto simp: hm_get_def)
  have "calm_fs {q \<in> D. \<not> prefix (resolve p) q} F (f\<lparr>fs_ops := x, fs_nodes := filter (\<lambda>(q, _). \<not> prefix (resolve p) q) (fs_nodes f)\<rparr>)" for x
    using assms by (auto simp: calm_fs_def fs_ok_def dirs_of_def files_in_def get split: if_splits)
  note filtered = this
  have dir: "is_dir p (f\<lparr>fs_ops := x\<rparr>) = is_dir p f" for x by (simp add: is_dir_def node_at_def)
  show ?thesis
  proof (cases "is_dir p f")
    case True
    with filtered assms show ?thesis
      by (intro exI [of _ "{q \<in> D. \<not> prefix (resolve p) q}"]) (simp add: remove_dir_all_def calm_try dir)
  next
    case False
    with assms show ?thesis by (intro exI [of _ D]) (auto simp: remove_dir_all_def calm_try dir)
  qed
qed

lemma calm_create_dir:
  assumes "calm_fs D F f" "\<And>q. prefix q (resolve p) \<Longrightarrow> q \<noteq> [] \<Longrightarrow> q \<notin> F"
  shows "\<exists>f'. create_dir_all p f = (Inr (), f') \<and> calm_fs (D \<union> {q. q \<noteq> [] \<and> prefix q (resolve p)}) F f'"
proof -
  let ?qs = "filter (\<lambda>q. q \<noteq> []) (prefixes (resolve p))"
  have get: "hm_get q (fold (\<lambda>q ns. hm_insert q DirNode ns) qs ns) = (if q \<in> set qs then Some DirNode else hm_get q ns)"
    for q :: "string list" and qs and ns :: nodes
    by (induction qs arbitrary: ns) (auto simp: hm_simps)
  have "\<not> list_ex (\<lambda>q. case hm_get q (fs_nodes f) of Some (FileNode _ _) \<Rightarrow> True | _ \<Rightarrow> False) ?qs"
    using assms by (auto simp: list_ex_iff calm_fs_def files_in_def split: option.splits node.splits)
  then have "create_dir_all p f = (Inr (), f\<lparr>fs_ops := fs_ops f @ [OpCreateDir p], fs_nodes := fold (\<lambda>q ns. hm_insert q DirNode ns) ?qs (fs_nodes f)\<rparr>)"
    using assms(1) by (simp add: create_dir_all_def calm_try Let_def)
  moreover have "calm_fs (D \<union> {q. q \<noteq> [] \<and> prefix q (resolve p)}) F
      (f\<lparr>fs_ops := x, fs_nodes := fold (\<lambda>q ns. hm_insert q DirNode ns) ?qs (fs_nodes f)\<rparr>)" for x
    using assms by (auto simp: calm_fs_def fs_ok_def dirs_of_def files_in_def get split: if_splits)
  ultimately show ?thesis by blast
qed

lemma calm_write_atomically:
  assumes "calm_fs D F f" "resolve dir \<in> D" "resolve (meta_path dir) \<notin> D" "resolve (tmp_of (meta_path dir)) \<notin> D"
  shows "\<exists>f'. write_atomically (meta_path dir) bs f = (Inr (), f')
    \<and> calm_fs D (insert (resolve (meta_path dir)) (insert (resolve (tmp_of (meta_path dir))) F)) f'"
proof -
  let ?p = "meta_path dir" and ?t = "tmp_of (meta_path dir)"
  let ?F = "insert (resolve ?p) (insert (resolve ?t) F)"
  have r: "resolve ?p = resolve dir @ [''meta.json'']" "resolve ?t = resolve dir @ [''meta.json.tmp'']" by (simp_all add: dir_files)
  obtain f1 where c: "create_file ?t f = (Inr (), f1)" "calm_fs D (insert (resolve ?t) F) f1"
    using calm_create_file [OF assms(1), of ?t] assms r by auto
  define f2 where "f2 = put_node ?t (FileNode bs (length bs)) (f1\<lparr>fs_ops := fs_ops f1 @ [OpWrite ?t]\<rparr>)"
  define f3 where "f3 = f2\<lparr>fs_ops := fs_ops f2 @ [OpSync ?t]\<rparr>"
  have 2: "calm_fs D (insert (resolve ?t) F) f2"
    using calm_fs_put [of D "insert (resolve ?t) F" "f1\<lparr>fs_ops := fs_ops f1 @ [OpWrite ?t]\<rparr>" ?t] c(2) assms r by (simp add: f2_def)
  then have 3: "calm_fs D (insert (resolve ?t) F) f3" by (simp add: f3_def)
  have w: "write_all ?t bs f1 = (Inr (), f2)" "sync_all ?t f2 = (Inr (), f3)"
    using c(2) 2 by (simp_all add: write_all_def sync_all_def calm_try f2_def f3_def)
  let ?g = "f3\<lparr>fs_ops := fs_ops f3 @ [OpRename ?t ?p]\<rparr>"
  have g: "calm_fs D (insert (resolve ?t) F) ?g" using 3 by simp
  have "node_at ?t ?g = Some (FileNode bs (length bs))" using r by (simp add: f3_def f2_def node_at_def put_node_def hm_simps)
  moreover have "can_create ?p ?g" using assms r by (simp add: can_create_def calm_is_dir [OF g] calm_parent [OF g])
  ultimately have "rename ?t ?p f3 = (Inr (), put_node ?p (FileNode bs (length bs)) (del_node ?t ?g))"
    using 3 r by (simp add: rename_def calm_try)
  moreover have "calm_fs D ?F (put_node ?p (FileNode bs (length bs)) (del_node ?t ?g))"
    using calm_fs_put [OF calm_fs_del [OF g assms(4)], of ?p bs "length bs"] assms r by simp
  moreover define f4 where "f4 = put_node ?p (FileNode bs (length bs)) (del_node ?t ?g)"
  ultimately have r4: "rename ?t ?p f3 = (Inr (), f4)" and c4: "calm_fs D ?F f4" by simp_all
  have "write_atomically ?p bs f = (Inr (), sync_parent ?p f4)" using c(1) w r4 by (simp add: write_atomically_def Let_def)
  moreover have "calm_fs D ?F (sync_parent ?p f4)" using c4 by (simp add: sync_parent_def sync_all_def calm_try split: option.split)
  ultimately show ?thesis by blast
qed

section \<open>Operations on a calm world\<close>

lemma calm_fc: "calm D F w \<Longrightarrow> \<exists>w'. fc_do ev w = (Inr (204, []), w') \<and> calm D F w'"
  by (simp add: calm_def fc_do_def)

lemma calm_put: "calm D F w \<Longrightarrow> \<exists>w'. put_checked s p b w = (Inr (), w') \<and> calm D F w'"
  using calm_fc [of D F w "FcPut s p b"] by (auto simp: put_checked_def status_ok_def)

lemma calm_patch: "calm D F w \<Longrightarrow> \<exists>w'. patch_checked s p b w = (Inr (), w') \<and> calm D F w'"
  using calm_fc [of D F w "FcPatch s p b"] by (auto simp: patch_checked_def status_ok_def)

lemma calm_put_all: "calm D F w \<Longrightarrow> \<exists>w'. put_all s rs w = (Inr (), w') \<and> calm D F w'"
proof (induction rs arbitrary: w)
  case (Cons r rs)
  obtain p b where r: "r = (p, b)" by (cases r)
  obtain w1 where "put_checked s p b w = (Inr (), w1)" "calm D F w1" using calm_put [OF Cons.prems] by blast
  with Cons.IH [of w1] r show ?case by auto
qed simp

lemma calm_api: "calm D F w \<Longrightarrow> \<exists>w'. api_connect s w = (Inr (), w') \<and> calm D F w'"
  using calm_fc [of D F w "FcConnect s"] by (auto simp: api_connect_def)

lemma calm_connect: "calm D F w \<Longrightarrow> \<exists>w'. connect_api_with_retry p t w = (Inr (), w') \<and> calm D F w'"
  using calm_api [of D F w p] by (auto simp: connect_api_with_retry_def retry_with_backoff_def retry_loop.simps)

lemma calm_retry_loop:
  "calm D F w \<Longrightarrow> (\<And>v. calm D F v \<Longrightarrow> calm D F (snd (attempt v))) \<Longrightarrow> calm D F (snd (retry_loop d i m attempt w))"
proof (induction d i m attempt w rule: retry_loop.induct)
  case (1 d i m attempt w)
  obtain r1 w1 where a: "attempt w = (r1, w1)" by (cases "attempt w")
  then have c1: "calm D F w1" using 1(2) 1(3) [of w] by simp
  show ?case
  proof (cases "(\<exists>v. r1 = Inr v) \<or> d \<le> max (w_now w) (w_now w1)")
    case True
    with a c1 show ?thesis by (subst retry_loop.simps) (auto simp: Let_def split: sum.splits)
  next
    case False
    then obtain e where e: "r1 = Inl e" by (cases r1) auto
    from 1(1) [OF a [symmetric] e refl _ _ 1(3)] False c1 a e show ?thesis
      by (subst retry_loop.simps) (auto simp: Let_def)
  qed
qed

lemma calm_vm_call: "calm D F w \<Longrightarrow> calm D F (snd (vm_call v q w))"
  unfolding vm_call_def retry_with_backoff_def
  by (erule calm_retry_loop) (simp add: vsock_call_def Let_def)

lemma calm_on_fs:
  "calm D F w \<Longrightarrow> (\<And>f. calm_fs D F f \<Longrightarrow> \<exists>f'. g f = (r, f') \<and> calm_fs D' F' f') \<Longrightarrow> \<exists>w'. on_fs g w = (r, w') \<and> calm D' F' w'"
  by (fastforce simp: calm_def on_fs_def)

lemma calm_on_fs_snd:
  "calm D F w \<Longrightarrow> (\<And>f. calm_fs D F f \<Longrightarrow> calm_fs D' F' (snd (g f))) \<Longrightarrow> calm D' F' (snd (on_fs g w))"
  by (cases "g (w_fs w)") (fastforce simp: calm_def on_fs_def)

lemma calm_remove_files: "calm D F w \<Longrightarrow> calm D F (remove_files ps w)"
proof (induction ps arbitrary: w)
  case (Cons p ps)
  have "calm D F (snd (on_fs (remove_file p) w))" by (rule calm_on_fs_snd [OF Cons.prems calm_remove_file])
  from Cons.IH [OF this] show ?case by (simp add: remove_files_def)
qed (simp add: remove_files_def)

section \<open>The life of a VM\<close>

lemma tmp_resolve [simp]: "resolve temp_dir = [''tmp'']" "resolve ''/tmp'' = [''tmp'']"
  by code_simp+

lemma resolve_tmp_file: "plain_component c \<Longrightarrow> resolve (''/tmp/'' @ c) = [''tmp'', c]"
  using resolve_join [of c temp_dir] by (cases c) (auto simp: path_join_def temp_dir_def plain_component_def)

text \<open>A console log can be created: \<^verbatim>\<open>/tmp\<close> is a directory and no log path is one.\<close>

definition logs_ok :: "string list set \<Rightarrow> bool" where
  "logs_ok D \<longleftrightarrow> [''tmp''] \<in> D \<and> (\<forall>i. resolve (console_log_path i) \<notin> D)"

definition log_files :: "string list set" where
  "log_files = range (\<lambda>i. resolve (console_log_path i))"

lemma resolve_log: "resolve (console_log_path i) = [''tmp'', ''sandkiln-fc-'' @ show_nat (unat i) @ ''.log'']"
proof -
  have "CHR ''/'' \<notin> set (show_nat (unat i))" using show_nat_chars [of "CHR ''/''"] is_digit_not(2) by blast
  then show ?thesis
    using resolve_tmp_file [of "''sandkiln-fc-'' @ show_nat (unat i) @ ''.log''"] by (simp add: console_log_path_def plain_component_def)
qed

lemma calm_spawn:
  assumes "calm D F w" "logs_ok D"
  shows "\<exists>c w'. spawn_logged prog args (console_log_path i) w = (Inr c, w') \<and> calm D (F \<union> log_files) w'"
proof -
  let ?p = "console_log_path i"
  have "\<exists>w1. on_fs (create_file ?p) w = (Inr (), w1) \<and> calm D (insert (resolve ?p) F) w1"
    by (rule calm_on_fs [OF assms(1)]) (use calm_create_file [of D F _ ?p] assms(2) in \<open>auto simp: logs_ok_def resolve_log\<close>)
  then obtain w1 where 1: "on_fs (create_file ?p) w = (Inr (), w1)" "calm D (insert (resolve ?p) F) w1" by blast
  from calm_fc [OF 1(2)] obtain w2 where 2: "fc_do (FcSpawn prog args) w1 = (Inr (204, []), w2)" "calm D (insert (resolve ?p) F) w2" by blast
  have "insert (resolve ?p) F \<subseteq> F \<union> log_files" by (auto simp: log_files_def)
  with 2(2) have "calm D (F \<union> log_files) w2" by (auto simp: calm_def calm_fs_def files_in_def)
  with 1 2 show ?thesis by (simp add: spawn_logged_def)
qed

lemma calm_configure:
  assumes "calm D F w" "vc_network c \<noteq> None"
  shows "\<exists>w'. configure_and_start c t w = (Inr (), w') \<and> calm D F w'"
proof -
  obtain w1 where 1: "connect_api_with_retry (bt_api_socket t) (ms 2000) w = (Inr (), w1)" "calm D F w1"
    using calm_connect [OF assms(1)] by blast
  obtain rs where rs: "configuration_requests c t = Inr rs" using assms(2) that
    by (cases "vc_metadata c") (auto simp: configuration_requests_def Let_def)
  obtain w2 where 2: "put_all (bt_api_socket t) rs w1 = (Inr (), w2)" "calm D F w2" using calm_put_all [OF 1(2)] by blast
  obtain w3 where "put_checked (bt_api_socket t) ''/actions'' instance_start_json w2 = (Inr (), w3)" "calm D F w3"
    using calm_put [OF 2(2)] by blast
  with 1 2 rs show ?thesis by (simp add: configure_and_start_def)
qed

lemma calm_tunnel_listen: "calm D F w \<Longrightarrow> calm D F (tunnel_listen v w)"
  using calm_fc [OF calm_remove_files [of D F w "[tunnel_socket_path v]"], of "FcBind (tunnel_socket_path v)"]
  by (auto simp: tunnel_listen_def)

lemma calm_boot:
  assumes "calm D F w" "logs_ok D" "vc_jail c = None" "vc_network c \<noteq> None"
  shows "\<exists>v w'. vm_boot c w = (Inr v, w') \<and> \<not> is_jailed v \<and> calm D (F \<union> log_files) w'"
proof -
  let ?i = "w_next_vm w" and ?w0 = "w\<lparr>w_next_vm := w_next_vm w + 1\<rparr>"
  let ?api = "api_socket_path ?i" and ?vsock = "vsock_socket_path ?i"
  have "calm D F (remove_files [?api, ?vsock] ?w0)" by (rule calm_remove_files) (use assms(1) in simp)
  from calm_spawn [OF this assms(2)] obtain ch w1 where s: "spawn_logged (vc_firecracker_bin c) [''--api-sock'', ?api] (console_log_path ?i)
      (remove_files [?api, ?vsock] ?w0) = (Inr ch, w1)" "calm D (F \<union> log_files) w1" by blast
  define t where "t = \<lparr>bt_child = ch, bt_api_socket = ?api, bt_vsock_socket = ?vsock, bt_kernel_image_path = vc_kernel_path c,
      bt_rootfs_path = vc_rootfs_path c, bt_drive_paths = map dc_path_on_host (extra_drives c), bt_vsock_uds_path = ?vsock,
      bt_jail_instance_dir = None\<rparr>"
  obtain w2 where "configure_and_start c t w1 = (Inr (), w2)" "calm D (F \<union> log_files) w2" using calm_configure [OF s(2) assms(4)] by blast
  with s(1) assms(3) show ?thesis
    by (auto simp: vm_boot_def next_vm_id_def boot_inner_def spawn_direct_def Let_def is_jailed_def calm_tunnel_listen simp flip: t_def)
      (simp add: t_def)
qed

lemma calm_vm_resume:
  assumes "calm D F w" "logs_ok D"
  shows "\<exists>v w'. vm_resume c w = (Inr v, w') \<and> \<not> is_jailed v \<and> calm D (F \<union> log_files) w'"
proof -
  let ?i = "w_next_vm w" and ?w0 = "w\<lparr>w_next_vm := w_next_vm w + 1\<rparr>"
  let ?api = "api_socket_path ?i" and ?vsock = "vsock_socket_path ?i"
  have "calm D F (remove_files [?api, ?vsock] ?w0)" by (rule calm_remove_files) (use assms(1) in simp)
  from calm_spawn [OF this assms(2)] obtain ch w1 where s: "spawn_logged (rc_firecracker_bin c) [''--api-sock'', ?api] (console_log_path ?i)
      (remove_files [?api, ?vsock] ?w0) = (Inr ch, w1)" "calm D (F \<union> log_files) w1" by blast
  obtain w2 where 2: "connect_api_with_retry ?api (ms 2000) w1 = (Inr (), w2)" "calm D (F \<union> log_files) w2" using calm_connect [OF s(2)] by blast
  obtain w3 where "put_checked ?api ''/snapshot/load'' (snapshot_load_json c ?vsock) w2 = (Inr (), w3)" "calm D (F \<union> log_files) w3"
    using calm_put [OF 2(2)] by blast
  with s 2 show ?thesis
    by (simp add: vm_resume_def next_vm_id_def load_snapshot_def Let_def is_jailed_def calm_tunnel_listen)
qed

lemma calm_stop: "calm D F w \<Longrightarrow> \<not> is_jailed v \<Longrightarrow> calm D F (snd (vm_stop v w))"
proof -
  assume w: "calm D F w" and j: "\<not> is_jailed v"
  let ?w1 = "snd (vm_call v (Exec ''sync'' [] []) w)"
  have "calm D F ?w1" by (rule calm_vm_call [OF w])
  from calm_fc [OF this, of "FcKill (vm_child v)"] have "calm D F (kill_child (vm_child v) ?w1)" by (auto simp: kill_child_def)
  from calm_remove_files [OF this] j show ?thesis by (simp add: vm_stop_def stop_inner_def Let_def is_jailed_def)
qed

lemma calm_pause: "calm D F w \<Longrightarrow> \<exists>w'. vm_pause v w = (Inr (), w') \<and> calm D F w'"
proof -
  assume "calm D F w"
  then obtain w1 where 1: "api_connect (vm_api_socket v) w = (Inr (), w1)" "calm D F w1" using calm_api by blast
  from calm_patch [OF 1(2)] 1(1) show ?thesis by (auto simp: vm_pause_def)
qed

lemma calm_snapshot: "calm D F w \<Longrightarrow> \<exists>w'. vm_snapshot v m p w = (Inr (), w') \<and> calm D F w'"
proof -
  assume "calm D F w"
  then obtain w1 where 1: "api_connect (vm_api_socket v) w = (Inr (), w1)" "calm D F w1" using calm_api by blast
  obtain w2 where 2: "put_checked (vm_api_socket v) ''/snapshot/create''
      (JObj [(''mem_file_path'', JStr m), (''snapshot_path'', JStr p)]) w1 = (Inr (), w2)" "calm D F w2" using calm_put [OF 1(2)] by blast
  have "firecracker_writes r ps w2 = w2\<lparr>w_fs := (w_fs w2)\<lparr>fs_nodes := fs_nodes (w_fs w2)\<rparr>\<rparr>" for r ps
    using 2(2) by (simp add: firecracker_writes_def calm_def calm_fs_def)
  with 1 2 show ?thesis by (simp add: vm_snapshot_def)
qed

section \<open>Handlers on a calm host\<close>

lemma calm_clone: "calm D F (wld st) \<Longrightarrow> \<exists>w'. app_clone_rootfs a b st = (Inr (), st\<lparr>wld := w'\<rparr>) \<and> calm D F w' \<and> ids_of w' = ids_of (wld st)"
  using willing_output [of "w_sys (wld st)" "Command ''cp'' [''--reflink=auto'', a, b] []"]
  by (auto simp: app_clone_rootfs_def on_world_def on_disk_def clone_rootfs_def run_on_disk_def calm_def calm_fs_def fs_ok_def ids_of_def)

lemma calm_lease:
  assumes "calm D F (wld st)" "free_taps (network st) \<noteq> []" "free_hosts (network st) \<noteq> []"
  shows "\<exists>l m w'. app_lease st = (Inr l, st\<lparr>network := m, wld := w'\<rparr>) \<and> calm D F w' \<and> ids_of w' = ids_of (wld st)
    \<and> free_taps m = tl (free_taps (network st)) \<and> free_hosts m = tl (free_hosts (network st))"
proof -
  obtain h hs t ts where f: "free_hosts (network st) = h # hs" "free_taps (network st) = t # ts" using assms(2,3) by (metis list.exhaust)
  let ?m1 = "(network st)\<lparr>free_hosts := hs\<rparr>"
  have "willing (w_sys (wld st))" using assms(1) by (simp add: calm_def)
  from willing_run_all [OF this] obtain s' where "attach_tap (?m1\<lparr>free_taps := ts\<rparr>) t (w_sys (wld st)) = (Inr (), s')" "willing s'"
    unfolding attach_tap_def by blast
  with f assms(1) show ?thesis
    by (simp add: app_lease_def lease_net_def pop_host_def pop_tap_def) (intro exI conjI, rule refl, simp_all add: calm_def ids_of_def)
qed

lemma calm_cold:
  assumes "calm D F (wld st)" "logs_ok D" "jailer_ids st = None" "cr_image_id req = None"
    "free_taps (network st) \<noteq> []" "free_hosts (network st) \<noteq> []"
  shows "\<exists>s st1. create_sandbox_cold req pid v m rl None st = (Inr (fresh_id (own_of st)), st1)
    \<and> sandboxes st1 = hm_insert (fresh_id (own_of st)) s (sandboxes st) \<and> sb_attached_drives s = request_drives req
    \<and> sb_network s \<noteq> None \<and> \<not> is_jailed (sb_vm s) \<and> source_snapshot_id s = None
    \<and> calm D (F \<union> log_files) (wld st1) \<and> ids_of (wld st1) = next_ids (ids_of (wld st)) \<and> jailer_ids st1 = None
    \<and> free_taps (network st1) = tl (free_taps (network st)) \<and> free_hosts (network st1) = tl (free_hosts (network st))"
proof -
  obtain i st2 where u: "app_uuid st = (i, st2)" by (cases "app_uuid st")
  have st2: "calm D F (wld st2)" "jailer_ids st2 = None" "network st2 = network st" "ids_of (wld st2) = next_ids (ids_of (wld st))"
    "i = fresh_id (own_of st)" "sandboxes st2 = sandboxes st"
    using u assms by (auto simp: app_uuid_def on_world_def new_uuid_def ids_of_def next_ids_def fresh_id_def)
  define b where "b = \<lparr>bp_rootfs = rootfs_path_for i, bp_source = base_rootfs_path (app_config st), bp_vcpu_count = v, bp_mem_size_mib = m,
      bp_drives = map (drive_config_of (drives st2)) (cr_drives req), bp_rate_limit = rl, bp_egress = None, bp_metadata = sandbox_metadata i req\<rparr>"
  obtain w1 where 1: "app_clone_rootfs (bp_source b) (bp_rootfs b) st2 = (Inr (), st2\<lparr>wld := w1\<rparr>)" "calm D F w1" "ids_of w1 = ids_of (wld st2)"
    using calm_clone [OF st2(1)] by blast
  obtain l n w2 where 2: "app_lease (st2\<lparr>wld := w1\<rparr>) = (Inr l, st2\<lparr>network := n, wld := w2\<rparr>)" "calm D F w2" "ids_of w2 = ids_of w1"
    "free_taps n = tl (free_taps (network st))" "free_hosts n = tl (free_hosts (network st))"
    using calm_lease [of D F "st2\<lparr>wld := w1\<rparr>"] 1(2) st2(3) assms(5,6) by auto
  let ?st = "st2\<lparr>network := n, wld := w2\<rparr>"
  obtain vm w3 where 3: "vm_boot (boot_config b l None ?st) w2 = (Inr vm, w3)" "\<not> is_jailed vm" "calm D (F \<union> log_files) w3"
    using calm_boot [OF 2(2) assms(2), of "boot_config b l None ?st"] by (auto simp: boot_config_def jail_for_def)
  have task: "cold_boot_task b st2 = (Inr (vm, l, None), ?st\<lparr>wld := w3\<rparr>)"
    using 1(1) 2(1) 3(1) st2(2) by (simp add: cold_boot_task_def lease_jail_def on_world_def) (simp add: b_def)
  have "ids_of w3 = next_ids (ids_of (wld st))"
    using vm_boot_ids [OF 3(1)] 2(3) 1(3) st2(4) by simp
  with task u assms(4) 2(4,5) 3 st2(2,6) show ?thesis unfolding st2(5) [symmetric]
    by (simp add: create_sandbox_cold_def reserve_image_boot_def release_image_boot_def Let_def flip: b_def)
      (auto simp: record_sandbox_created_def put_sandbox_def app_record_created_def created_sandbox_def request_drives_def)
qed

lemma calm_create:
  assumes "calm D F (wld st)" "logs_ok D" "jailer_ids st = None" "cr_image_id req = None" "app_pools st = []"
    "check_request req st = Inr ()" "resolve_request req st = Inr (v, m, rl, None)"
    "free_taps (network st) \<noteq> []" "free_hosts (network st) \<noteq> []"
  shows "\<exists>i s st1. create_sandbox_core req st = (Inr i, st1) \<and> hm_get i (sandboxes st1) = Some s
    \<and> sb_network s \<noteq> None \<and> \<not> is_jailed (sb_vm s) \<and> source_snapshot_id s = None
    \<and> calm D (F \<union> log_files) (wld st1) \<and> w_uuid (wld st1) = w_uuid (wld st)"
proof -
  have "app_resolve_pool_claim key st = (Inr NoPool, st)" for key
    using assms(5) by (simp add: app_resolve_pool_claim_def resolve_pool_claim_def resolve_once_def find_pool_def Let_def)
  moreover have "MAX_POOL_CLAIM_ATTEMPTS = Suc (MAX_POOL_CLAIM_ATTEMPTS - 1)" by (simp add: MAX_POOL_CLAIM_ATTEMPTS_def)
  ultimately have "create_sandbox_core req st = create_sandbox_cold req None v m rl None st"
    using assms(6,7) claim_loop.simps(2) [of req _ rl None "MAX_POOL_CLAIM_ATTEMPTS - 1" st]
    by (simp add: create_sandbox_core_def request_pool_key_def)
  with calm_cold [OF assms(1-4,8,9), of None v m rl] show ?thesis by (fastforce simp: ids_of_def next_ids_def)
qed

text \<open>No file is where a snapshot directory has to go, and no directory where its metadata has to.\<close>

definition snapshots_fit :: "string list set \<Rightarrow> string list set \<Rightarrow> bool" where
  "snapshots_fit D F \<longleftrightarrow> (\<forall>i. plain_component i \<longrightarrow>
     (\<forall>q. prefix q (resolve (snapshot_dir i)) \<longrightarrow> q \<notin> F)
     \<and> resolve (meta_path (snapshot_dir i)) \<notin> D \<and> resolve (tmp_of (meta_path (snapshot_dir i))) \<notin> D)"

lemma calm_suspend:
  assumes "calm D F (wld st)" "snapshots_fit D F" "\<And>n. plain_component (w_uuid (wld st) n)"
    "hm_get i (sandboxes st) = Some s" "sb_network s \<noteq> None" "\<not> is_jailed (sb_vm s)" "source_snapshot_id s = None"
  shows "\<exists>sid st1 sn F'. snapshot_and_stop i st = (Inr sid, st1) \<and> hm_get sid (snapshots st1) = Some sn \<and> forked_into sn = None
    \<and> calm (D \<union> {q. q \<noteq> [] \<and> prefix q (resolve (snapshot_dir sid))}) F' (wld st1) \<and> plain_component sid"
proof -
  obtain l where l: "sb_network s = Some l" using assms(5) by blast
  let ?st1 = "release_pool_slot (source_pool_id s) (drop_sandbox i st)"
  obtain sid st2 where u: "app_uuid ?st1 = (sid, st2)" by (cases "app_uuid ?st1")
  have st2: "calm D F (wld st2)" "plain_component sid"
    using u assms(1,3) by (auto simp: app_uuid_def on_world_def new_uuid_def release_pool_slot_def drop_sandbox_def)
  let ?dir = "snapshot_dir sid"
  let ?D = "D \<union> {q. q \<noteq> [] \<and> prefix q (resolve ?dir)}"
  have fit: "\<And>q. prefix q (resolve ?dir) \<Longrightarrow> q \<notin> F" "resolve (meta_path ?dir) \<notin> ?D" "resolve (tmp_of (meta_path ?dir)) \<notin> ?D"
    "resolve ?dir \<in> ?D"
    using assms(2) st2(2) by (auto simp: snapshots_fit_def snapshot_dir_def resolve_join dest: prefix_length_le)
  have "\<exists>w'. on_fs (create_dir_all ?dir) (wld st2) = (Inr (), w') \<and> calm ?D F w'"
    by (rule calm_on_fs [OF st2(1)]) (rule calm_create_dir, simp_all add: fit)
  then obtain w1 where 1: "on_fs (create_dir_all ?dir) (wld st2) = (Inr (), w1)" "calm ?D F w1" by blast
  obtain w2 where 2: "vm_pause (sb_vm s) w1 = (Inr (), w2)" "calm ?D F w2" using calm_pause [OF 1(2)] by blast
  obtain w3 where 3: "vm_snapshot (sb_vm s) (mem_path ?dir) (state_path ?dir) w2 = (Inr (), w3)" "calm ?D F w3"
    using calm_snapshot [OF 2(2)] by blast
  let ?w4 = "snd (vm_stop (sb_vm s) w3)"
  have 4: "calm ?D F ?w4" by (rule calm_stop [OF 3(2) assms(6)])
  have task: "snapshot_task (sb_vm s) ?dir (state_path ?dir) (mem_path ?dir) st2 = (Inr (), st2\<lparr>wld := ?w4\<rparr>)"
    using 1(1) 2(1) 3(1) by (simp add: snapshot_task_def on_world_def app_stop_def split: prod.split)
  let ?F = "insert (resolve (meta_path ?dir)) (insert (resolve (tmp_of (meta_path ?dir))) F)"
  have "\<exists>w'. on_fs (snapshot_persist c sn ?dir) ?w4 = (Inr (), w') \<and> calm ?D ?F w'" for c sn
    by (rule calm_on_fs [OF 4]) (unfold snapshot_persist_def, rule calm_write_atomically, assumption, (rule fit)+)
  then obtain w5 where 5: "on_fs (snapshot_persist (app_codec st2) (snapshot_of_sandbox s l sid i (app_now (st2\<lparr>wld := ?w4\<rparr>))) ?dir) ?w4 = (Inr (), w5)" "calm ?D ?F w5"
    by blast
  show ?thesis
    using assms(4,6,7) l u task 5 st2(2)
    by (simp add: snapshot_and_stop_def check_snapshottable_def Let_def on_world_def)
      (auto simp: app_record_ended_def put_snapshot_def hm_simps snapshot_of_sandbox_def)
qed

lemma calm_resume:
  assumes "calm D F (wld st)" "logs_ok D" "hm_get sid (snapshots st) = Some sn" "forked_into sn = None"
  shows "\<exists>j st1. resume_snapshot_by_id sid False st = (Inr j, st1)"
proof -
  obtain j st1 where u: "app_uuid (drop_snapshot sid st) = (j, st1)" by (cases "app_uuid (drop_snapshot sid st)")
  have "calm D F (wld st1)" using u assms(1) by (auto simp: app_uuid_def on_world_def new_uuid_def drop_snapshot_def)
  from calm_vm_resume [OF this assms(2), of "\<lparr>rc_firecracker_bin = cf_firecracker_bin (app_config st1),
      rc_snapshot_path = sn_snapshot_path sn, rc_mem_file_path = sn_mem_file_path sn\<rparr>"]
  obtain v w' where "vm_resume \<lparr>rc_firecracker_bin = cf_firecracker_bin (app_config st1),
      rc_snapshot_path = sn_snapshot_path sn, rc_mem_file_path = sn_mem_file_path sn\<rparr> (wld st1) = (Inr v, w')" by blast
  with u assms(3,4) show ?thesis
    by (simp add: resume_snapshot_by_id_def check_no_live_fork_def Let_def app_resume_vm_def on_world_def split: prod.split)
qed

lemma calm_run:
  assumes "calm D F (wld st)" "logs_ok D" "snapshots_fit D (F \<union> log_files)" "\<And>n. plain_component (w_uuid (wld st) n)"
    "jailer_ids st = None" "app_pools st = []" "free_taps (network st) \<noteq> []" "free_hosts (network st) \<noteq> []"
    "check_request req st = Inr ()" "resolve_request req st = Inr (v, m, rl, None)" "cr_image_id req = None"
  shows "\<exists>i sid j st1 st2 st3. create_sandbox_core req st = (Inr i, st1) \<and> hm_get i (sandboxes st1) \<noteq> None
    \<and> snapshot_and_stop i st1 = (Inr sid, st2) \<and> hm_get sid (snapshots st2) \<noteq> None
    \<and> resume_snapshot_by_id sid False st2 = (Inr j, st3)"
proof -
  obtain i s st1 where c: "create_sandbox_core req st = (Inr i, st1)" "hm_get i (sandboxes st1) = Some s"
    "sb_network s \<noteq> None" "\<not> is_jailed (sb_vm s)" "source_snapshot_id s = None"
    "calm D (F \<union> log_files) (wld st1)" "w_uuid (wld st1) = w_uuid (wld st)"
    using calm_create [OF assms(1,2,5,11,6,9,10,7,8)] by blast
  from c(7) assms(4) have "\<And>n. plain_component (w_uuid (wld st1) n)" by simp
  from calm_suspend [OF c(6) assms(3) this c(2-5)] obtain sid st2 sn F' where s: "snapshot_and_stop i st1 = (Inr sid, st2)"
    "hm_get sid (snapshots st2) = Some sn" "forked_into sn = None" "plain_component sid"
    "calm (D \<union> {q. q \<noteq> [] \<and> prefix q (resolve (snapshot_dir sid))}) F' (wld st2)" by blast
  have "resolve (snapshot_dir sid) = [''tmp'', ''sandkiln-snapshots'', sid]"
    using s(4) by (simp add: snapshot_dir_def snapshots_root_def resolve_join plain_component_def)
  then have "logs_ok (D \<union> {q. q \<noteq> [] \<and> prefix q (resolve (snapshot_dir sid))})"
    using assms(2) by (auto simp: logs_ok_def resolve_log prefix_Cons)
  from calm_resume [OF s(5) this s(2,3)] obtain j st3 where "resume_snapshot_by_id sid False st2 = (Inr j, st3)" by blast
  with c(1,2) s(1,2) show ?thesis by auto
qed

text \<open>
  C20. On a calm host the daemon delivers: a create request that passes the checks gives a running
  sandbox, suspending it gives a snapshot, and resuming that gives a running sandbox again. The host is calm when
  Firecracker accepts requests, programs succeed, no system call fails, tap devices and addresses
  are left and the paths under \<^verbatim>\<open>/tmp\<close> that the daemon uses are free.
\<close>

theorem calm_host_serves:
  assumes "calm D F (wld st)" "logs_ok D" "snapshots_fit D (F \<union> log_files)" "\<And>n. plain_component (w_uuid (wld st) n)"
    "jailer_ids st = None" "app_pools st = []" "free_taps (network st) \<noteq> []" "free_hosts (network st) \<noteq> []"
    "check_request req st = Inr ()" "resolve_request req st = Inr (v, m, rl, None)" "cr_image_id req = None"
  shows "\<exists>i sid j st1 st2 st3. create_sandbox_core req st = (Inr i, st1) \<and> hm_get i (sandboxes st1) \<noteq> None
    \<and> snapshot_and_stop i st1 = (Inr sid, st2) \<and> hm_get sid (snapshots st2) \<noteq> None
    \<and> resume_snapshot_by_id sid False st2 = (Inr j, st3)"
  by (rule calm_run [OF assms])

text \<open>The sample host is calm.\<close>

lemma sample_calm: "calm {[''tmp'']} {[''tmp'', ''base.ext4'']} (wld sample_app)"
proof -
  have "fs_nodes (w_fs (wld sample_app)) = [([''tmp''], DirNode), ([''tmp'', ''base.ext4''], FileNode [1] 1)]"
    by (simp add: sample_app_def app_new_def)
  then show ?thesis
    by (auto simp: calm_def calm_fs_def fs_ok_def sample_app_def app_new_def sample_world_def willing_def sample_sys_def
        dirs_of_def files_in_def hm_get_def split: if_splits)
qed

lemma show_nat_plain: "plain_component (show_nat n)"
  using show_nat_chars [of "CHR ''.''" n] show_nat_chars [of "CHR ''/''" n] show_nat_nonempty [of n]
  by (cases "show_nat n") (auto simp: plain_component_def)

lemma sample_fits: "snapshots_fit {[''tmp'']} ({[''tmp'', ''base.ext4'']} \<union> log_files)"
proof -
  have "resolve (snapshot_dir i) = [''tmp'', ''sandkiln-snapshots'', i]" if "plain_component i" for i
    using that by (simp add: snapshot_dir_def snapshots_root_def resolve_join plain_component_def)
  then show ?thesis by (auto simp: snapshots_fit_def log_files_def resolve_log prefix_Cons)
qed

definition sample_request :: create_request where
  "sample_request = \<lparr>cr_name = Some ''n'', cr_tags = [], cr_drives = [], cr_vcpu_count = None, cr_mem_size_mib = None,
     cr_image_id = None, cr_rate_limit = None, cr_egress = None, cr_env = []\<rparr>"

lemma sample_host:
  "logs_ok {[''tmp'']}" "plain_component (w_uuid (wld sample_app) n)" "check_request sample_request sample_app = Inr ()"
  "resolve_request sample_request sample_app = Inr (1, 128, None, None)" "cr_image_id sample_request = None"
  "free_taps (network sample_app) \<noteq> []" "free_hosts (network sample_app) \<noteq> []"
  using show_nat_plain
  by (simp_all add: logs_ok_def resolve_log sample_app_def app_new_def sample_world_def check_request_def sample_request_def first_duplicate_def
      resolve_request_def resolve_resource_override_def resolve_rate_limit_def resolve_egress_policy_def bad_request_def
      sample_config_def sample_manager_def network_new_def all_host_octets_def)

theorem calm_host_serves_witness:
  "\<exists>i sid j st1 st2 st3. create_sandbox_core sample_request sample_app = (Inr i, st1) \<and> hm_get i (sandboxes st1) \<noteq> None
    \<and> snapshot_and_stop i st1 = (Inr sid, st2) \<and> hm_get sid (snapshots st2) \<noteq> None
    \<and> resume_snapshot_by_id sid False st2 = (Inr j, st3)"
  by (rule calm_host_serves [OF sample_calm sample_host(1) sample_fits sample_host(2) sample_app_maps(6,7) sample_host(6,7,3,4,5)])

lemmas sample_run = calm_run [OF sample_calm sample_host(1) sample_fits sample_host(2) sample_app_maps(6,7) sample_host(6,7,3,4,5)]

section \<open>Two creates at once\<close>


definition drive_app :: app where
  "drive_app = sample_app\<lparr>wld := (wld sample_app)\<lparr>w_fs := (w_fs (wld sample_app))\<lparr>fs_nodes :=
     [([''tmp''], DirNode), ([''drives'', ''a.ext4''], FileNode [] 0)]\<rparr>\<rparr>\<rparr>"

definition drive_request :: create_request where
  "drive_request = sample_request\<lparr>cr_drives := [\<lparr>da_id = ''a'', da_read_only = False\<rparr>]\<rparr>"


end
