(* ===== verification/Journeys.thy ===== *)
theory Journeys
  imports Calm
begin

text \<open>
  What a client can rely on over a sandbox's life: suspend and resume lose nothing, a failed
  resume or fork changes nothing, destroying gives everything back; and error paths on which the code
  leaks.
\<close>

section \<open>Suspend and resume\<close>

text \<open>
  C7. Suspending a sandbox and resuming its snapshot gives back the same sandbox under a new id:
  its network identity, name, tags, drives, image, egress policy, environment and mounts are
  what they were, its lineage points at the snapshot, it is no fork and no pool's, the snapshot
  is no longer held, and every other sandbox, every other snapshot and the free pools are
  untouched in between.
\<close>

theorem suspend_resume_keeps_sandbox:
  assumes "own_inv (own_of st)" "hm_get i (sandboxes st) = Some s"
    "snapshot_and_stop i st = (Inr sid, st1)" "resume_snapshot_by_id sid retain st1 = (Inr j, st2)"
  shows "\<exists>t. hm_get j (sandboxes st2) = Some t \<and> sb_id t = j
    \<and> sb_network t = sb_network s \<and> sb_name t = sb_name s \<and> sb_tags t = sb_tags s \<and> sb_attached_drives t = sb_attached_drives s
    \<and> sb_image_id t = sb_image_id s \<and> sb_egress t = sb_egress s \<and> sb_env t = sb_env s \<and> sb_mounts t = sb_mounts s
    \<and> sb_parent_snapshot_id t = Some sid \<and> source_snapshot_id t = None \<and> source_pool_id t = None
    \<and> sandboxes st2 = hm_insert j t (hm_remove i (sandboxes st)) \<and> hm_get sid (snapshots st2) = None
    \<and> (\<forall>k. k = sid \<or> hm_get k (snapshots st2) = hm_get k (snapshots st)) \<and> network st2 = network st"
  using assms(3)
proof (cases rule: snapshot_and_stop_cases)
  case (suspended x l sid' now)
  have [simp]: "x = s" "sid' = sid" using suspended assms(2) by simp_all
  have st1: "sandboxes st1 = hm_remove i (sandboxes st)" "snapshots st1 = hm_insert sid (snapshot_of_sandbox s l sid i now) (snapshots st)"
    "network st1 = network st"
    using own_of_sel [of st1] unfolding suspended(6) by simp_all
  from assms(4) show ?thesis
  proof (cases rule: resume_cases)
    case (resumed sn v rootfs now' inst new_id)
    have sn: "sn = snapshot_of_sandbox s l sid i now" using resumed(1) st1(2) by simp
    have st2: "snapshots st2 = hm_remove sid (snapshots st1)" "network st2 = network st1"
      "sandboxes st2 = hm_insert j (resumed_sandbox j v rootfs sid sn now' inst) (sandboxes st1)"
      using own_of_sel [of st2] resumed(3) unfolding resumed(5) by simp_all
    show ?thesis
      using st1 st2 suspended(3)
      by (intro exI [of _ "resumed_sandbox j v rootfs sid sn now' inst"]) (auto simp: sn resumed_sandbox_def snapshot_of_sandbox_def)
  qed simp_all
qed simp_all

lemma sample_own: "own_inv (own_of sample_app)"
  using inj_on_def show_nat_inject
  by (auto simp: own_inv_def own_of_def all_taps_def held_taps_def held_names_def forks_locked_def ids_fresh_def filed_def
      locks_live_def ids_of_def at_most_once_def sample_app_def app_new_def sample_world_def sample_manager_def inj_def)

text \<open>A running sandbox on the sample host, its snapshot, and the sandbox resumed from that.\<close>

lemma sample_journey:
  "\<exists>st i s sid st1 j st2. own_inv (own_of st) \<and> own_inv (own_of st1) \<and> hm_get i (sandboxes st) = Some s
     \<and> snapshot_and_stop i st = (Inr sid, st1) \<and> hm_get sid (snapshots st1) \<noteq> None
     \<and> resume_snapshot_by_id sid False st1 = (Inr j, st2)"
proof -
  obtain i sid j st st1 st2 where run: "create_sandbox_core sample_request sample_app = (Inr i, st)" "hm_get i (sandboxes st) \<noteq> None"
    "snapshot_and_stop i st = (Inr sid, st1)" "hm_get sid (snapshots st1) \<noteq> None" "resume_snapshot_by_id sid False st1 = (Inr j, st2)"
    using sample_run by blast
  have "request_name_free UNIV (own_of sample_app) sample_request"
    by (simp add: request_name_free_def sample_request_def held_names_def own_of_def)
  from own_steps_inv [OF create_core_steps [OF run(1) sample_own this] sample_own] have inv: "own_inv (own_of st)" .
  from own_steps_inv [OF snapshot_and_stop_steps(1) [OF run(3) inv, of UNIV] inv] have "own_inv (own_of st1)" .
  with inv run(2-5) show ?thesis by blast
qed

theorem suspend_resume_keeps_sandbox_witness:
  "\<exists>st i s sid st1 j st2 t. hm_get i (sandboxes st) = Some s \<and> snapshot_and_stop i st = (Inr sid, st1)
     \<and> resume_snapshot_by_id sid False st1 = (Inr j, st2) \<and> hm_get j (sandboxes st2) = Some t
     \<and> sb_network t = sb_network s \<and> sb_name t = sb_name s \<and> sb_parent_snapshot_id t = Some sid"
proof -
  obtain st i s sid st1 j st2 where J: "own_inv (own_of st)" "hm_get i (sandboxes st) = Some s"
    "snapshot_and_stop i st = (Inr sid, st1)" "resume_snapshot_by_id sid False st1 = (Inr j, st2)" using sample_journey by blast
  from suspend_resume_keeps_sandbox [OF J] J show ?thesis by blast
qed

text \<open>
  C17. A resume, fork or suspend that fails or is refused loses nothing it should not: after a failed
  resume or fork every sandbox, every snapshot with its lock and the free pools are as before;
  a suspend that is blocked leaves the sandbox running and the whole state untouched.
\<close>

theorem failures_keep_checkpoints:
  assumes "own_inv (own_of st)"
  shows "(case resume_snapshot_by_id sid retain st of
       (Inl _, st1) \<Rightarrow> sandboxes st1 = sandboxes st \<and> (\<forall>k. hm_get k (snapshots st1) = hm_get k (snapshots st)) \<and> network st1 = network st
     | (Inr _, _) \<Rightarrow> True)
   \<and> (case fork_snapshot sid st of
       (Inl _, st1) \<Rightarrow> sandboxes st1 = sandboxes st \<and> snapshots st1 = snapshots st \<and> network st1 = network st
     | (Inr _, _) \<Rightarrow> True)
   \<and> (case snapshot_and_stop i st of (Inl (SnapBlocked _), st1) \<Rightarrow> st1 = st | _ \<Rightarrow> True)"
proof (intro conjI)
  obtain r1 st1 where q: "resume_snapshot_by_id sid retain st = (r1, st1)" by (cases "resume_snapshot_by_id sid retain st")
  from q have "is_ok r1 \<or> sandboxes st1 = sandboxes st \<and> (\<forall>k. hm_get k (snapshots st1) = hm_get k (snapshots st)) \<and> network st1 = network st"
  proof (cases rule: resume_cases)
    case (failed sn e)
    have "sandboxes st1 = sandboxes st" "snapshots st1 = hm_insert sid sn (snapshots st)" "network st1 = network st"
      using own_of_sel [of st1] unfolding failed(4) by simp_all
    with failed(1) show ?thesis by simp
  qed simp_all
  with q show "case resume_snapshot_by_id sid retain st of
       (Inl _, st1) \<Rightarrow> sandboxes st1 = sandboxes st \<and> (\<forall>k. hm_get k (snapshots st1) = hm_get k (snapshots st)) \<and> network st1 = network st
     | (Inr _, _) \<Rightarrow> True" by (cases r1) simp_all
  have wf: "hm_wf (snapshots st)" using assms by (simp add: own_inv_def)
  obtain r2 st2 where f: "fork_snapshot sid st = (r2, st2)" by (cases "fork_snapshot sid st")
  from f wf have "is_ok r2 \<or> sandboxes st2 = sandboxes st \<and> snapshots st2 = snapshots st \<and> network st2 = network st"
  proof (cases rule: fork_cases)
    case (failed e)
    show ?thesis using own_of_sel [of st2] unfolding failed(2) by simp
  qed simp
  with f show "case fork_snapshot sid st of
       (Inl _, st1) \<Rightarrow> sandboxes st1 = sandboxes st \<and> snapshots st1 = snapshots st \<and> network st1 = network st
     | (Inr _, _) \<Rightarrow> True" by (cases r2) simp_all
  obtain r3 st3 where p: "snapshot_and_stop i st = (r3, st3)" by (cases "snapshot_and_stop i st")
  from p show "case snapshot_and_stop i st of (Inl (SnapBlocked _), st1) \<Rightarrow> st1 = st | _ \<Rightarrow> True"
    by (cases rule: snapshot_and_stop_cases) (simp_all add: p split: snapshot_stop_error.splits)
qed

theorem failures_keep_checkpoints_witness:
  "\<exists>st sid. own_inv (own_of st) \<and> hm_get sid (snapshots st) \<noteq> None
    \<and> (case fork_snapshot sid st of (Inl _, st1) \<Rightarrow> snapshots st1 = snapshots st | (Inr _, _) \<Rightarrow> True)"
proof -
  obtain st sid where st: "own_inv (own_of st)" "hm_get sid (snapshots st) \<noteq> None" using sample_journey by blast
  from conjunct1 [OF conjunct2 [OF failures_keep_checkpoints [OF st(1), of sid False "''x''"]]]
  have "case fork_snapshot sid st of (Inl _, st1) \<Rightarrow> snapshots st1 = snapshots st | (Inr _, _) \<Rightarrow> True"
    by (auto split: prod.splits sum.splits)
  with st show ?thesis by (intro exI [of _ st] exI [of _ sid]) simp
qed

section \<open>Destroying\<close>

definition fc_log :: "world \<Rightarrow> fc_event list \<times> (fc_event list \<Rightarrow> fc_event \<Rightarrow> (io_error, nat \<times> string) result \<times> nat)" where
  "fc_log w = (fc_events w, fc_answer w)"

lemma log_ops [simp]:
  "fc_log (wld (app_release l st)) = fc_log (wld st)" "fc_log (wld (app_remove_egress l st)) = fc_log (wld st)"
  "fc_log (wld (app_remove_file p st)) = fc_log (wld st)" "fc_log (wld (app_remove_dir_all p st)) = fc_log (wld st)"
  "fc_log (wld (release_jail_id u st)) = fc_log (wld st)" "fc_log (wld (set_fork sid x st)) = fc_log (wld st)"
  "fc_log (wld (app_record_ended i reason sn st)) = fc_log (wld st)" "fc_log (wld (release_pool_slot pid st)) = fc_log (wld st)"
  "fc_log (wld (drop_sandbox i st)) = fc_log (wld st)"
  by (simp_all add: fc_log_def app_release_def app_remove_egress_def app_remove_file_def app_remove_dir_all_def release_jail_id_def
      set_fork_def app_record_ended_def release_pool_slot_def drop_sandbox_def on_world_def on_sys_def on_fs_def
      split: prod.splits option.splits)

lemma live_cong: "fc_log w' = fc_log w \<Longrightarrow> live_children w' = live_children w"
  by (simp add: live_children_def spawned_at_def fc_log_def)

lemma pools_ops [simp]:
  "app_pools (app_release l st) = app_pools st" "app_pools (app_remove_egress l st) = app_pools st"
  "app_pools (app_remove_file p st) = app_pools st" "app_pools (app_stop v st) = app_pools st"
  "app_pools (release_jail_id u st) = app_pools st" "app_pools (set_fork sid x st) = app_pools st"
  "app_pools (app_record_ended i reason sn st) = app_pools st" "app_pools (drop_sandbox i st) = app_pools st"
  by (simp_all add: app_release_def app_remove_egress_def app_remove_file_def release_jail_id_def set_fork_def app_stop_def
      app_record_ended_def drop_sandbox_def on_world_def on_sys_def on_fs_def split: prod.splits option.splits)

lemma jail_ops [simp]:
  "jailer_ids (app_release l st) = jailer_ids st" "jailer_ids (app_remove_egress l st) = jailer_ids st"
  "jailer_ids (app_remove_file p st) = jailer_ids st" "jailer_ids (app_stop v st) = jailer_ids st"
  "jailer_ids (release_pool_slot pid st) = jailer_ids st" "jailer_ids (set_fork sid x st) = jailer_ids st"
  "jailer_ids (app_record_ended i reason sn st) = jailer_ids st" "jailer_ids (drop_sandbox i st) = jailer_ids st"
  by (simp_all add: app_release_def app_remove_egress_def app_remove_file_def release_pool_slot_def set_fork_def app_stop_def
      app_record_ended_def drop_sandbox_def on_world_def on_sys_def on_fs_def split: prod.splits option.splits)

text \<open>
  C12. Destroying a sandbox gives everything back, whatever fails on the way: its Firecracker process
  and no other is killed, its tap device and address go to the end of the free pools, its
  jailer id and its pool slot are released, the snapshot it was forked from is unlocked, and it
  is gone from the map, with every other sandbox untouched.
\<close>

theorem destroy_releases_everything:
  assumes "destroy_sandbox_by_id i st = (r, st')" "hm_get i (sandboxes st) = Some s"
    "kills_past (wld st)" "vm_child (sb_vm s) < length (fc_events (wld st))"
  shows "r = Inr StopDestroyed \<and> sandboxes st' = hm_remove i (sandboxes st)
    \<and> live_children (wld st') = live_children (wld st) - {vm_child (sb_vm s)}
    \<and> free_taps (network st') = free_taps (network st) @ (case sb_network s of None \<Rightarrow> [] | Some l \<Rightarrow> [lease_tap l])
    \<and> free_hosts (network st') = free_hosts (network st) @ (case sb_network s of None \<Rightarrow> [] | Some l \<Rightarrow> [host_octet l])
    \<and> app_pools st' = release_slot (source_pool_id s) (app_pools st)
    \<and> jailer_ids st' = (case (sb_jail_id s, jailer_ids st) of (Some u, Some p) \<Rightarrow> Some (jailer_release u p) | _ \<Rightarrow> jailer_ids st)
    \<and> (case source_snapshot_id s of
         None \<Rightarrow> snapshots st' = snapshots st
       | Some sid \<Rightarrow> snapshots st' = hm_modify sid (\<lambda>x. x\<lparr>forked_into := None\<rparr>) (snapshots st))"
proof -
  define st2 where "st2 = app_stop (sb_vm s) (release_pool_slot (source_pool_id s) (drop_sandbox i st))"
  define st3 where "st3 = (case sb_network s of None \<Rightarrow> st2 | Some l \<Rightarrow> app_release l (app_remove_egress l st2))"
  define st4 where "st4 = release_jail_id (sb_jail_id s) (app_remove_file (sb_rootfs_path s) st3)"
  have st': "r = Inr StopDestroyed"
    "st' = app_record_ended i Destroyed None (case source_snapshot_id s of None \<Rightarrow> st4 | Some sid \<Rightarrow> set_fork sid None st4)"
    using assms(1,2) unfolding st4_def st3_def st2_def by (simp_all add: destroy_sandbox_by_id_def Let_def)
  have "wld (release_pool_slot (source_pool_id s) (drop_sandbox i st)) = wld st"
    by (simp add: release_pool_slot_def drop_sandbox_def)
  then have "wld st2 = snd (stop_inner (sb_vm s) True (wld st))"
    by (simp add: st2_def app_stop_def on_world_def vm_stop_def split: prod.splits)
  then have "live_children (wld st2) = live_children (wld st) - {vm_child (sb_vm s)}"
    using stop_inner_live(2) [OF _ assms(3,4)] by (cases "stop_inner (sb_vm s) True (wld st)") simp
  moreover have log: "fc_log (wld st') = fc_log (wld st4)" "fc_log (wld st4) = fc_log (wld st3)" "fc_log (wld st3) = fc_log (wld st2)"
    by (simp_all add: st'(2) st4_def st3_def split: option.split)
  ultimately have live: "live_children (wld st') = live_children (wld st) - {vm_child (sb_vm s)}" using live_cong [of "wld st'" "wld st2"] by simp
  have own: "own_of st' = (own_of st)\<lparr>os_sandboxes := hm_remove i (sandboxes st),
      os_net := release_opt (sb_network s) (network st), os_snapshots := unlock_source (source_snapshot_id s) (snapshots st)\<rparr>"
    using destroy_sandbox_own [OF assms(1)] assms(2) by simp
  have fields: "sandboxes st' = hm_remove i (sandboxes st)" "network st' = release_opt (sb_network s) (network st)"
    "snapshots st' = unlock_source (source_snapshot_id s) (snapshots st)"
    using own_of_sel [of st'] unfolding own by simp_all
  have st3: "app_pools st3 = release_slot (source_pool_id s) (app_pools st)" "jailer_ids st3 = jailer_ids st"
    by (simp_all add: st3_def st2_def release_pool_slot_def split: option.split)
  have "app_pools st' = app_pools st4" "jailer_ids st' = jailer_ids st4" by (simp_all add: st'(2) split: option.split)
  moreover have "app_pools st4 = app_pools st3" by (simp add: st4_def)
  moreover have "jailer_ids st4 = (case (sb_jail_id s, jailer_ids st) of (Some u, Some p) \<Rightarrow> Some (jailer_release u p) | _ \<Rightarrow> jailer_ids st)"
    using st3 by (simp add: st4_def release_jail_id_def split: option.split)
  moreover have "free_taps (network st') = free_taps (network st) @ (case sb_network s of None \<Rightarrow> [] | Some l \<Rightarrow> [lease_tap l])"
    "free_hosts (network st') = free_hosts (network st) @ (case sb_network s of None \<Rightarrow> [] | Some l \<Rightarrow> [host_octet l])"
    by (simp_all add: fields release_opt_def release_to_def split: option.split)
  moreover have "case source_snapshot_id s of None \<Rightarrow> snapshots st' = snapshots st
       | Some sid \<Rightarrow> snapshots st' = hm_modify sid (\<lambda>x. x\<lparr>forked_into := None\<rparr>) (snapshots st)"
    by (simp add: fields unlock_source_def split: option.split)
  ultimately show ?thesis using st'(1) live fields(1) st3 by simp
qed

definition running_app :: app where
  "running_app = sample_app\<lparr>sandboxes := [(''s1'', sample_sandbox)],
     wld := (wld sample_app)\<lparr>fc_events := [FcSpawn ''/bin/fc'' []]\<rparr>\<rparr>"

theorem destroy_releases_everything_witness:
  "\<exists>st'. destroy_sandbox_by_id ''s1'' running_app = (Inr StopDestroyed, st') \<and> sandboxes st' = []
    \<and> live_children (wld st') = live_children (wld running_app) - {0}
    \<and> free_taps (network st') = free_taps sample_manager @ [lease_tap sample_lease]"
proof -
  obtain r st' where d: "destroy_sandbox_by_id ''s1'' running_app = (r, st')" by (cases "destroy_sandbox_by_id ''s1'' running_app")
  have "hm_get ''s1'' (sandboxes running_app) = Some sample_sandbox" "kills_past (wld running_app)"
    "vm_child (sb_vm sample_sandbox) < length (fc_events (wld running_app))"
    by (simp_all add: running_app_def hm_get_def kills_past_def sample_sandbox_def sample_vm_def)
  from destroy_releases_everything [OF d this] d show ?thesis
    by (auto simp: running_app_def hm_remove_def sample_sandbox_def sample_vm_def)
qed

section \<open>Error paths that leak\<close>

lemma on_fs_log: "on_fs g w = (r, w') \<Longrightarrow> fc_log w' = fc_log w"
  by (auto simp: on_fs_def fc_log_def split: prod.splits)

text \<open>
  C18. Two error paths leak. When the directory for a snapshot cannot be created, the sandbox is gone
  from the map and its lease is free for others, but its Firecracker process was not stopped and stays
  alive. When the copy of the rootfs fails in a cold create while the lease, taken by the
  other thread, succeeded, the create fails but the tap device and the address are in no pool and no
  sandbox holds them.
\<close>

theorem error_paths_leak:
  assumes "hm_get i (sandboxes st) = Some s" "\<not> is_jailed (sb_vm s)" "source_snapshot_id s = None" "sb_network s = Some l"
    "fst (create_dir_all (snapshot_dir (w_uuid (wld st) (w_uuid_next (wld st)))) (w_fs (wld st))) = Inl e"
    and "app_clone_rootfs (bp_source b) (bp_rootfs b) ct = (Inl err, ct1)" "app_lease ct1 = (Inr cl, ct2)"
  shows "(\<exists>st'. snapshot_and_stop i st = (Inl (SnapIo e), st') \<and> hm_get i (sandboxes st') = None
      \<and> free_taps (network st') = free_taps (network st) @ [lease_tap l] \<and> live_children (wld st') = live_children (wld st))
    \<and> (\<exists>ct'. cold_boot_task b ct = (Inl err, ct') \<and> sandboxes ct' = sandboxes ct
      \<and> free_taps (network ct) = lease_tap cl # free_taps (network ct') \<and> free_hosts (network ct) = host_octet cl # free_hosts (network ct'))"
proof
  let ?st1 = "release_pool_slot (source_pool_id s) (drop_sandbox i st)" and ?sid = "w_uuid (wld st) (w_uuid_next (wld st))"
  let ?w2 = "(wld st)\<lparr>w_uuid_next := Suc (w_uuid_next (wld st))\<rparr>"
  have st1: "wld ?st1 = wld st" "network ?st1 = network st" "sandboxes ?st1 = hm_remove i (sandboxes st)"
    by (simp_all add: release_pool_slot_def drop_sandbox_def)
  obtain f3 where d: "create_dir_all (snapshot_dir ?sid) (w_fs (wld st)) = (Inl e, f3)"
    using assms(5) by (cases "create_dir_all (snapshot_dir ?sid) (w_fs (wld st))") simp
  define st3 where "st3 = ?st1\<lparr>wld := ?w2\<lparr>w_fs := f3\<rparr>\<rparr>"
  have u: "app_uuid ?st1 = (?sid, ?st1\<lparr>wld := ?w2\<rparr>)" by (simp add: app_uuid_def on_world_def new_uuid_def st1)
  have task: "snapshot_task v (snapshot_dir ?sid) p m (?st1\<lparr>wld := ?w2\<rparr>) = (Inl e, st3)" for v p m
    using d by (simp add: snapshot_task_def on_world_def on_fs_def st3_def)
  define st' where "st' = app_remove_file (sb_rootfs_path s) (app_release l (app_remove_egress l (app_remove_dir_all (snapshot_dir ?sid) st3)))"
  have "snapshot_and_stop i st = (Inl (SnapIo e), st')"
    using assms(1-4) u task by (simp add: snapshot_and_stop_def check_snapshottable_def Let_def st'_def)
  moreover have "own_of st' = (own_of st3)\<lparr>os_net := release_to l (network st3)\<rparr>" 
    by (simp add: st'_def, simp add: app_remove_egress_def app_remove_dir_all_def on_world_def split: prod.split)
  then have "sandboxes st' = hm_remove i (sandboxes st)" "network st' = release_to l (network st)"
    using own_of_sel [of st'] st1 by (simp_all add: st3_def own_of_def)
  moreover have "fc_log (wld st') = fc_log (wld st3)" by (simp add: st'_def)
  then have "live_children (wld st') = live_children (wld st)" by (intro live_cong) (simp add: st3_def fc_log_def)
  ultimately show "\<exists>st'. snapshot_and_stop i st = (Inl (SnapIo e), st') \<and> hm_get i (sandboxes st') = None
      \<and> free_taps (network st') = free_taps (network st) @ [lease_tap l] \<and> live_children (wld st') = live_children (wld st)"
    by (auto simp: hm_simps release_to_def)
next
  have "network ct1 = network ct" "sandboxes ct1 = sandboxes ct"
    using assms(6) by (auto simp: app_clone_rootfs_def on_world_def split: prod.splits)
  moreover from assms(7) have "sandboxes ct2 = sandboxes ct1" "free_taps (network ct1) = lease_tap cl # free_taps (network ct2)"
      "free_hosts (network ct1) = host_octet cl # free_hosts (network ct2)"
    by (auto simp: app_lease_def lease_net_def lease_tap_def pop_host_def pop_tap_def split: prod.splits option.splits sum.splits list.splits)
  ultimately show "\<exists>ct'. cold_boot_task b ct = (Inl err, ct') \<and> sandboxes ct' = sandboxes ct
      \<and> free_taps (network ct) = lease_tap cl # free_taps (network ct') \<and> free_hosts (network ct) = host_octet cl # free_hosts (network ct')"
    using assms(6,7) by (simp add: cold_boot_task_def)
qed

text \<open>A host whose disk takes no new directory and whose \<^verbatim>\<open>cp\<close> fails.\<close>

definition failing_app :: app where
  "failing_app = running_app\<lparr>wld := (wld running_app)\<lparr>
     w_sys := (w_sys (wld running_app))\<lparr>answer := (\<lambda>_ c. Inr \<lparr>out_success = cmd_program c \<noteq> ''cp'', out_stdout = [], out_stderr = []\<rparr>)\<rparr>,
     w_fs := (w_fs (wld running_app))\<lparr>fs_faults := (\<lambda>_ op. case op of
       OpCreateDir _ \<Rightarrow> Some \<lparr>fault_err = no_entry, fault_written = None, fault_kept = (\<lambda>_. True)\<rparr> | _ \<Rightarrow> None)\<rparr>\<rparr>\<rparr>"

definition some_boot :: boot_params where
  "some_boot = \<lparr>bp_rootfs = ''/tmp/r'', bp_source = ''/tmp/base.ext4'', bp_vcpu_count = 1, bp_mem_size_mib = 128, bp_drives = [],
     bp_rate_limit = None, bp_egress = None, bp_metadata = JNull\<rparr>"

theorem error_paths_leak_witness:
  "(\<exists>e st'. snapshot_and_stop ''s1'' failing_app = (Inl (SnapIo e), st') \<and> live_children (wld st') = live_children (wld failing_app))
    \<and> (\<exists>err ct' cl. cold_boot_task some_boot failing_app = (Inl err, ct') \<and> free_taps (network failing_app) = lease_tap cl # free_taps (network ct'))"
proof -
  have s: "hm_get ''s1'' (sandboxes failing_app) = Some sample_sandbox" "\<not> is_jailed (sb_vm sample_sandbox)"
    "source_snapshot_id sample_sandbox = None" "sb_network sample_sandbox = Some sample_lease"
    by (simp_all add: failing_app_def running_app_def hm_get_def sample_sandbox_def sample_vm_def is_jailed_def)
  have dir: "fst (create_dir_all p (w_fs (wld failing_app))) = Inl no_entry" for p
    by (simp add: create_dir_all_def fs_try_def failing_app_def)
  obtain ct1 where c: "app_clone_rootfs (bp_source some_boot) (bp_rootfs some_boot) failing_app =
      (Inl (io_other ''cp --reflink=auto failed'' [bp_source some_boot, bp_rootfs some_boot]), ct1)"
    "network ct1 = sample_manager" "answer (w_sys (wld ct1)) = answer (w_sys (wld failing_app))"
    by (simp add: app_clone_rootfs_def on_world_def on_disk_def clone_rootfs_def run_on_disk_def command_output_def failing_app_def running_app_def)
  have "free_hosts sample_manager \<noteq> []"
    unfolding sample_manager_def free_hosts_new by (metis length_host_octets length_0_conv zero_neq_numeral)
  then obtain h hs where h: "pop_host sample_manager = Some (h, sample_manager\<lparr>free_hosts := hs\<rparr>)"
    by (cases "free_hosts sample_manager") (simp_all add: pop_host_def)
  have t: "pop_tap (sample_manager\<lparr>free_hosts := hs\<rparr>) = Some (''sk-tap0'', sample_manager\<lparr>free_hosts := hs, free_taps := [''sk-tap1'']\<rparr>)"
    by (simp add: pop_tap_def sample_manager_def network_new_def)
  have "fst (attach_tap m t (w_sys (wld ct1))) = Inr ()" for m t
    using c(3) by (simp add: attach_tap_def run_def command_output_def failing_app_def)
  with h t c(2) have "\<exists>cl ct2. app_lease ct1 = (Inr cl, ct2)"
    by (cases "attach_tap (sample_manager\<lparr>free_hosts := hs, free_taps := [''sk-tap1'']\<rparr>) ''sk-tap0'' (w_sys (wld ct1))")
      (simp add: app_lease_def lease_net_def, metis fst_conv old.sum.simps(6) prod.case)
  then obtain cl ct2 where "app_lease ct1 = (Inr cl, ct2)" by blast
  from error_paths_leak [OF s dir c(1) this] show ?thesis by blast
qed

section \<open>Previews of forks\<close>

text \<open>
  The preview proxy finds the guest of every live sandbox, forks included: after any sequence of calls
  from a sound start the address is that of the sandbox's own lease or, for a fork, that of the lease
  its locked source snapshot holds; neither of the two errors that the source calls a bug can be
  answered, and only an unknown id is refused.
\<close>

theorem preview_finds_guest:
  assumes "sound_start env cdc hist w st0" "st = serve_all ext calls st0"
  shows "case hm_get i (sandboxes st) of
      None \<Rightarrow> preview_guest_ip i st = Inl (SandboxNotFound i)
    | Some s \<Rightarrow> \<exists>l. preview_guest_ip i st = Inr (guest_ip (lease_config l))
        \<and> (sb_network s = Some l \<or> (\<exists>sid sn. source_snapshot_id s = Some sid \<and> hm_get sid (snapshots st) = Some sn
             \<and> forked_into sn = Some i \<and> l = sn_network sn))"
proof (cases "hm_get i (sandboxes st)")
  case (Some s)
  have "own_inv (own_of st)" unfolding assms(2) by (rule daemon_inv [OF assms(1)])
  then have f: "fork_locked (snapshots st) i s" using Some by (simp add: own_inv_def forks_locked_def)
  show ?thesis
  proof (cases "sb_network s")
    case None
    with f obtain sid sn where "source_snapshot_id s = Some sid" "hm_get sid (snapshots st) = Some sn" "forked_into sn = Some i"
      by (auto simp: fork_locked_def split: option.splits)
    with Some None show ?thesis by (simp add: preview_guest_ip_def)
  next
    case (Some l)
    then have "preview_guest_ip i st = Inr (guest_ip (lease_config l))"
      using \<open>hm_get i (sandboxes st) = Some s\<close> by (simp add: preview_guest_ip_def)
    with Some \<open>hm_get i (sandboxes st) = Some s\<close> show ?thesis by auto
  qed
qed (simp add: preview_guest_ip_def)

theorem preview_finds_guest_witness:
  "\<exists>st0 st. sound_start start_env sample_codec sample_store sample_world st0 \<and> st = serve_all no_externals sample_calls st0
     \<and> (\<forall>i e. preview_guest_ip i st \<noteq> Inl (Internal e))"
proof -
  obtain st0 where s: "sound_start start_env sample_codec sample_store sample_world st0" using sample_start by blast
  have "preview_guest_ip i (serve_all no_externals sample_calls st0) \<noteq> Inl (Internal e)" for i e
    using preview_finds_guest [OF s refl, of i no_externals sample_calls] by (auto split: option.splits)
  with s show ?thesis by blast
qed

end
